(* ===== verification/Prelude.thy ===== *)
theory Prelude
  imports Main "HOL-Library.Word" "HOL-Library.Code_Target_Numeral"
begin

text \<open>
  What every component shares: the names of the machine types, the collections of facts the
  component proofs are driven by, and the interfaces of transition systems: one that keeps an invariant, one
  that implements an abstract system event by event, one that also offers all of its events.

  Go strings and byte slices are both sequences of bytes, which is what \<^typ>\<open>string\<close> is (a
  \<^typ>\<open>char\<close> is a byte). \<open>uint64\<close> is \<open>64 word\<close>, with Go's wrap-around addition.
\<close>

section \<open>Machine types\<close>

type_synonym u64 = "64 word"

type_synonym bytes = string

abbreviation u64_max :: nat where
  "u64_max \<equiv> 18446744073709551615"

lemma unat_u64_le: "unat (w :: u64) \<le> u64_max"
proof -
  have "unat w < 2 ^ 64"
    using unsigned_less [of w] by simp
  then show ?thesis by simp
qed

text \<open>\<open>int64(x)\<close> of an unsigned word.\<close>

lemma sint_u64: "sint w = uint w - (if 2 ^ 63 \<le> unat w then 2 ^ 64 else 0)" for w :: u64
proof -
  have b: "uint w < 2 ^ 64" "0 \<le> uint w" using uint_bounded [of w] by simp_all
  have d: "bit (uint w) 63 \<longleftrightarrow> 2 ^ 63 \<le> uint w"
  proof -
    have "uint w div 2 ^ 63 = 0 \<or> uint w div 2 ^ 63 = 1" using b by auto
    then show ?thesis using b by (auto simp: bit_iff_odd)
  qed
  have "2 ^ 63 \<le> unat w \<longleftrightarrow> 2 ^ 63 \<le> uint w"
    using of_nat_le_iff [of "2 ^ 63" "unat w", where ?'a = int] by (simp del: of_nat_le_iff)
  then show ?thesis
    using b d by (simp add: sint_uint signed_take_bit_eq_take_bit_minus take_bit_int_eq_self)
qed

lemma sint_u64_low: "unat w < 2 ^ 63 \<Longrightarrow> sint w = uint w" for w :: u64
  by (simp add: sint_u64)

lemma sint_u64_high: "2 ^ 63 \<le> unat w \<Longrightarrow> sint w < 0" for w :: u64
  using uint_bounded [of w] by (simp add: sint_u64)

lemma unat_u64_of_nat: "n \<le> u64_max \<Longrightarrow> unat (of_nat n :: u64) = n"
  by (simp add: unsigned_of_nat take_bit_nat_eq_self)

section \<open>Fact collections\<close>

named_theorems chan_simps "equations of the channel operations"

section \<open>Lists\<close>

lemma take_to_rest: "take (length s - length r) s @ r = s" if "\<exists>p. s = p @ r"
  using that by auto

lemma filter_snoc [simp]: "filter P (xs @ [x]) = filter P xs @ (if P x then [x] else [])"
  by simp

lemma concat_snoc [simp]: "concat (xss @ [xs]) = concat xss @ xs"
  by simp

section \<open>Transition systems with an invariant\<close>

text \<open>
  A component is a step relation on its state. The provider shows that one step keeps the
  invariant; the client gets it for every state a run reaches.
\<close>

locale stable_system =
  fixes step :: "'s \<Rightarrow> 's \<Rightarrow> bool"
    and Inv :: "'s \<Rightarrow> bool"
  assumes step_keeps: "Inv s \<Longrightarrow> step s t \<Longrightarrow> Inv t"
begin

lemma run_keeps: "step\<^sup>*\<^sup>* s t \<Longrightarrow> Inv s \<Longrightarrow> Inv t"
  by (induction rule: rtranclp_induct) (auto intro: step_keeps)

lemma run_elim:
  assumes "step\<^sup>*\<^sup>* s t" and "Inv s" and "\<And>u. Inv u \<Longrightarrow> P u"
  shows "P t"
  using assms run_keeps by blast

text \<open>A quantity every step lets only grow (or keeps) does so along a run.\<close>

lemma run_monotone:
  assumes mono: "\<And>s t. Inv s \<Longrightarrow> step s t \<Longrightarrow> R (f s) (f t)"
    and refl: "\<And>x. R x x" and trans: "\<And>x y z. R x y \<Longrightarrow> R y z \<Longrightarrow> R x z"
    and run: "step\<^sup>*\<^sup>* s t" and init: "Inv s"
  shows "R (f s) (f t)"
proof -
  from run have "Inv t \<and> R (f s) (f t)"
    by (induction rule: rtranclp_induct) (use init refl in \<open>auto intro: step_keeps mono trans\<close>)
  then show ?thesis by simp
qed

end

text \<open>
  A labelled system shows in each step the events that step makes; a trace collects the events of
  a run. An abstract system is an executable function: the state after an event, if the event is
  possible. \<open>exec\<close> runs it on a list of events.
\<close>

inductive trace :: "('s \<Rightarrow> 'e list \<Rightarrow> 's \<Rightarrow> bool) \<Rightarrow> 's \<Rightarrow> 'e list \<Rightarrow> 's \<Rightarrow> bool" for step where
  trace_start: "trace step s [] s"
| trace_step: "trace step s es t \<Longrightarrow> step t fs u \<Longrightarrow> trace step s (es @ fs) u"

primrec exec :: "('e \<Rightarrow> 'a \<Rightarrow> 'a option) \<Rightarrow> 'e list \<Rightarrow> 'a \<Rightarrow> 'a option" where
  "exec astep [] a = Some a"
| "exec astep (e # es) a = Option.bind (astep e a) (exec astep es)"

lemma exec_append:
  "exec astep (es @ fs) a = Option.bind (exec astep es a) (exec astep fs)"
  by (induction es arbitrary: a) (simp_all split: Option.bind_split)

lemma trace_single: "step s es t \<Longrightarrow> trace step s es t"
  using trace_step [OF trace_start] by simp

text \<open>A run shows some events.\<close>

lemma run_traced:
  assumes "R\<^sup>*\<^sup>* s t" and "\<And>s t. R s t \<Longrightarrow> \<exists>es. step s es t"
  shows "\<exists>es. trace step s es t"
  using assms(1) by (induction rule: rtranclp_induct) (metis trace_start, metis assms(2) trace_step)

text \<open>
  A concrete system that implements an abstract one: under the concrete invariant the events of
  a concrete step are possible in the abstract state, and lead to the abstract state of the next.
\<close>

locale implements =
  fixes step :: "'s \<Rightarrow> 'e list \<Rightarrow> 's \<Rightarrow> bool"
    and Inv :: "'s \<Rightarrow> bool"
    and astep :: "'e \<Rightarrow> 'a \<Rightarrow> 'a option"
    and abst :: "'s \<Rightarrow> 'a"
  assumes keeps: "Inv s \<Longrightarrow> step s es t \<Longrightarrow> Inv t"
    and simulates: "Inv s \<Longrightarrow> step s es t \<Longrightarrow> exec astep es (abst s) = Some (abst t)"
begin

lemma trace_keeps: "trace step s es t \<Longrightarrow> Inv s \<Longrightarrow> Inv t"
  by (induction rule: trace.induct) (auto intro: keeps)

lemma trace_simulated: "trace step s es t \<Longrightarrow> Inv s \<Longrightarrow> exec astep es (abst s) = Some (abst t)"
proof (induction rule: trace.induct)
  case (trace_start s)
  then show ?case by simp
next
  case (trace_step s es t fs u)
  then have "Inv t" by (blast intro: trace_keeps)
  with trace_step show ?case by (simp add: exec_append simulates)
qed

end

text \<open>
  An implementation that offers all the abstract system does: whatever is possible there, some
  concrete step does. Then the traces are exactly the sequences of events the abstract system
  accepts.
\<close>

locale offers = implements step Inv astep abst
  for step :: "'s \<Rightarrow> 'e list \<Rightarrow> 's \<Rightarrow> bool" and Inv :: "'s \<Rightarrow> bool"
    and astep :: "'e \<Rightarrow> 'a \<Rightarrow> 'a option" and abst :: "'s \<Rightarrow> 'a" +
  assumes enables: "Inv s \<Longrightarrow> astep e (abst s) = Some a \<Longrightarrow> \<exists>t. step s [e] t \<and> abst t = a"
begin

lemma exec_traced:
  "Inv s \<Longrightarrow> exec astep es (abst s) = Some a \<Longrightarrow> \<exists>t. trace step s es t \<and> abst t = a"
proof (induction es arbitrary: a rule: rev_induct)
  case Nil
  then show ?case by (auto intro: trace_start)
next
  case (snoc e es)
  then obtain b where "exec astep es (abst s) = Some b" and b: "astep e b = Some a"
    by (auto simp: exec_append split: bind_splits)
  with snoc obtain t where t: "trace step s es t" "abst t = b" by blast
  then have "Inv t" using snoc.prems(1) trace_keeps by blast
  with enables [of t e a] b t obtain u where "step t [e] u" "abst u = a" by blast
  with trace_step [OF t(1), of "[e]" u] show ?case by blast
qed

theorem traces_are_executions:
  "Inv s \<Longrightarrow> (\<exists>t. trace step s es t \<and> abst t = a) \<longleftrightarrow> exec astep es (abst s) = Some a"
  using exec_traced trace_simulated by metis

end

end
