(* ===== verification/Decimal.thy ===== *)
theory Decimal
  imports Prelude
begin

text \<open>
  Decimal numerals as Go's \<open>strconv\<close> and \<open>fmt\<close> treat them: \<open>%d\<close> and
  \<open>FormatUint(n, 10)\<close> print, \<open>ParseUint(s, 10, 64)\<close> and \<open>ParseInt(s, 10, 64)\<close> read, with
  the two kinds of error and the value Go returns beside each of them.
\<close>

section \<open>Digits\<close>

abbreviation byte :: "char \<Rightarrow> nat" where
  "byte c \<equiv> of_char c"

definition is_digit :: "char \<Rightarrow> bool" where
  "is_digit c \<longleftrightarrow> 48 \<le> byte c \<and> byte c \<le> 57"

definition digit_val :: "char \<Rightarrow> nat" where
  "digit_val c = byte c - 48"

definition digit_char :: "nat \<Rightarrow> char" where
  "digit_char d = char_of (48 + d)"

lemma byte_digit_char: "d < 10 \<Longrightarrow> byte (digit_char d) = 48 + d"
  by (simp add: digit_char_def of_char_of)

lemma digit_char_digit [simp]: "d < 10 \<Longrightarrow> is_digit (digit_char d)"
  by (simp add: is_digit_def byte_digit_char)

lemma digit_val_char [simp]: "d < 10 \<Longrightarrow> digit_val (digit_char d) = d"
  by (simp add: digit_val_def byte_digit_char)

lemma digit_val_less: "is_digit c \<Longrightarrow> digit_val c < 10"
  unfolding is_digit_def digit_val_def by linarith

lemma digit_char_val: "is_digit c \<Longrightarrow> digit_char (digit_val c) = c"
  by (simp add: is_digit_def digit_val_def digit_char_def)

text \<open>The number a string of digits denotes.\<close>

definition digits_val :: "string \<Rightarrow> nat" where
  "digits_val s = foldl (\<lambda>n c. 10 * n + digit_val c) 0 s"

lemma digits_val_simps [simp]:
  "digits_val [] = 0" "digits_val (s @ [c]) = 10 * digits_val s + digit_val c"
  by (simp_all add: digits_val_def)

section \<open>Printing\<close>

fun show_nat :: "nat \<Rightarrow> string" where
  "show_nat n =
     (if n < 10 then [digit_char n] else show_nat (n div 10) @ [digit_char (n mod 10)])"

declare show_nat.simps [simp del]

definition show_int :: "int \<Rightarrow> string" where
  "show_int i = (if i < 0 then CHR ''-'' # show_nat (nat (- i)) else show_nat (nat i))"

lemma show_nat_nonempty [simp]: "show_nat n \<noteq> []"
  by (subst show_nat.simps) simp

lemma show_nat_digits: "\<forall>c \<in> set (show_nat n). is_digit c"
proof (induction n rule: show_nat.induct)
  case (1 n)
  then show ?case
    by (subst show_nat.simps) auto
qed

lemma digits_val_show [simp]: "digits_val (show_nat n) = n"
proof (induction n rule: show_nat.induct)
  case (1 n)
  show ?case
  proof (cases "n < 10")
    case True
    then show ?thesis by (subst show_nat.simps) (simp add: digits_val_def)
  next
    case False
    with 1 show ?thesis by (subst show_nat.simps) simp
  qed
qed

lemma show_nat_inject [simp]: "show_nat m = show_nat n \<longleftrightarrow> m = n"
  by (metis digits_val_show)

section \<open>Reading\<close>

datatype num_error = ErrSyntax | ErrRange

text \<open>
  The loop of \<open>ParseUint\<close>: it stops at the first byte that is not a digit, and at the first
  digit that takes the number past the largest \<open>uint64\<close>, whichever comes first.
\<close>

fun parse_uint_loop :: "nat \<Rightarrow> string \<Rightarrow> num_error + nat" where
  "parse_uint_loop n [] = Inr n"
| "parse_uint_loop n (c # cs) =
     (if \<not> is_digit c then Inl ErrSyntax
      else if u64_max < 10 * n + digit_val c then Inl ErrRange
      else parse_uint_loop (10 * n + digit_val c) cs)"

definition ParseUint :: "string \<Rightarrow> num_error + nat" where
  "ParseUint s = (if s = [] then Inl ErrSyntax else parse_uint_loop 0 s)"

text \<open>The number \<open>ParseUint\<close> returns, which callers that drop the error go on with.\<close>

definition uint_result :: "num_error + nat \<Rightarrow> u64" where
  "uint_result r =
     (case r of Inr n \<Rightarrow> of_nat n | Inl ErrSyntax \<Rightarrow> 0 | Inl ErrRange \<Rightarrow> of_nat u64_max)"

definition ParseInt :: "string \<Rightarrow> num_error + int" where
  "ParseInt s =
     (let neg = (case s of c # _ \<Rightarrow> c = CHR ''-'' | [] \<Rightarrow> False);
          body = (case s of c # cs \<Rightarrow> if c = CHR ''-'' \<or> c = CHR ''+'' then cs else s
                  | [] \<Rightarrow> [])
      in (case ParseUint body of
            Inl e \<Rightarrow> Inl e
          | Inr n \<Rightarrow>
              if \<not> neg \<and> 2 ^ 63 \<le> n then Inl ErrRange
              else if neg \<and> 2 ^ 63 < n then Inl ErrRange
              else Inr (if neg then - int n else int n)))"

lemma parse_uint_loop_bound: "parse_uint_loop m s = Inr n \<Longrightarrow> m \<le> u64_max \<Longrightarrow> n \<le> u64_max"
  by (induction m s rule: parse_uint_loop.induct) (auto split: if_splits)

lemma ParseUint_bound: "ParseUint s = Inr n \<Longrightarrow> n \<le> u64_max"
  by (auto simp: ParseUint_def dest: parse_uint_loop_bound split: if_splits)

lemma parse_uint_loop_digits:
  "\<forall>c \<in> set s. is_digit c \<Longrightarrow>
   foldl (\<lambda>n c. 10 * n + digit_val c) m s \<le> u64_max \<Longrightarrow>
   parse_uint_loop m s = Inr (foldl (\<lambda>n c. 10 * n + digit_val c) m s)"
proof (induction m s rule: parse_uint_loop.induct)
  case (1 n)
  then show ?case by simp
next
  case (2 n c cs)
  let ?n = "10 * n + digit_val c"
  have "m \<le> foldl (\<lambda>n c. 10 * n + digit_val c) m ds" for m :: nat and ds
    by (induction ds arbitrary: m) (simp, fastforce intro: order.trans [rotated])
  then have "?n \<le> u64_max"
    using 2(3) order.trans by fastforce
  with 2 show ?case by auto
qed

lemma ParseUint_digits:
  assumes "s \<noteq> []" and "\<forall>c \<in> set s. is_digit c" and "digits_val s \<le> u64_max"
  shows "ParseUint s = Inr (digits_val s)"
  using assms parse_uint_loop_digits [of s 0] by (simp add: ParseUint_def digits_val_def)

lemma parse_uint_loop_sound:
  "parse_uint_loop m s = Inr n \<Longrightarrow>
   (\<forall>c \<in> set s. is_digit c) \<and> n = foldl (\<lambda>n c. 10 * n + digit_val c) m s"
  by (induction m s rule: parse_uint_loop.induct) (auto split: if_splits)

lemma ParseUint_iff:
  "ParseUint s = Inr n \<longleftrightarrow>
     s \<noteq> [] \<and> (\<forall>c \<in> set s. is_digit c) \<and> n = digits_val s \<and> n \<le> u64_max"
proof
  assume *: "ParseUint s = Inr n"
  then show "s \<noteq> [] \<and> (\<forall>c \<in> set s. is_digit c) \<and> n = digits_val s \<and> n \<le> u64_max"
    using ParseUint_bound [OF *]
    by (auto simp: ParseUint_def digits_val_def dest!: parse_uint_loop_sound split: if_splits)
qed (auto simp: ParseUint_digits)

lemma ParseUint_show [simp]: "n \<le> u64_max \<Longrightarrow> ParseUint (show_nat n) = Inr n"
  by (simp add: ParseUint_iff show_nat_digits)

lemma show_nat_hd: "\<exists>c cs. show_nat n = c # cs \<and> is_digit c"
  using show_nat_digits [of n] by (cases "show_nat n") auto

lemma not_digit_sign [simp]: "\<not> is_digit (CHR ''-'')" "\<not> is_digit (CHR ''+'')"
  by (simp_all add: is_digit_def)

lemma ParseInt_show:
  assumes "- (2 ^ 63) \<le> i" and "i < 2 ^ 63"
  shows "ParseInt (show_int i) = Inr i"
proof (cases "i < 0")
  case True
  with assms have "nat (- i) \<le> u64_max" and "\<not> 2 ^ 63 < nat (- i)"
    by (simp_all add: nat_le_iff zless_nat_eq_int_zless)
  with True show ?thesis
    by (simp add: ParseInt_def show_int_def)
next
  case False
  with assms have "nat i \<le> u64_max" and "\<not> 2 ^ 63 \<le> nat i"
    by (simp_all add: nat_le_iff le_nat_iff)
  moreover obtain c cs where "show_nat (nat i) = c # cs" "is_digit c"
    using show_nat_hd by blast
  moreover have "c \<noteq> CHR ''-''" "c \<noteq> CHR ''+''"
    using \<open>is_digit c\<close> by auto
  moreover have "ParseUint (show_nat (nat i)) = Inr (nat i)"
    using \<open>nat i \<le> u64_max\<close> by simp
  ultimately show ?thesis
    using False by (simp add: ParseInt_def show_int_def)
qed

lemma uint_result_show [simp]: "uint_result (ParseUint (show_nat (unat (w :: u64)))) = w"
  by (simp add: unat_u64_le uint_result_def)

end
