(* ===== verification/Utf8.thy ===== *)
theory Utf8
  imports Decimal
begin

text \<open>
  UTF-8 as \<open>unicode/utf8\<close> reads it: the size of the rune a byte string starts with (0 where it
  starts with no valid encoding, as Go's \<open>RuneError\<close> of size 1 says), the cut of a string into
  its runes, and the encoding of a code point.
\<close>

section \<open>The rune at the start of a string\<close>

definition cont_byte :: "char \<Rightarrow> bool" where
  "cont_byte c \<longleftrightarrow> 0x80 \<le> byte c \<and> byte c \<le> 0xBF"

text \<open>The second byte's range depends on the first: no overlong forms, no surrogates.\<close>

definition second_byte :: "char \<Rightarrow> char \<Rightarrow> bool" where
  "second_byte b c \<longleftrightarrow>
     (if byte b = 0xE0 then 0xA0 else if byte b = 0xF0 then 0x90 else 0x80) \<le> byte c \<and>
     byte c \<le> (if byte b = 0xED then 0x9F else if byte b = 0xF4 then 0x8F else 0xBF)"

fun rune_size :: "string \<Rightarrow> nat" where
  "rune_size [] = 0"
| "rune_size (b # cs) =
     (if byte b < 0x80 then 1
      else if byte b < 0xC2 then 0
      else if byte b < 0xE0 then
        (case cs of c1 # _ \<Rightarrow> if second_byte b c1 then 2 else 0 | _ \<Rightarrow> 0)
      else if byte b < 0xF0 then
        (case cs of c1 # c2 # _ \<Rightarrow> if second_byte b c1 \<and> cont_byte c2 then 3 else 0 | _ \<Rightarrow> 0)
      else if byte b < 0xF5 then
        (case cs of
           c1 # c2 # c3 # _ \<Rightarrow>
             if second_byte b c1 \<and> cont_byte c2 \<and> cont_byte c3 then 4 else 0
         | _ \<Rightarrow> 0)
      else 0)"

lemma rune_size_le: "rune_size s \<le> length s"
  by (cases s) (auto split: list.splits)

lemma rune_size_append: "rune_size s \<noteq> 0 \<Longrightarrow> rune_size (s @ t) = rune_size s"
  by (cases s) (auto split: list.splits if_splits)

lemma rune_size_take: "rune_size (take (rune_size s) s @ t) = rune_size s" if "rune_size s \<noteq> 0"
  using that by (cases s) (auto split: list.splits if_splits)

lemma rune_size_ascii: "rune_size (c # s) = 1 \<longleftrightarrow> byte c < 0x80"
  by (auto split: list.splits)

declare rune_size.simps(2) [simp del]

section \<open>Cutting a string into runes\<close>

text \<open>A byte that starts no rune is a chunk of its own, as Go's loops advance by one there.\<close>

function runes :: "string \<Rightarrow> string list" where
  "runes [] = []"
| "runes (c # cs) =
     (let n = max 1 (rune_size (c # cs)) in take n (c # cs) # runes (drop n (c # cs)))"
  by pat_completeness auto
termination
  by (relation "measure length") auto

declare runes.simps(2) [simp del]

lemma concat_runes [simp]: "concat (runes s) = s"
proof (induction s rule: runes.induct)
  case (2 c cs)
  then show ?case by (subst runes.simps) (simp add: Let_def)
qed simp

text \<open>Well-formed UTF-8: every chunk is a rune.\<close>

definition valid_utf8 :: "string \<Rightarrow> bool" where
  "valid_utf8 s \<longleftrightarrow> (\<forall>r \<in> set (runes s). rune_size r \<noteq> 0)"

lemma runes_Cons:
  "runes (c # cs) =
     take (max 1 (rune_size (c # cs))) (c # cs) # runes (drop (max 1 (rune_size (c # cs))) (c # cs))"
  by (simp only: runes.simps(2) Let_def)

text \<open>A rune is one of the chunks \<^const>\<open>rune_size\<close> measures out.\<close>

definition is_rune :: "string \<Rightarrow> bool" where
  "is_rune r \<longleftrightarrow> r \<noteq> [] \<and> rune_size r = length r"

lemma valid_utf8_runes: "valid_utf8 s \<Longrightarrow> r \<in> set (runes s) \<Longrightarrow> is_rune r"
proof (induction s rule: runes.induct)
  case (2 c cs)
  let ?s = "c # cs" and ?n = "max 1 (rune_size (c # cs))"
  have eq: "runes ?s = take ?n ?s # runes (drop ?n ?s)"
    by (rule runes_Cons)
  with 2 have "valid_utf8 (drop ?n ?s)" by (simp add: valid_utf8_def)
  show ?case
  proof (cases "r = take ?n ?s")
    case True
    have "rune_size (take ?n ?s) \<noteq> 0"
      using 2 eq by (simp add: valid_utf8_def)
    then have nz: "rune_size ?s \<noteq> 0"
      using rune_size_append [of "take ?n ?s" "drop ?n ?s"] by simp
    then have n: "?n = rune_size ?s" by simp
    have "rune_size (take ?n ?s) = rune_size ?s"
      using rune_size_take [OF nz, of "[]"] n by simp
    moreover have "length (take ?n ?s) = rune_size ?s"
      using rune_size_le [of ?s] n by simp
    ultimately show ?thesis
      using True by (simp add: is_rune_def)
  next
    case False
    with 2 eq \<open>valid_utf8 (drop ?n ?s)\<close> show ?thesis by simp
  qed
qed simp

lemma is_rune_append: "is_rune r \<Longrightarrow> rune_size (r @ t) = length r"
  using rune_size_append [of r t] by (simp add: is_rune_def)

lemma runes_Cons_rune: "is_rune r \<Longrightarrow> runes (r @ t) = r # runes t"
proof -
  assume r: "is_rune r"
  then obtain c cs where "r = c # cs" by (cases r) (auto simp: is_rune_def)
  moreover from r have "rune_size (r @ t) = length r" by (rule is_rune_append)
  ultimately show ?thesis
    by (simp add: runes_Cons [of c "cs @ t"])
qed

lemma is_rune_take: "rune_size s \<noteq> 0 \<Longrightarrow> is_rune (take (rune_size s) s)"
  using rune_size_le [of s] rune_size_take [of s "[]"] by (auto simp: is_rune_def)

lemma valid_utf8_rune: "is_rune r \<Longrightarrow> valid_utf8 t \<Longrightarrow> valid_utf8 (r @ t)"
  by (auto simp: valid_utf8_def runes_Cons_rune is_rune_def)

text \<open>A chunk is a rune or a single byte that starts none.\<close>

lemma runes_chunks: "r \<in> set (runes s) \<Longrightarrow> is_rune r \<or> (\<exists>c. r = [c] \<and> 0x80 \<le> byte c)"
proof (induction s rule: runes.induct)
  case (2 c cs)
  let ?s = "c # cs" and ?n = "max 1 (rune_size (c # cs))"
  consider "r = take ?n ?s" | "r \<in> set (runes (drop ?n ?s))" using 2 by (auto simp: runes_Cons [of c cs])
  then show ?case
  proof cases
    case 1
    show ?thesis
    proof (cases "rune_size ?s = 0")
      case True
      then have "0x80 \<le> byte c" by (auto simp: rune_size.simps(2) split: if_splits)
      then show ?thesis using 1 True by simp
    next
      case False
      then have "?n = rune_size ?s" by simp
      then show ?thesis using is_rune_take [OF False] 1 by simp
    qed
  next
    case 2
    then show ?thesis using "2.IH" by blast
  qed
qed simp

section \<open>Encoding a code point\<close>

definition encode_rune :: "nat \<Rightarrow> string" where
  "encode_rune u =
     (if u < 0x80 then [char_of u]
      else if u < 0x800 then [char_of (0xC0 + u div 0x40), char_of (0x80 + u mod 0x40)]
      else if u < 0x10000 then
        [char_of (0xE0 + u div 0x1000), char_of (0x80 + u div 0x40 mod 0x40),
         char_of (0x80 + u mod 0x40)]
      else
        [char_of (0xF0 + u div 0x40000), char_of (0x80 + u div 0x1000 mod 0x40),
         char_of (0x80 + u div 0x40 mod 0x40), char_of (0x80 + u mod 0x40)])"

text \<open>U+FFFD, which stands for what cannot be decoded.\<close>

definition replacement :: string where
  "replacement = [CHR 0xEF, CHR 0xBF, CHR 0xBD]"

lemma encode_replacement: "encode_rune 0xFFFD = replacement"
  by (simp add: encode_rune_def replacement_def char_of_eq_iff)

section \<open>Replacing what is not UTF-8\<close>

text \<open>Every byte that is part of no rune becomes U+FFFD.\<close>

definition clean_rune :: "string \<Rightarrow> string" where
  "clean_rune r = (if is_rune r then r else replacement)"

definition clean :: "string \<Rightarrow> string" where
  "clean s = concat (map clean_rune (runes s))"

lemma is_rune_replacement: "is_rune replacement"
  by (simp add: is_rune_def replacement_def rune_size.simps(2) second_byte_def cont_byte_def)

lemma is_rune_clean: "is_rune (clean_rune r)"
  by (simp add: clean_rune_def is_rune_replacement)

lemma clean_valid [simp]: "valid_utf8 s \<Longrightarrow> clean s = s"
proof -
  assume "valid_utf8 s"
  then have "map clean_rune (runes s) = runes s" by (intro map_idI) (simp add: clean_rune_def valid_utf8_runes)
  then show ?thesis by (simp add: clean_def)
qed

lemma valid_utf8_concat: "\<forall>r \<in> set rs. is_rune r \<Longrightarrow> valid_utf8 (concat rs)"
  by (induction rs) (simp_all add: valid_utf8_rune, simp add: valid_utf8_def)

lemma valid_utf8_clean [simp]: "valid_utf8 (clean s)"
  unfolding clean_def by (intro valid_utf8_concat) (auto simp: is_rune_clean)

lemma clean_id: "clean s = s \<longleftrightarrow> valid_utf8 s"
  by (metis clean_valid valid_utf8_clean)

lemma clean_Nil [simp]: "clean s = [] \<longleftrightarrow> s = []"
  by (cases s) (auto simp: clean_def runes_Cons clean_rune_def replacement_def is_rune_def split: if_splits)

end
