(* ===== verification/JsonText.thy ===== *)
theory JsonText
  imports Utf8
begin

text \<open>
  The part of \<open>encoding/json\<close> that does not depend on the target type: string literals with
  their escapes, the grammar the scanner accepts (with its nesting limit), the split of an object
  into its keys and the raw text of its values, and the compaction \<open>Marshal\<close> applies to a
  \<open>json.RawMessage\<close>. Texts are byte strings, as the \<open>[]byte\<close> of the Go functions.
\<close>

section \<open>Writing a string literal\<close>

definition hex_digit :: "nat \<Rightarrow> char" where
  "hex_digit n = (if n < 10 then char_of (48 + n) else char_of (87 + n))"

text \<open>\<open>appendString\<close> with \<open>escapeHTML\<close> on, as \<open>json.Marshal\<close> sets it: one ASCII byte.\<close>

definition esc_ascii :: "char \<Rightarrow> string" where
  "esc_ascii c =
     (if c = CHR 0x5C \<or> c = CHR 0x22 then [CHR 0x5C, c]
      else if byte c = 8 then [CHR 0x5C, CHR ''b'']
      else if byte c = 12 then [CHR 0x5C, CHR ''f'']
      else if byte c = 10 then [CHR 0x5C, CHR ''n'']
      else if byte c = 13 then [CHR 0x5C, CHR ''r'']
      else if byte c = 9 then [CHR 0x5C, CHR ''t'']
      else if byte c < 32 \<or> c = CHR ''<'' \<or> c = CHR ''>'' \<or> c = CHR ''&'' then
        [CHR 0x5C, CHR ''u'', CHR ''0'', CHR ''0'', hex_digit (byte c div 16), hex_digit (byte c mod 16)]
      else [c])"

text \<open>
  One chunk of \<^const>\<open>runes\<close>: a byte that is no rune becomes the escape of U+FFFD, the two
  line separators U+2028 and U+2029 are escaped, any other rune is copied.
\<close>

definition enc_rune :: "string \<Rightarrow> string" where
  "enc_rune r =
     (case r of
        [c] \<Rightarrow> if byte c < 0x80 then esc_ascii c else CHR 0x5C # ''ufffd''
      | _ \<Rightarrow> if r = [CHR 0xE2, CHR 0x80, CHR 0xA8] then CHR 0x5C # ''u2028''
             else if r = [CHR 0xE2, CHR 0x80, CHR 0xA9] then CHR 0x5C # ''u2029''
             else r)"

definition enc_body :: "string \<Rightarrow> string" where
  "enc_body s = concat (map enc_rune (runes s))"

definition enc_string :: "string \<Rightarrow> string" where
  "enc_string s = CHR 0x22 # enc_body s @ [CHR 0x22]"

section \<open>Reading a string literal\<close>

definition hex_val :: "char \<Rightarrow> nat option" where
  "hex_val c =
     (if is_digit c then Some (digit_val c)
      else if 97 \<le> byte c \<and> byte c \<le> 102 then Some (byte c - 87)
      else if 65 \<le> byte c \<and> byte c \<le> 70 then Some (byte c - 55)
      else None)"

text \<open>The four hex digits after \<open>\u\<close>.\<close>

definition hex4 :: "string \<Rightarrow> (nat \<times> string) option" where
  "hex4 s =
     (case s of
        a # b # c # d # rest \<Rightarrow>
          (case (hex_val a, hex_val b, hex_val c, hex_val d) of
             (Some w, Some x, Some y, Some z) \<Rightarrow>
               Some (((w * 16 + x) * 16 + y) * 16 + z, rest)
           | _ \<Rightarrow> None)
      | _ \<Rightarrow> None)"

text \<open>
  A \<open>\u\<close> escape: a high surrogate followed by the escape of a low one is one code point, any
  other surrogate reads as U+FFFD and what follows is read on its own.
\<close>

definition dec_u :: "string \<Rightarrow> (string \<times> string) option" where
  "dec_u s =
     (case hex4 s of
        None \<Rightarrow> None
      | Some (u, rest) \<Rightarrow>
          if 0xD800 \<le> u \<and> u < 0xE000 then
            (case rest of
               b # v # rest1 \<Rightarrow>
                 (case (if b = CHR 0x5C \<and> v = CHR ''u'' then hex4 rest1 else None) of
                    Some (l, rest2) \<Rightarrow>
                      if u < 0xDC00 \<and> 0xDC00 \<le> l \<and> l < 0xE000
                      then Some (encode_rune (0x10000 + (u - 0xD800) * 0x400 + (l - 0xDC00)), rest2)
                      else Some (replacement, rest)
                  | None \<Rightarrow> Some (replacement, rest))
             | _ \<Rightarrow> Some (replacement, rest))
          else Some (encode_rune u, rest))"

text \<open>What follows a backslash; the scanner allows exactly these escapes.\<close>

definition dec_escape :: "string \<Rightarrow> (string \<times> string) option" where
  "dec_escape s =
     (case s of
        [] \<Rightarrow> None
      | e # rest \<Rightarrow>
          if e = CHR 0x22 \<or> e = CHR 0x5C \<or> e = CHR ''/'' then Some ([e], rest)
          else if e = CHR ''b'' then Some ([CHR 0x08], rest)
          else if e = CHR ''f'' then Some ([CHR 0x0C], rest)
          else if e = CHR ''n'' then Some ([CHR 0x0A], rest)
          else if e = CHR ''r'' then Some ([CHR 0x0D], rest)
          else if e = CHR ''t'' then Some ([CHR 0x09], rest)
          else if e = CHR ''u'' then dec_u rest
          else None)"

lemma hex4_shorter: "hex4 s = Some (u, r) \<Longrightarrow> length r < length s"
  by (auto simp: hex4_def split: list.splits option.splits)

lemma dec_u_shorter: "dec_u s = Some (x, r) \<Longrightarrow> length r < length s"
  by (fastforce simp: dec_u_def dest: hex4_shorter
      split: option.splits list.splits if_splits prod.splits)

lemma dec_escape_shorter: "dec_escape s = Some (x, r) \<Longrightarrow> length r < length s"
  by (auto simp: dec_escape_def dest: dec_u_shorter split: list.splits if_splits)

text \<open>
  The rest of a literal after its opening quote: the decoded bytes (\<open>unquoteBytes\<close>) and the text
  after the closing quote; \<open>None\<close> where the scanner reports a syntax error.
\<close>

function dec_body :: "string \<Rightarrow> (string \<times> string) option" where
  "dec_body [] = None"
| "dec_body (c # cs) =
     (if c = CHR 0x22 then Some ([], cs)
      else if c = CHR 0x5C then
        (case dec_escape cs of
           None \<Rightarrow> None
         | Some (x, rest) \<Rightarrow> map_option (apfst ((@) x)) (dec_body rest))
      else if byte c < 32 then None
      else if rune_size (c # cs) = 0 then map_option (apfst ((@) replacement)) (dec_body cs)
      else map_option (apfst ((@) (take (rune_size (c # cs)) (c # cs))))
             (dec_body (drop (rune_size (c # cs)) (c # cs))))"
  by pat_completeness auto
termination
  by (relation "measure length") (auto dest: dec_escape_shorter simp del: rune_size.simps)

declare dec_body.simps(2) [simp del]

section \<open>The grammar\<close>

definition is_ws :: "char \<Rightarrow> bool" where
  "is_ws c \<longleftrightarrow> byte c = 32 \<or> byte c = 9 \<or> byte c = 13 \<or> byte c = 10"

definition skip_ws :: "string \<Rightarrow> string" where
  "skip_ws = dropWhile is_ws"

definition skip_prefix :: "string \<Rightarrow> string \<Rightarrow> string option" where
  "skip_prefix p s = (if take (length p) s = p then Some (drop (length p) s) else None)"

definition skip_int :: "string \<Rightarrow> string option" where
  "skip_int s =
     (case s of
        [] \<Rightarrow> None
      | c # r \<Rightarrow>
          if c = CHR ''0'' then Some r
          else if is_digit c then Some (dropWhile is_digit r)
          else None)"

definition skip_digits1 :: "string \<Rightarrow> string option" where
  "skip_digits1 s =
     (case s of c # r \<Rightarrow> if is_digit c then Some (dropWhile is_digit r) else None | [] \<Rightarrow> None)"

definition skip_frac :: "string \<Rightarrow> string option" where
  "skip_frac s =
     (case s of c # r \<Rightarrow> if c = CHR ''.'' then skip_digits1 r else Some s | [] \<Rightarrow> Some s)"

definition skip_exp :: "string \<Rightarrow> string option" where
  "skip_exp s =
     (case s of
        c # r \<Rightarrow>
          if c = CHR ''e'' \<or> c = CHR ''E'' then
            (case r of
               g # r' \<Rightarrow> if g = CHR ''+'' \<or> g = CHR ''-'' then skip_digits1 r' else skip_digits1 r
             | [] \<Rightarrow> None)
          else Some s
      | [] \<Rightarrow> Some s)"

definition skip_number :: "string \<Rightarrow> string option" where
  "skip_number s =
     Option.bind (Option.bind
       (case s of c # r \<Rightarrow> if c = CHR ''-'' then skip_int r else skip_int s | [] \<Rightarrow> None)
       skip_frac) skip_exp"

text \<open>\<open>maxNestingDepth\<close> of the scanner.\<close>

definition max_depth :: nat where
  "max_depth = 10000"

text \<open>
  \<open>jvalue fuel d s\<close> reads one value off \<open>s\<close> (no white space before it) inside \<open>d\<close> open
  brackets and gives the text after it. The members of an object come with their decoded key and
  the raw text of their value. At most every second call reads no byte, so twice the length of
  the text is fuel enough (\<open>scan_fuel\<close> in \<^theory_text>\<open>JsonFuel\<close>), and the functions below start with more.
\<close>

fun jvalue :: "nat \<Rightarrow> nat \<Rightarrow> string \<Rightarrow> string option"
  and jmembers :: "nat \<Rightarrow> nat \<Rightarrow> string \<Rightarrow> ((string \<times> string) list \<times> string) option"
  and jelems :: "nat \<Rightarrow> nat \<Rightarrow> string \<Rightarrow> string option" where
  "jvalue 0 d s = None"
| "jvalue (Suc n) d s =
     (case s of
        [] \<Rightarrow> None
      | c # cs \<Rightarrow>
          if c = CHR 0x22 then map_option snd (dec_body cs)
          else if c = CHR 0x7B then
            (if max_depth \<le> d then None
             else (case skip_ws cs of
                     [] \<Rightarrow> None
                   | e # r \<Rightarrow>
                       if e = CHR 0x7D then Some r
                       else map_option snd (jmembers n (Suc d) (e # r))))
          else if c = CHR 0x5B then
            (if max_depth \<le> d then None
             else (case skip_ws cs of
                     [] \<Rightarrow> None
                   | e # r \<Rightarrow> if e = CHR 0x5D then Some r else jelems n (Suc d) (e # r)))
          else if c = CHR ''t'' then skip_prefix ''true'' s
          else if c = CHR ''f'' then skip_prefix ''false'' s
          else if c = CHR ''n'' then skip_prefix ''null'' s
          else skip_number s)"
| "jmembers 0 d s = None"
| "jmembers (Suc n) d s =
     (case s of
        [] \<Rightarrow> None
      | c # cs \<Rightarrow>
          if c \<noteq> CHR 0x22 then None
          else (case dec_body cs of
                  None \<Rightarrow> None
                | Some (k, r1) \<Rightarrow>
                    (case skip_ws r1 of
                       [] \<Rightarrow> None
                     | c1 # r2 \<Rightarrow>
                         if c1 \<noteq> CHR '':'' then None
                         else (case jvalue n d (skip_ws r2) of
                                 None \<Rightarrow> None
                               | Some r3 \<Rightarrow>
                                   (let v = take (length (skip_ws r2) - length r3) (skip_ws r2)
                                    in (case skip_ws r3 of
                                          [] \<Rightarrow> None
                                        | c3 # r4 \<Rightarrow>
                                            if c3 = CHR 0x7D then Some ([(k, v)], r4)
                                            else if c3 = CHR '','' then
                                              map_option (apfst ((#) (k, v)))
                                                (jmembers n d (skip_ws r4))
                                            else None))))))"
| "jelems 0 d s = None"
| "jelems (Suc n) d s =
     (case jvalue n d s of
        None \<Rightarrow> None
      | Some r1 \<Rightarrow>
          (case skip_ws r1 of
             [] \<Rightarrow> None
           | c # r2 \<Rightarrow>
               if c = CHR 0x5D then Some r2
               else if c = CHR '','' then jelems n d (skip_ws r2)
               else None))"

section \<open>Whole texts\<close>

text \<open>
  A text is one value with white space around it (\<open>checkValid\<close>). What \<open>Unmarshal\<close> needs of it
  when the target is a struct: the members of an object, or that it is \<open>null\<close>, or that it is a
  value of another kind.
\<close>

datatype jdoc = JObject "(string \<times> string) list" | JNull | JOther

definition json_doc :: "string \<Rightarrow> jdoc option" where
  "json_doc t =
     (let s = skip_ws t; n = Suc (Suc (2 * length s))
      in (case jvalue n 0 s of
            None \<Rightarrow> None
          | Some r \<Rightarrow>
              if skip_ws r \<noteq> [] then None
              else (case s of
                      [] \<Rightarrow> None
                    | c # cs \<Rightarrow>
                        if c = CHR ''n'' then Some JNull
                        else if c = CHR 0x7B then
                          (case skip_ws cs of
                             e # r' \<Rightarrow>
                               if e = CHR 0x7D then Some (JObject [])
                               else map_option (JObject \<circ> fst) (jmembers n 1 (e # r'))
                           | [] \<Rightarrow> None)
                        else Some JOther)))"

definition json_valid :: "string \<Rightarrow> bool" where
  "json_valid t \<longleftrightarrow> json_doc t \<noteq> None"

text \<open>
  \<open>appendCompact\<close> with \<open>escape\<close> on, for a text the scanner accepts: white space between tokens
  goes, and \<open><\<close>, \<open>>\<close>, \<open>&\<close> and the two line separators are escaped. The two flags say whether
  the byte is inside a literal and whether a backslash stands before it.
\<close>

function compact_loop :: "bool \<Rightarrow> bool \<Rightarrow> string \<Rightarrow> string" where
  "compact_loop q b [] = []"
| "compact_loop q b (c # cs) =
     (let out =
        (if c = CHR ''<'' \<or> c = CHR ''>'' \<or> c = CHR ''&'' then
           [CHR 0x5C, CHR ''u'', CHR ''0'', CHR ''0'', hex_digit (byte c div 16), hex_digit (byte c mod 16)]
         else [c])
      in if take 3 (c # cs) = [CHR 0xE2, CHR 0x80, CHR 0xA8] then
           CHR 0x5C # ''u2028'' @ compact_loop q False (drop 2 cs)
         else if take 3 (c # cs) = [CHR 0xE2, CHR 0x80, CHR 0xA9] then
           CHR 0x5C # ''u2029'' @ compact_loop q False (drop 2 cs)
         else if q then
           out @ compact_loop (b \<or> c \<noteq> CHR 0x22) (\<not> b \<and> c = CHR 0x5C) cs
         else if is_ws c then compact_loop False False cs
         else out @ compact_loop (c = CHR 0x22) False cs)"
  by pat_completeness auto
termination
  by (relation "measure (\<lambda>(q, b, s). length s)") auto

declare compact_loop.simps(2) [simp del]

definition compact :: "string \<Rightarrow> string option" where
  "compact t = (if json_valid t then Some (compact_loop False False t) else None)"

end
