(* ===== verification/JsonLemmas.thy ===== *)
theory JsonLemmas
  imports JsonText
begin

text \<open>
  Reading back what \<^theory_text>\<open>JsonText\<close> writes: string literals, numbers, and objects whose
  values are such texts. \<open>jtext\<close> says that a text is one value for the scanner, whatever
  follows it; it is closed under the object syntax, so the nested texts of the protocol (an
  envelope with a payload inside) are covered by the same lemmas.
\<close>

section \<open>String literals\<close>

lemma hex_val_digit: "n < 16 \<Longrightarrow> hex_val (hex_digit n) = Some n"
  by (auto simp: hex_val_def hex_digit_def is_digit_def digit_val_def)

lemma char_of_lits:
  "char_of (8 :: nat) = CHR 0x08" "char_of (9 :: nat) = CHR 0x09" "char_of (10 :: nat) = CHR 0x0A"
  "char_of (12 :: nat) = CHR 0x0C" "char_of (13 :: nat) = CHR 0x0D"
  "char_of (128 :: nat) = CHR 0x80" "char_of (168 :: nat) = CHR 0xA8"
  "char_of (169 :: nat) = CHR 0xA9" "char_of (226 :: nat) = CHR 0xE2"
  using char_of_char [of "CHR 0x08", where ?'a = nat] char_of_char [of "CHR 0x09", where ?'a = nat]
    char_of_char [of "CHR 0x0A", where ?'a = nat] char_of_char [of "CHR 0x0C", where ?'a = nat]
    char_of_char [of "CHR 0x0D", where ?'a = nat] char_of_char [of "CHR 0x80", where ?'a = nat]
    char_of_char [of "CHR 0xA8", where ?'a = nat] char_of_char [of "CHR 0xA9", where ?'a = nat]
    char_of_char [of "CHR 0xE2", where ?'a = nat]
  by simp_all

lemma append_single_fun [simp]: "(@) [c] = (#) c"
  by (simp add: fun_eq_iff)

lemma hex4_low:
  "n < 256 \<Longrightarrow>
   hex4 (CHR ''0'' # CHR ''0'' # hex_digit (n div 16) # hex_digit (n mod 16) # t) = Some (n, t)"
proof -
  assume "n < 256"
  then have "hex_val (hex_digit (n div 16)) = Some (n div 16)"
    "hex_val (hex_digit (n mod 16)) = Some (n mod 16)"
    by (simp_all add: hex_val_digit)
  moreover have "hex_val (CHR ''0'') = Some 0"
    by (simp add: hex_val_def is_digit_def digit_val_def)
  ultimately show ?thesis by (simp add: hex4_def)
qed

lemma dec_escape_low:
  "byte c < 128 \<Longrightarrow>
   dec_escape (CHR ''u'' # CHR ''0'' # CHR ''0'' # hex_digit (byte c div 16) # hex_digit (byte c mod 16) # t)
     = Some ([c], t)"
  by (simp add: dec_escape_def dec_u_def hex4_low encode_rune_def)

lemma dec_body_escape:
  "dec_escape s = Some (x, t) \<Longrightarrow> dec_body (CHR 0x5C # s) = map_option (apfst ((@) x)) (dec_body t)"
  by (simp add: dec_body.simps(2))

lemma dec_body_ascii:
  assumes "byte c < 0x80" and "32 \<le> byte c" and "c \<noteq> CHR 0x22" and "c \<noteq> CHR 0x5C"
  shows "dec_body (c # t) = map_option (apfst ((#) c)) (dec_body t)"
proof -
  have "rune_size (c # t) = 1"
    using assms(1) by (simp add: rune_size.simps(2))
  with assms show ?thesis
    by (simp add: dec_body.simps(2) [of c t])
qed

lemma esc_ascii_decoded:
  assumes "byte c < 0x80"
  shows "dec_body (esc_ascii c @ t) = map_option (apfst ((#) c)) (dec_body t)"
proof -
  have low: "c = CHR 0x08 \<Longrightarrow> ?thesis" "c = CHR 0x0C \<Longrightarrow> ?thesis" "c = CHR 0x0A \<Longrightarrow> ?thesis"
    "c = CHR 0x0D \<Longrightarrow> ?thesis" "c = CHR 0x09 \<Longrightarrow> ?thesis"
    "c = CHR 0x22 \<Longrightarrow> ?thesis" "c = CHR 0x5C \<Longrightarrow> ?thesis"
    by (simp_all add: esc_ascii_def dec_body_escape dec_escape_def)
  have is_c: "byte c = n \<Longrightarrow> c = char_of n" for n
    by (metis char_of_char)
  show ?thesis
  proof (cases "c \<in> {CHR 0x08, CHR 0x0C, CHR 0x0A, CHR 0x0D, CHR 0x09, CHR 0x22, CHR 0x5C}")
    case True
    with low show ?thesis by blast
  next
    case False
    then have ne: "byte c \<noteq> 8" "byte c \<noteq> 12" "byte c \<noteq> 10" "byte c \<noteq> 13" "byte c \<noteq> 9"
      "c \<noteq> CHR 0x22" "c \<noteq> CHR 0x5C"
      by (auto dest!: is_c simp: char_of_lits)
    show ?thesis
    proof (cases "byte c < 32 \<or> c = CHR ''<'' \<or> c = CHR ''>'' \<or> c = CHR ''&''")
      case True
      then show ?thesis
        using ne assms
        by (simp add: esc_ascii_def dec_body_escape [OF dec_escape_low [OF assms]])
    next
      case False
      then show ?thesis
        using ne assms by (simp add: esc_ascii_def dec_body_ascii)
    qed
  qed
qed

lemma is_rune_multi:
  assumes "is_rune (c # c' # cs)"
  shows "0xC2 \<le> byte c"
  using assms by (auto simp: is_rune_def rune_size.simps(2) split: if_splits)

lemma enc_rune_decoded:
  assumes "is_rune r"
  shows "dec_body (enc_rune r @ t) = map_option (apfst ((@) r)) (dec_body t)"
proof -
  consider c where "r = [c]" | c c' cs where "r = c # c' # cs"
    using assms by (cases r rule: remdups_adj.cases) (auto simp: is_rune_def)
  then show ?thesis
  proof cases
    case 1
    with assms have "byte c < 0x80"
      by (auto simp: is_rune_def rune_size.simps(2) split: if_splits)
    then show ?thesis
      using esc_ascii_decoded [of c t] 1 by (simp add: enc_rune_def)
  next
    case 2
    have sep: "r = [CHR 0xE2, CHR 0x80, CHR 0xA8] \<Longrightarrow> ?thesis"
      "r = [CHR 0xE2, CHR 0x80, CHR 0xA9] \<Longrightarrow> ?thesis"
      by (simp_all add: enc_rune_def dec_body_escape dec_escape_def dec_u_def hex4_def hex_val_def
          is_digit_def digit_val_def encode_rune_def char_of_lits)
    have size: "rune_size (r @ t) = length r"
      using assms by (rule is_rune_append)
    have "0xC2 \<le> byte c"
      using assms 2 is_rune_multi by blast
    then have "c \<noteq> CHR 0x22" "c \<noteq> CHR 0x5C" "\<not> byte c < 32" by auto
    with 2 size have plain: "dec_body (r @ t) = map_option (apfst ((@) r)) (dec_body t)"
      by (simp add: dec_body.simps(2) [of c "c' # cs @ t"])
    show ?thesis
    proof (cases "r = [CHR 0xE2, CHR 0x80, CHR 0xA8] \<or> r = [CHR 0xE2, CHR 0x80, CHR 0xA9]")
      case True
      with sep show ?thesis by blast
    next
      case False
      with 2 have "enc_rune r = r" by (auto simp: enc_rune_def)
      with plain show ?thesis by simp
    qed
  qed
qed

lemma enc_byte_decoded:
  assumes "0x80 \<le> byte c"
  shows "dec_body (enc_rune [c] @ t) = map_option (apfst ((@) replacement)) (dec_body t)"
proof -
  have "dec_escape (''ufffd'' @ t) = Some (replacement, t)"
    by (simp add: dec_escape_def dec_u_def hex4_def hex_val_def is_digit_def flip: encode_replacement)
  from dec_body_escape [OF this] show ?thesis using assms by (simp add: enc_rune_def)
qed

lemma enc_chunk_decoded:
  assumes "r \<in> set (runes s)"
  shows "dec_body (enc_rune r @ t) = map_option (apfst ((@) (clean_rune r))) (dec_body t)"
proof (cases "is_rune r")
  case True
  then show ?thesis by (simp add: enc_rune_decoded clean_rune_def)
next
  case False
  then obtain c where "r = [c]" "0x80 \<le> byte c" using runes_chunks [OF assms] by blast
  then show ?thesis using enc_byte_decoded False by (simp add: clean_rune_def)
qed

text \<open>Any string is read back as itself with what is not UTF-8 replaced.\<close>

lemma dec_body_enc_body: "dec_body (enc_body s @ CHR 0x22 # t) = Some (clean s, t)"
proof -
  have "dec_body (concat (map enc_rune rs) @ CHR 0x22 # t) = Some (concat (map clean_rune rs), t)"
    if "set rs \<subseteq> set (runes s)" for rs
    using that by (induction rs) (simp_all add: dec_body.simps(2) enc_chunk_decoded [where s = s])
  then show ?thesis by (simp add: enc_body_def clean_def)
qed

section \<open>Texts of one value\<close>

text \<open>What may stand after a value inside an object, an array or at the end of a text.\<close>

definition follows :: "string \<Rightarrow> bool" where
  "follows t \<longleftrightarrow>
     (case t of [] \<Rightarrow> True
      | c # _ \<Rightarrow> c = CHR '','' \<or> c = CHR 0x7D \<or> c = CHR 0x5D \<or> is_ws c)"

lemma follows_simps [simp]:
  "follows []" "follows (CHR '','' # t)" "follows (CHR 0x7D # t)" "follows (CHR 0x5D # t)"
  by (simp_all add: follows_def)

definition jtext :: "nat \<Rightarrow> nat \<Rightarrow> string \<Rightarrow> bool" where
  "jtext k h v \<longleftrightarrow>
     v \<noteq> [] \<and> \<not> is_ws (hd v) \<and>
     (\<forall>n d t. k \<le> n \<longrightarrow> d + h \<le> max_depth \<longrightarrow> follows t \<longrightarrow> jvalue n d (v @ t) = Some t)"

lemma jtext_read:
  "jtext k h v \<Longrightarrow> k \<le> n \<Longrightarrow> d + h \<le> max_depth \<Longrightarrow> follows t \<Longrightarrow> jvalue n d (v @ t) = Some t"
  by (simp add: jtext_def)

lemma jtext_skip_ws: "jtext k h v \<Longrightarrow> skip_ws (v @ t) = v @ t"
  by (cases v) (simp_all add: jtext_def skip_ws_def)

lemma jtext_mono: "jtext k h v \<Longrightarrow> k \<le> k' \<Longrightarrow> h \<le> h' \<Longrightarrow> jtext k' h' v"
  by (auto simp: jtext_def)

lemma skip_ws_nonws [simp]: "\<not> is_ws c \<Longrightarrow> skip_ws (c # t) = c # t"
  by (simp add: skip_ws_def)

lemma is_ws_punct [simp]:
  "\<not> is_ws (CHR 0x22)" "\<not> is_ws (CHR 0x7B)" "\<not> is_ws (CHR 0x7D)" "\<not> is_ws (CHR '','')"
  "\<not> is_ws (CHR '':'')" "\<not> is_ws (CHR ''-'')" "\<not> is_ws (CHR ''n'')"
  by (simp_all add: is_ws_def)

lemma jvalue_string:
  "0 < n \<Longrightarrow> jvalue n d (enc_string s @ t) = Some t"
  by (cases n) (simp_all add: enc_string_def dec_body_enc_body)

lemma jtext_string: "jtext 1 0 (enc_string s)"
  using jvalue_string by (auto simp: jtext_def enc_string_def)

subsection \<open>Numbers\<close>

lemma follows_not_number:
  "follows t \<Longrightarrow> dropWhile is_digit t = t \<and> skip_frac t = Some t \<and> skip_exp t = Some t"
  by (cases t) (auto simp: follows_def skip_frac_def skip_exp_def is_digit_def is_ws_def)

lemma dropWhile_digits:
  "\<forall>c \<in> set s. is_digit c \<Longrightarrow> dropWhile is_digit (s @ t) = dropWhile is_digit t"
  by (induction s) auto

lemma show_nat_zero: "show_nat n = CHR ''0'' # cs \<Longrightarrow> n = 0 \<and> cs = []"
proof (induction n arbitrary: cs rule: show_nat.induct)
  case (1 n)
  show ?case
  proof (cases "n < 10")
    case True
    with 1(2) have "digit_char n = CHR ''0''" "cs = []"
      by (simp_all add: show_nat.simps [of n])
    then have "digit_val (digit_char n) = 0"
      by (simp add: digit_val_def)
    with True \<open>cs = []\<close> show ?thesis by simp
  next
    case False
    then obtain ds where "show_nat (n div 10) = CHR ''0'' # ds"
      using 1(2) show_nat_hd [of "n div 10"] by (auto simp: show_nat.simps [of n])
    with 1(1) False have "n div 10 = 0" by blast
    with False show ?thesis by simp
  qed
qed

lemma skip_int_show: "follows t \<Longrightarrow> skip_int (show_nat n @ t) = Some t"
proof -
  assume t: "follows t"
  obtain c cs where s: "show_nat n = c # cs" and "is_digit c"
    using show_nat_hd by blast
  moreover have "\<forall>d \<in> set cs. is_digit d"
    using show_nat_digits [of n] s by simp
  ultimately show ?thesis
    using t show_nat_zero [of n cs] follows_not_number [of t]
    by (auto simp: skip_int_def dropWhile_digits)
qed

lemma skip_number_show:
  "follows t \<Longrightarrow> skip_number (show_nat n @ t) = Some t"
  "follows t \<Longrightarrow> skip_number (CHR ''-'' # show_nat n @ t) = Some t"
  using show_nat_hd [of n] skip_int_show [of t n] follows_not_number [of t]
  by (auto simp: skip_number_def)

lemma digit_cases: "is_digit c \<Longrightarrow> c \<noteq> CHR 0x22 \<and> c \<noteq> CHR 0x7B \<and> c \<noteq> CHR 0x5B \<and>
    c \<noteq> CHR ''t'' \<and> c \<noteq> CHR ''f'' \<and> c \<noteq> CHR ''n'' \<and> c \<noteq> CHR ''-'' \<and> \<not> is_ws c \<and> c \<noteq> CHR 0x5C"
  by (auto simp: is_digit_def is_ws_def)

lemma jtext_nat: "jtext 1 0 (show_nat m)"
proof -
  obtain c cs where s: "show_nat m = c # cs" and c: "is_digit c"
    using show_nat_hd by blast
  have "jvalue n d (show_nat m @ t) = Some t" if "1 \<le> n" and "follows t" for n d t
    using that s digit_cases [OF c] skip_number_show(1) [of t m] by (cases n) simp_all
  with s digit_cases [OF c] show ?thesis by (simp add: jtext_def)
qed

lemma jtext_int: "jtext 1 0 (show_int i)"
proof (cases "i < 0")
  case True
  have "jvalue n d (show_int i @ t) = Some t" if "1 \<le> n" and "follows t" for n d t
    using that True skip_number_show(2) [of t "nat (- i)"]
    by (cases n) (simp_all add: show_int_def)
  with True show ?thesis by (simp add: jtext_def show_int_def)
next
  case False
  then show ?thesis using jtext_nat [of "nat i"] by (simp add: show_int_def)
qed

lemma jtext_null: "jtext 1 0 ''null''"
proof -
  have "jvalue n d (''null'' @ t) = Some t" if "1 \<le> n" for n d t
    using that by (cases n) (simp_all add: skip_prefix_def)
  then show ?thesis by (simp add: jtext_def is_ws_def)
qed

subsection \<open>Objects\<close>

text \<open>The text of an object: its members' names and the texts of their values.\<close>

definition member_text :: "string \<times> string \<Rightarrow> string" where
  "member_text m = enc_string (fst m) @ CHR '':'' # snd m"

fun members_text :: "(string \<times> string) list \<Rightarrow> string" where
  "members_text [] = []"
| "members_text [m] = member_text m"
| "members_text (m # m' # ms) = member_text m @ CHR '','' # members_text (m' # ms)"

definition object_text :: "(string \<times> string) list \<Rightarrow> string" where
  "object_text ms = CHR 0x7B # members_text ms @ [CHR 0x7D]"

definition members_ok :: "nat \<Rightarrow> nat \<Rightarrow> (string \<times> string) list \<Rightarrow> bool" where
  "members_ok k h ms \<longleftrightarrow> (\<forall>m \<in> set ms. valid_utf8 (fst m) \<and> jtext k h (snd m))"

lemma members_ok_Cons [simp]:
  "members_ok k h [] "
  "members_ok k h (m # ms) \<longleftrightarrow> valid_utf8 (fst m) \<and> jtext k h (snd m) \<and> members_ok k h ms"
  by (auto simp: members_ok_def)

lemma members_text_quote: "ms \<noteq> [] \<Longrightarrow> \<exists>s. members_text ms = CHR 0x22 # s"
  by (cases ms rule: members_text.cases) (auto simp: member_text_def enc_string_def)

lemma jmembers_member:
  assumes "valid_utf8 (fst m)" and "jtext k h (snd m)" and "k \<le> n" and "d + h \<le> max_depth"
    and "c = CHR 0x7D \<or> c = CHR '',''"
  shows "jmembers (Suc n) d (member_text m @ c # t) =
    (if c = CHR 0x7D then Some ([m], t)
     else map_option (apfst ((#) m)) (jmembers n d (skip_ws t)))"
proof -
  have "follows (c # t)" using assms(5) by auto
  then have read: "jvalue n d (snd m @ c # t) = Some (c # t)"
    using assms by (auto intro: jtext_read)
  have ws: "skip_ws (snd m @ c # t) = snd m @ c # t"
    using assms(2) by (rule jtext_skip_ws)
  have "\<not> is_ws c" using assms(5) by auto
  with assms read ws show ?thesis
    by (auto simp: member_text_def enc_string_def dec_body_enc_body)
qed

lemma jmembers_last:
  "valid_utf8 (fst m) \<Longrightarrow> jtext k h (snd m) \<Longrightarrow> k \<le> n \<Longrightarrow> d + h \<le> max_depth \<Longrightarrow>
   jmembers (Suc n) d (member_text m @ CHR 0x7D # t) = Some ([m], t)"
  using jmembers_member [of m k h n d "CHR 0x7D" t] by simp

lemma jmembers_more:
  "valid_utf8 (fst m) \<Longrightarrow> jtext k h (snd m) \<Longrightarrow> k \<le> n \<Longrightarrow> d + h \<le> max_depth \<Longrightarrow>
   jmembers (Suc n) d (member_text m @ CHR '','' # t) =
     map_option (apfst ((#) m)) (jmembers n d (skip_ws t))"
  using jmembers_member [of m k h n d "CHR '',''" t] by simp

lemma jmembers_text:
  "ms \<noteq> [] \<Longrightarrow> members_ok k h ms \<Longrightarrow> k + length ms \<le> n \<Longrightarrow> d + h \<le> max_depth \<Longrightarrow>
   jmembers n d (members_text ms @ CHR 0x7D # t) = Some (ms, t)"
proof (induction ms arbitrary: n rule: members_text.induct)
  case 1
  then show ?case by simp
next
  case (2 m)
  then obtain n' where n: "n = Suc n'" by (cases n) auto
  with 2 show ?case
    using jmembers_last [of m k h n' d t] by (simp del: jmembers.simps)
next
  case (3 m m' ms)
  then obtain n' where n: "n = Suc n'" by (cases n) auto
  obtain s where s: "members_text (m' # ms) = CHR 0x22 # s"
    using members_text_quote by blast
  have "jmembers n' d (members_text (m' # ms) @ CHR 0x7D # t) = Some (m' # ms, t)"
    using 3 n by simp
  with s have "jmembers n' d (skip_ws (members_text (m' # ms) @ CHR 0x7D # t)) = Some (m' # ms, t)"
    by simp
  with 3 n show ?case
    using jmembers_more [of m k h n' d "members_text (m' # ms) @ CHR 0x7D # t"]
    by (simp del: jmembers.simps)
qed

lemma jvalue_object:
  assumes "members_ok k h ms" and "k + length ms < n" and "d + h < max_depth"
  shows "jvalue n d (object_text ms @ t) = Some t"
proof (cases "ms = []")
  case True
  with assms show ?thesis by (cases n) (simp_all add: object_text_def)
next
  case False
  then obtain s where s: "members_text ms = CHR 0x22 # s"
    using members_text_quote by blast
  obtain n' where n: "n = Suc n'" using assms by (cases n) auto
  have "jmembers n' (Suc d) (members_text ms @ CHR 0x7D # t) = Some (ms, t)"
    using assms False n by (auto intro: jmembers_text)
  with s n assms show ?thesis by (simp add: object_text_def)
qed

lemma jtext_object: "members_ok k h ms \<Longrightarrow> jtext (Suc (k + length ms)) (Suc h) (object_text ms)"
  using jvalue_object [of k h ms] by (auto simp: jtext_def object_text_def)

text \<open>White space may follow the object, as \<open>Encoder.Encode\<close> writes a line feed after a value.\<close>

lemma json_doc_object_tail:
  assumes "members_ok k h ms" and "k + length ms \<le> length (object_text ms)" and "h < max_depth"
    and "skip_ws w = []"
  shows "json_doc (object_text ms @ w) = Some (JObject ms)"
proof -
  let ?s = "object_text ms @ w"
  have ws: "skip_ws ?s = ?s" by (simp add: object_text_def)
  have value_read: "jvalue (Suc (Suc (2 * length ?s))) 0 ?s = Some w"
    using jvalue_object [of k h ms "Suc (Suc (2 * length ?s))" 0 w] assms by simp
  show ?thesis
  proof (cases "ms = []")
    case True
    from value_read assms(4) show ?thesis
      unfolding json_doc_def Let_def ws
      by (simp add: object_text_def True skip_ws_def del: jvalue.simps jmembers.simps)
  next
    case False
    then obtain s where s: "members_text ms = CHR 0x22 # s"
      using members_text_quote by blast
    have "jmembers (Suc (Suc (2 * length ?s))) 1 (members_text ms @ CHR 0x7D # w) = Some (ms, w)"
      using jmembers_text [of ms k h "Suc (Suc (2 * length ?s))" 1 w] assms False by simp
    with value_read s assms(4) show ?thesis
      unfolding json_doc_def Let_def ws
      by (simp add: object_text_def skip_ws_def del: jvalue.simps jmembers.simps)
  qed
qed

lemma json_doc_object:
  "members_ok k h ms \<Longrightarrow> k + length ms \<le> length (object_text ms) \<Longrightarrow> h < max_depth \<Longrightarrow>
   json_doc (object_text ms) = Some (JObject ms)"
  using json_doc_object_tail [of k h ms "[]"] by (simp add: skip_ws_def)

lemma json_doc_nonnull_object:
  "json_doc (object_text ms) \<noteq> Some JNull"
  by (auto simp: json_doc_def object_text_def Let_def split: option.splits if_splits list.splits)

section \<open>Compaction leaves written texts alone\<close>

text \<open>
  A \<open>json.RawMessage\<close> is compacted when the envelope is marshalled. The payloads the server
  itself writes are already compact: \<open>stable v\<close> says so of a text, in any context.
\<close>

definition stable :: "string \<Rightarrow> bool" where
  "stable v \<longleftrightarrow> (\<forall>t. compact_loop False False (v @ t) = v @ compact_loop False False t)"

lemma stable_append: "stable u \<Longrightarrow> stable v \<Longrightarrow> stable (u @ v)"
  by (simp add: stable_def)

lemma stable_Nil: "stable []"
  by (simp add: stable_def)

lemma plain_byte:
  "c \<noteq> CHR ''<'' \<Longrightarrow> c \<noteq> CHR ''>'' \<Longrightarrow> c \<noteq> CHR ''&'' \<Longrightarrow> c \<noteq> CHR 0xE2 \<Longrightarrow>
   compact_loop q b (c # t) =
     (if q then c # compact_loop (b \<or> c \<noteq> CHR 0x22) (\<not> b \<and> c = CHR 0x5C) t
      else if is_ws c then compact_loop False False t
      else c # compact_loop (c = CHR 0x22) False t)"
  by (simp add: compact_loop.simps(2) [of q b c t])

lemma stable_char:
  "c \<noteq> CHR ''<'' \<Longrightarrow> c \<noteq> CHR ''>'' \<Longrightarrow> c \<noteq> CHR ''&'' \<Longrightarrow> c \<noteq> CHR 0xE2 \<Longrightarrow> c \<noteq> CHR 0x22 \<Longrightarrow>
   \<not> is_ws c \<Longrightarrow> stable [c]"
  by (simp add: stable_def plain_byte)

lemma stable_chars: "(\<And>c. c \<in> set s \<Longrightarrow> stable [c]) \<Longrightarrow> stable s"
proof (induction s)
  case Nil
  show ?case by (rule stable_Nil)
next
  case (Cons c s)
  then have "stable ([c] @ s)" by (intro stable_append) auto
  then show ?case by simp
qed

lemma stable_digits: "\<forall>c \<in> set s. is_digit c \<Longrightarrow> stable s"
proof (rule stable_chars)
  fix c
  assume "\<forall>c \<in> set s. is_digit c" and "c \<in> set s"
  then have "is_digit c" by simp
  then have "c \<noteq> CHR ''<''" "c \<noteq> CHR ''>''" "c \<noteq> CHR ''&''" "c \<noteq> CHR 0xE2" "c \<noteq> CHR 0x22"
    by (auto simp: is_digit_def)
  moreover have "\<not> is_ws c"
    using digit_cases \<open>is_digit c\<close> by blast
  ultimately show "stable [c]" by (rule stable_char)
qed

lemma stable_nat: "stable (show_nat n)"
  by (rule stable_digits) (rule show_nat_digits)

lemma stable_int: "stable (show_int i)"
  using stable_append [OF stable_char [of "CHR ''-''"] stable_nat] stable_nat
  by (simp add: show_int_def is_ws_def)

lemma hex_digit_plain:
  "n < 16 \<Longrightarrow> hex_digit n \<noteq> CHR ''<'' \<and> hex_digit n \<noteq> CHR ''>'' \<and> hex_digit n \<noteq> CHR ''&'' \<and>
   hex_digit n \<noteq> CHR 0xE2 \<and> hex_digit n \<noteq> CHR 0x22 \<and> hex_digit n \<noteq> CHR 0x5C"
proof -
  assume "n < 16"
  then have "48 \<le> byte (hex_digit n) \<and> byte (hex_digit n) \<le> 57 \<or>
    97 \<le> byte (hex_digit n) \<and> byte (hex_digit n) \<le> 102"
    by (auto simp: hex_digit_def)
  then show ?thesis by auto
qed

lemma compact_esc_ascii:
  assumes "byte c < 0x80"
  shows "compact_loop True False (esc_ascii c @ t) = esc_ascii c @ compact_loop True False t"
proof -
  have "c \<noteq> CHR 0xE2" using assms by auto
  moreover have "byte c div 16 < 16" "byte c mod 16 < 16" using assms by auto
  ultimately show ?thesis
    by (auto simp: esc_ascii_def plain_byte hex_digit_plain)
qed

lemma compact_high:
  "0x80 \<le> byte c \<Longrightarrow> c \<noteq> CHR 0xE2 \<Longrightarrow> compact_loop True False (c # t) = c # compact_loop True False t"
proof -
  assume c: "0x80 \<le> byte c" "c \<noteq> CHR 0xE2"
  then have "c \<noteq> CHR ''<''" "c \<noteq> CHR ''>''" "c \<noteq> CHR ''&''" "c \<noteq> CHR 0x22" "c \<noteq> CHR 0x5C"
    by auto
  with c show ?thesis by (simp add: plain_byte)
qed

lemma compact_enc_rune:
  assumes "is_rune r"
  shows "compact_loop True False (enc_rune r @ t) = enc_rune r @ compact_loop True False t"
proof -
  have u: "compact_loop True False (CHR 0x5C # ''u2028'' @ t) = CHR 0x5C # ''u2028'' @ compact_loop True False t"
    "compact_loop True False (CHR 0x5C # ''u2029'' @ t) = CHR 0x5C # ''u2029'' @ compact_loop True False t"
    by (simp_all add: plain_byte)
  consider c where "r = [c]" | b c where "r = [b, c]" | b c d where "r = [b, c, d]"
    | b c d e cs where "r = b # c # d # e # cs"
    using assms by (metis is_rune_def neq_Nil_conv)
  then show ?thesis
  proof cases
    case 1
    with assms have "byte c < 0x80"
      by (auto simp: is_rune_def rune_size.simps(2) split: if_splits)
    with 1 compact_esc_ascii show ?thesis by (simp add: enc_rune_def)
  next
    case 2
    with assms have "0xC2 \<le> byte b" "byte b < 0xE0" "0x80 \<le> byte c" "byte c \<le> 0xBF"
      by (auto simp: is_rune_def rune_size.simps(2) second_byte_def split: if_splits)
    then have "b \<noteq> CHR 0xE2" "c \<noteq> CHR 0xE2" by auto
    with 2 \<open>0xC2 \<le> byte b\<close> \<open>0x80 \<le> byte c\<close> show ?thesis
      by (simp add: enc_rune_def compact_high)
  next
    case 3
    with assms have bs: "0xE0 \<le> byte b" "0x80 \<le> byte c" "byte c \<le> 0xBF" "0x80 \<le> byte d" "byte d \<le> 0xBF"
      by (auto simp: is_rune_def rune_size.simps(2) second_byte_def cont_byte_def split: if_splits)
    then have ne: "c \<noteq> CHR 0xE2" "d \<noteq> CHR 0xE2" "b \<noteq> CHR ''<''" "b \<noteq> CHR ''>''" "b \<noteq> CHR ''&''"
      "b \<noteq> CHR 0x22" "b \<noteq> CHR 0x5C"
      by auto
    show ?thesis
    proof (cases "r = [CHR 0xE2, CHR 0x80, CHR 0xA8] \<or> r = [CHR 0xE2, CHR 0x80, CHR 0xA9]")
      case True
      then show ?thesis using u by (auto simp: enc_rune_def)
    next
      case False
      with 3 have "enc_rune r = r" by (auto simp: enc_rune_def)
      moreover have "compact_loop True False (r @ t) = b # compact_loop True False (c # d # t)"
        using False 3 ne by (auto simp: compact_loop.simps(2) [of True False b])
      ultimately show ?thesis using 3 bs ne by (simp add: compact_high)
    qed
  next
    case 4
    with assms have bs: "0xF0 \<le> byte b" "0x80 \<le> byte c" "byte c \<le> 0xBF" "0x80 \<le> byte d"
      "byte d \<le> 0xBF" "0x80 \<le> byte e" "byte e \<le> 0xBF" "cs = []"
      by (auto simp: is_rune_def rune_size.simps(2) second_byte_def cont_byte_def split: if_splits list.splits)
    then have "b \<noteq> CHR 0xE2" "c \<noteq> CHR 0xE2" "d \<noteq> CHR 0xE2" "e \<noteq> CHR 0xE2" by auto
    with 4 bs show ?thesis by (simp add: enc_rune_def compact_high)
  qed
qed

lemma compact_enc_chunk:
  assumes "r \<in> set (runes s)"
  shows "compact_loop True False (enc_rune r @ t) = enc_rune r @ compact_loop True False t"
proof (cases "is_rune r")
  case False
  then obtain c where "r = [c]" "0x80 \<le> byte c" using runes_chunks [OF assms] by blast
  then show ?thesis by (simp add: enc_rune_def plain_byte)
qed (rule compact_enc_rune)

lemma stable_string: "stable (enc_string s)"
proof -
  have "compact_loop True False (concat (map enc_rune rs) @ t) = concat (map enc_rune rs) @ compact_loop True False t"
    if "set rs \<subseteq> set (runes s)" for rs t
    using that by (induction rs) (simp_all add: compact_enc_chunk [where s = s])
  then show ?thesis by (simp add: stable_def enc_string_def enc_body_def plain_byte)
qed

lemma stable_member:
  "valid_utf8 (fst m) \<Longrightarrow> stable (snd m) \<Longrightarrow> stable (member_text m)"
proof -
  assume "valid_utf8 (fst m)" "stable (snd m)"
  then have "stable (enc_string (fst m) @ [CHR '':''] @ snd m)"
    by (intro stable_append stable_string stable_char) (auto simp: is_ws_def)
  then show ?thesis by (simp add: member_text_def)
qed

lemma stable_object:
  assumes "\<forall>m \<in> set ms. valid_utf8 (fst m) \<and> stable (snd m)"
  shows "stable (object_text ms)"
proof -
  have "stable (members_text ms)"
    using assms
  proof (induction ms rule: members_text.induct)
    case 1
    show ?case by (simp add: stable_Nil)
  next
    case (2 m)
    then show ?case by (simp add: stable_member)
  next
    case (3 m m' ms)
    then have "stable (member_text m @ [CHR '',''] @ members_text (m' # ms))"
      by (intro stable_append stable_member stable_char) (auto simp: is_ws_def)
    then show ?case by simp
  qed
  then have "stable ([CHR 0x7B] @ members_text ms @ [CHR 0x7D])"
    by (intro stable_append stable_char) (auto simp: is_ws_def)
  then show ?thesis by (simp add: object_text_def)
qed

lemma compact_stable: "json_valid v \<Longrightarrow> stable v \<Longrightarrow> compact v = Some v"
  unfolding compact_def stable_def by (metis append_Nil2 compact_loop.simps(1))

end
