(* ===== verification/GoTime.thy ===== *)
theory GoTime
  imports JsonLemmas
begin

text \<open>
  \<open>time.Time\<close> as the program uses it: the wall clock reading a time shows in its zone, with the
  zone's offset in minutes. \<open>MarshalJSON\<close> writes RFC 3339 with the nanoseconds that are not zero
  at the end, \<open>UnmarshalJSON\<close> reads what \<open>Parse(RFC3339, _)\<close> accepts, which is more lenient:
  an hour of one digit, a comma before the fraction, a zone of up to 24:60.
\<close>

record gotime =
  t_year :: nat
  t_month :: nat
  t_day :: nat
  t_hour :: nat
  t_min :: nat
  t_sec :: nat
  t_nsec :: nat
  t_off :: int

section \<open>The calendar\<close>

definition leap :: "nat \<Rightarrow> bool" where
  "leap y \<longleftrightarrow> y mod 4 = 0 \<and> (y mod 100 \<noteq> 0 \<or> y mod 400 = 0)"

definition days_in :: "nat \<Rightarrow> nat \<Rightarrow> nat" where
  "days_in m y =
     (if m = 2 then (if leap y then 29 else 28) else if m \<in> {4, 6, 9, 11} then 30 else 31)"

definition valid_time :: "gotime \<Rightarrow> bool" where
  "valid_time t \<longleftrightarrow>
     t_year t \<le> 9999 \<and> 1 \<le> t_month t \<and> t_month t \<le> 12 \<and>
     1 \<le> t_day t \<and> t_day t \<le> days_in (t_month t) (t_year t) \<and>
     t_hour t < 24 \<and> t_min t < 60 \<and> t_sec t < 60 \<and> t_nsec t < 1000000000 \<and>
     \<bar>t_off t\<bar> < 24 * 60"

text \<open>The instant, in nanoseconds since January 1 of year 1, UTC, Go's zero time.\<close>

definition days_before_year :: "nat \<Rightarrow> int" where
  "days_before_year y =
     (let p = int y - 1 in 365 * p + p div 4 - p div 100 + p div 400)"

definition instant :: "gotime \<Rightarrow> int" where
  "instant t =
     (let days = days_before_year (t_year t)
                 + (\<Sum>m \<leftarrow> [1..<t_month t]. int (days_in m (t_year t))) + int (t_day t) - 1;
          minutes = (days * 24 + int (t_hour t)) * 60 + int (t_min t) - t_off t
      in (minutes * 60 + int (t_sec t)) * 1000000000 + int (t_nsec t))"

definition zero_time :: gotime where
  "zero_time =
     \<lparr>t_year = 1, t_month = 1, t_day = 1, t_hour = 0, t_min = 0, t_sec = 0, t_nsec = 0, t_off = 0\<rparr>"

definition IsZero :: "gotime \<Rightarrow> bool" where
  "IsZero t \<longleftrightarrow> instant t = 0"

lemma IsZero_zero_time: "IsZero zero_time"
  by (simp add: IsZero_def zero_time_def instant_def days_before_year_def)

section \<open>Writing\<close>

text \<open>A number padded to a width with zeros on the left.\<close>

fun padn :: "nat \<Rightarrow> nat \<Rightarrow> string" where
  "padn 0 n = []"
| "padn (Suc k) n = padn k (n div 10) @ [digit_char (n mod 10)]"

definition frac_text :: "nat \<Rightarrow> string" where
  "frac_text ns =
     (if ns = 0 then []
      else CHR ''.'' # rev (dropWhile (\<lambda>c. c = CHR ''0'') (rev (padn 9 ns))))"

definition zone_text :: "int \<Rightarrow> string" where
  "zone_text z =
     (if z = 0 then ''Z''
      else (if z < 0 then CHR ''-'' else CHR ''+'') #
        padn 2 (nat \<bar>z\<bar> div 60) @ CHR '':'' # padn 2 (nat \<bar>z\<bar> mod 60))"

definition time_text :: "gotime \<Rightarrow> string" where
  "time_text t =
     padn 4 (t_year t) @ CHR ''-'' # padn 2 (t_month t) @ CHR ''-'' # padn 2 (t_day t) @
     CHR ''T'' # padn 2 (t_hour t) @ CHR '':'' # padn 2 (t_min t) @ CHR '':'' # padn 2 (t_sec t) @
     frac_text (t_nsec t) @ zone_text (t_off t)"

text \<open>\<open>MarshalJSON\<close> fails on a year of more than four digits and on a zone of 24 hours or more.\<close>

definition marshal_time :: "gotime \<Rightarrow> string option" where
  "marshal_time t =
     (if 9999 < t_year t \<or> 24 * 60 \<le> \<bar>t_off t\<bar> then None
      else Some (CHR 0x22 # time_text t @ [CHR 0x22]))"

section \<open>Reading\<close>

definition expect :: "char \<Rightarrow> string \<Rightarrow> string option" where
  "expect c s = (case s of d # r \<Rightarrow> if d = c then Some r else None | [] \<Rightarrow> None)"

definition get_fix :: "nat \<Rightarrow> nat \<Rightarrow> nat \<Rightarrow> string \<Rightarrow> (nat \<times> string) option" where
  "get_fix k lo hi s =
     (let ds = take k s
      in if length ds = k \<and> (\<forall>c \<in> set ds. is_digit c) \<and> lo \<le> digits_val ds \<and> digits_val ds \<le> hi
         then Some (digits_val ds, drop k s) else None)"

text \<open>The hour may have one digit.\<close>

definition get_hour :: "string \<Rightarrow> (nat \<times> string) option" where
  "get_hour s =
     (case s of
        c # d # _ \<Rightarrow> if is_digit d then get_fix 2 0 23 s else get_fix 1 0 23 s
      | _ \<Rightarrow> get_fix 1 0 23 s)"

definition get_frac :: "string \<Rightarrow> nat \<times> string" where
  "get_frac s =
     (case s of
        c # d # r \<Rightarrow>
          if (c = CHR ''.'' \<or> c = CHR '','') \<and> is_digit d then
            (let ds = takeWhile is_digit (d # r); v = take 9 ds
             in (digits_val v * 10 ^ (9 - length v), dropWhile is_digit (d # r)))
          else (0, s)
      | _ \<Rightarrow> (0, s))"

definition get_zone :: "string \<Rightarrow> int option" where
  "get_zone s =
     (case s of
        [] \<Rightarrow> None
      | c # r \<Rightarrow>
          if c = CHR ''Z'' then (if r = [] then Some 0 else None)
          else if c = CHR ''+'' \<or> c = CHR ''-'' then
            (case get_fix 2 0 24 r of
               None \<Rightarrow> None
             | Some (h, r1) \<Rightarrow>
                 (case Option.bind (expect (CHR '':'') r1) (get_fix 2 0 60) of
                    Some (m, []) \<Rightarrow>
                      Some (if c = CHR ''-'' then - int (h * 60 + m) else int (h * 60 + m))
                  | _ \<Rightarrow> None))
          else None)"

definition parse_time :: "string \<Rightarrow> gotime option" where
  "parse_time s =
     Option.bind (get_fix 4 0 9999 s) (\<lambda>(y, s1).
     Option.bind (Option.bind (expect (CHR ''-'') s1) (get_fix 2 1 12)) (\<lambda>(mo, s2).
     Option.bind (Option.bind (expect (CHR ''-'') s2) (get_fix 2 1 (days_in mo y))) (\<lambda>(d, s3).
     Option.bind (Option.bind (expect (CHR ''T'') s3) get_hour) (\<lambda>(h, s4).
     Option.bind (Option.bind (expect (CHR '':'') s4) (get_fix 2 0 59)) (\<lambda>(mi, s5).
     Option.bind (Option.bind (expect (CHR '':'') s5) (get_fix 2 0 59)) (\<lambda>(sc, s6).
     let (ns, s7) = get_frac s6
     in map_option (\<lambda>z. \<lparr>t_year = y, t_month = mo, t_day = d, t_hour = h, t_min = mi, t_sec = sc,
                          t_nsec = ns, t_off = z\<rparr>) (get_zone s7)))))))"

section \<open>Round trip\<close>

lemma length_padn [simp]: "length (padn k n) = k"
  by (induction k arbitrary: n) simp_all

lemma padn_digits: "c \<in> set (padn k n) \<Longrightarrow> is_digit c"
  by (induction k arbitrary: n) auto

lemma digits_val_padn: "digits_val (padn k n) = n mod 10 ^ k"
proof (induction k arbitrary: n)
  case (Suc k)
  have "10 * (n div 10 mod 10 ^ k) + n mod 10 = n mod 10 ^ Suc k"
    by (simp add: mod_mult2_eq)
  with Suc show ?case by simp
qed simp

lemma get_fix_padn [simp]:
  "n < 10 ^ k \<Longrightarrow> lo \<le> n \<Longrightarrow> n \<le> hi \<Longrightarrow> get_fix k lo hi (padn k n @ t) = Some (n, t)"
  using padn_digits by (auto simp: get_fix_def Let_def digits_val_padn)

lemma padn_2: "padn 2 n = [digit_char (n div 10 mod 10), digit_char (n mod 10)]"
  by (simp add: numeral_2_eq_2)

lemma get_hour_padn [simp]: "n < 24 \<Longrightarrow> get_hour (padn 2 n @ t) = Some (n, t)"
  using get_fix_padn [of n 2 0 23 t] by (simp add: get_hour_def padn_2)

lemma expect_same [simp]: "expect c (c # s) = Some s"
  by (simp add: expect_def)

text \<open>The fraction: dropping the zeros at the end is undone by the scaling.\<close>

lemma digits_val_zeros: "(\<forall>c \<in> set z. c = CHR ''0'') \<Longrightarrow> digits_val (s @ z) = digits_val s * 10 ^ length z"
proof (induction z rule: rev_induct)
  case (snoc c z)
  then have "digits_val (s @ z @ [c]) = 10 * digits_val (s @ z)"
    using digits_val_simps(2) [of "s @ z" c] by (simp add: digit_val_def)
  with snoc show ?case by simp
qed simp

lemma frac_text_digits:
  assumes "0 < ns" and "ns < 1000000000"
  obtains d ds where "frac_text ns = CHR ''.'' # d # ds" and "\<forall>c \<in> set (d # ds). is_digit c"
    and "length (d # ds) \<le> 9" and "digits_val (d # ds) * 10 ^ (9 - length (d # ds)) = ns"
proof -
  define p where "p = padn 9 ns"
  define q where "q = rev (dropWhile (\<lambda>c. c = CHR ''0'') (rev p))"
  define z where "z = rev (takeWhile (\<lambda>c. c = CHR ''0'') (rev p))"
  have pq: "p = q @ z"
    unfolding q_def z_def by (metis rev_append rev_rev_ident takeWhile_dropWhile_id)
  have z: "\<forall>c \<in> set z. c = CHR ''0''"
    unfolding z_def by (auto dest: set_takeWhileD)
  have len: "length q + length z = 9"
    using arg_cong [OF pq, of length] by (simp add: p_def)
  have "digits_val p = ns"
    using assms by (simp add: p_def digits_val_padn)
  then have val: "digits_val q * 10 ^ (9 - length q) = ns"
    using digits_val_zeros [OF z, of q] pq len by (simp add: add_diff_inverse_nat flip: len)
  have digs: "\<forall>c \<in> set q. is_digit c"
    using pq padn_digits unfolding p_def by (metis UnCI set_append)
  from val assms have "q \<noteq> []" by auto
  then obtain d ds where "q = d # ds" by (cases q) auto
  moreover have "frac_text ns = CHR ''.'' # q"
    using assms by (simp add: frac_text_def q_def p_def)
  ultimately show ?thesis
    using that val digs len by force
qed

lemma get_frac_text:
  assumes "ns < 1000000000" and "t \<noteq> []" and "\<not> is_digit (hd t)" and "hd t \<noteq> CHR ''.''" "hd t \<noteq> CHR '',''"
  shows "get_frac (frac_text ns @ t) = (ns, t)"
proof (cases "ns = 0")
  case True
  then show ?thesis
    using assms by (cases t) (auto simp: frac_text_def get_frac_def split: list.splits)
next
  case False
  with assms obtain d ds where f: "frac_text ns = CHR ''.'' # d # ds"
    "\<forall>c \<in> set (d # ds). is_digit c" "length (d # ds) \<le> 9"
    "digits_val (d # ds) * 10 ^ (9 - length (d # ds)) = ns"
    using frac_text_digits [of ns] by blast
  obtain e es where t: "t = e # es" and "\<not> is_digit e" using assms by (cases t) auto
  then have "takeWhile is_digit (ds @ t) = ds" "dropWhile is_digit (ds @ t) = t"
    using f(2) by (simp_all add: takeWhile_append2 dropWhile_append3 takeWhile_append)
  with f show ?thesis by (simp add: get_frac_def)
qed

lemma zone_text_hd:
  "zone_text z \<noteq> [] \<and> \<not> is_digit (hd (zone_text z)) \<and> hd (zone_text z) \<noteq> CHR ''.'' \<and>
   hd (zone_text z) \<noteq> CHR '',''"
  by (simp add: zone_text_def is_digit_def)

lemma get_zone_text:
  assumes "\<bar>z\<bar> < 24 * 60"
  shows "get_zone (zone_text z) = Some z"
proof (cases "z = 0")
  case False
  let ?n = "nat \<bar>z\<bar>"
  have n: "?n div 60 < 24" "?n mod 60 < 60" using assms by auto
  have "get_fix 2 0 60 (padn 2 (?n mod 60)) = Some (?n mod 60, [])"
    using get_fix_padn [of "?n mod 60" 2 0 60 "[]"] n by simp
  moreover have "get_fix 2 0 24 (padn 2 (?n div 60) @ CHR '':'' # padn 2 (?n mod 60))
      = Some (?n div 60, CHR '':'' # padn 2 (?n mod 60))"
    using n by simp
  moreover have "?n div 60 * 60 + ?n mod 60 = ?n" by simp
  ultimately show ?thesis
    using False by (auto simp: zone_text_def get_zone_def)
qed (simp add: zone_text_def get_zone_def)

lemma parse_time_text:
  assumes "valid_time t"
  shows "parse_time (time_text t) = Some t"
proof -
  note v = assms [unfolded valid_time_def]
  have "days_in (t_month t) (t_year t) \<le> 31" by (simp add: days_in_def)
  with v have "t_day t < 100" by linarith
  moreover have "get_frac (frac_text (t_nsec t) @ zone_text (t_off t)) = (t_nsec t, zone_text (t_off t))"
    using v zone_text_hd by (intro get_frac_text) auto
  moreover have "get_zone (zone_text (t_off t)) = Some (t_off t)"
    using v by (intro get_zone_text) auto
  ultimately show ?thesis
    using v by (simp add: parse_time_def time_text_def)
qed

end
