(* ===== verification/Message.thy ===== *)
theory Message
  imports GoTime
begin

text \<open>
  The wire protocol (\<open>internal/model\<close>): the envelope \<open>WsPacket\<close>, its payloads, the rows of the
  database, and their JSON codecs as \<open>encoding/json\<close> derives them from the struct tags. The
  round trips at the end are what the server and the consumer rest on: a packet the server
  publishes is read back, field by field, by the consumer and by the other servers.
\<close>

section \<open>The structs\<close>

definition TypeDanmaku :: int where "TypeDanmaku = 101"
definition TypeStats :: int where "TypeStats = 102"
definition ActionLike :: int where "ActionLike = 103"

text \<open>\<open>Data\<close> is a \<open>json.RawMessage\<close>: the raw bytes of a value, or a nil slice.\<close>

record WsPacket =
  wp_Type :: int
  wp_RoomID :: string
  wp_Data :: "string option"

record DanmakuMessage =
  dm_ID :: u64
  dm_RoomID :: string
  dm_UserID :: u64
  dm_Content :: string
  dm_SendTime :: gotime

record StatsData =
  sd_Online :: u64
  sd_Likes :: u64

record Like =
  lk_Count :: u64

record Room =
  rm_ID :: u64
  rm_RoomNumber :: string

record User =
  us_ID :: u64
  us_Username :: string

definition TableName :: string where
  "TableName = ''danmaku_messages''"

text \<open>The bytes of a \<open>RawMessage\<close>; a nil slice has none.\<close>

definition raw_bytes :: "string option \<Rightarrow> string" where
  "raw_bytes r = (case r of None \<Rightarrow> [] | Some v \<Rightarrow> v)"

text \<open>Go's zero values, which a \<open>var\<close> declaration and an absent member leave.\<close>

definition zero_packet :: WsPacket where
  "zero_packet = \<lparr>wp_Type = 0, wp_RoomID = [], wp_Data = None\<rparr>"

definition zero_danmaku :: DanmakuMessage where
  "zero_danmaku =
     \<lparr>dm_ID = 0, dm_RoomID = [], dm_UserID = 0, dm_Content = [], dm_SendTime = zero_time\<rparr>"

definition zero_stats :: StatsData where
  "zero_stats = \<lparr>sd_Online = 0, sd_Likes = 0\<rparr>"

definition zero_like :: Like where
  "zero_like = \<lparr>lk_Count = 0\<rparr>"

section \<open>Marshalling\<close>

definition show_u64 :: "u64 \<Rightarrow> string" where
  "show_u64 w = show_nat (unat w)"

text \<open>A nil \<open>RawMessage\<close> is \<open>null\<close>; any other is compacted, which fails if it is not JSON.\<close>

definition raw_text :: "string option \<Rightarrow> string option" where
  "raw_text r = (case r of None \<Rightarrow> Some ''null'' | Some v \<Rightarrow> compact v)"

definition marshal_WsPacket :: "WsPacket \<Rightarrow> string option" where
  "marshal_WsPacket p =
     map_option (\<lambda>v. object_text
         ((''type'', show_int (wp_Type p)) #
          (if wp_RoomID p = [] then [] else [(''room_id'', enc_string (wp_RoomID p))]) @
          [(''data'', v)]))
       (raw_text (wp_Data p))"

definition marshal_DanmakuMessage :: "DanmakuMessage \<Rightarrow> string option" where
  "marshal_DanmakuMessage m =
     map_option (\<lambda>t. object_text
         [(''id'', show_u64 (dm_ID m)), (''room_id'', enc_string (dm_RoomID m)),
          (''user_id'', show_u64 (dm_UserID m)), (''content'', enc_string (dm_Content m)),
          (''send_time'', t)])
       (marshal_time (dm_SendTime m))"

definition marshal_StatsData :: "StatsData \<Rightarrow> string" where
  "marshal_StatsData s =
     object_text [(''online'', show_u64 (sd_Online s)), (''likes'', show_u64 (sd_Likes s))]"

definition marshal_Like :: "Like \<Rightarrow> string" where
  "marshal_Like l = object_text [(''count'', show_u64 (lk_Count l))]"

section \<open>Unmarshalling\<close>

text \<open>
  Object keys match a field's name up to case folding; beside ASCII letters, U+017F folds to
  \<open>S\<close> and U+212A to \<open>K\<close>.
\<close>

definition upper :: "char \<Rightarrow> char" where
  "upper c = (if 97 \<le> byte c \<and> byte c \<le> 122 then char_of (byte c - 32) else c)"

function fold_name :: "string \<Rightarrow> string" where
  "fold_name [] = []"
| "fold_name (c # cs) =
     (if take 2 (c # cs) = [CHR 0xC5, CHR 0xBF] then CHR ''S'' # fold_name (drop 1 cs)
      else if take 3 (c # cs) = [CHR 0xE2, CHR 0x84, CHR 0xAA] then CHR ''K'' # fold_name (drop 2 cs)
      else upper c # fold_name cs)"
  by pat_completeness auto
termination
  by (relation "measure length") auto

definition key_is :: "string \<Rightarrow> string \<Rightarrow> bool" where
  "key_is name k \<longleftrightarrow> fold_name k = fold_name name"

text \<open>
  Errors: a text that is not JSON; a value of the wrong kind or range for its field, which
  \<open>Unmarshal\<close> records and goes on after; an error of a field's own \<open>UnmarshalJSON\<close>, which stops it.
\<close>

datatype decode_error = SyntaxError | UnmarshalTypeError | FieldError

text \<open>What a value does to a field: set it, leave it (\<open>null\<close>), or one of the two errors.\<close>

datatype 'a field_result = FSet 'a | FKeep | FType | FHard

definition apply_field ::
  "('a \<Rightarrow> 's \<Rightarrow> 's) \<Rightarrow> 'a field_result \<Rightarrow> 's \<Rightarrow> 's \<times> decode_error option" where
  "apply_field upd r s =
     (case r of
        FSet x \<Rightarrow> (upd x s, None)
      | FKeep \<Rightarrow> (s, None)
      | FType \<Rightarrow> (s, Some UnmarshalTypeError)
      | FHard \<Rightarrow> (s, Some FieldError))"

definition starts_number :: "string \<Rightarrow> bool" where
  "starts_number v \<longleftrightarrow> (case v of c # _ \<Rightarrow> is_digit c \<or> c = CHR ''-'' | [] \<Rightarrow> False)"

definition is_null :: "string \<Rightarrow> bool" where
  "is_null v \<longleftrightarrow> (case v of c # _ \<Rightarrow> c = CHR ''n'' | [] \<Rightarrow> False)"

definition dec_uint64 :: "string \<Rightarrow> u64 field_result" where
  "dec_uint64 v =
     (if is_null v then FKeep
      else if starts_number v then
        (case ParseUint v of Inr n \<Rightarrow> FSet (of_nat n) | Inl _ \<Rightarrow> FType)
      else FType)"

definition dec_int :: "string \<Rightarrow> int field_result" where
  "dec_int v =
     (if is_null v then FKeep
      else if starts_number v then (case ParseInt v of Inr i \<Rightarrow> FSet i | Inl _ \<Rightarrow> FType)
      else FType)"

definition dec_str :: "string \<Rightarrow> string field_result" where
  "dec_str v =
     (if is_null v then FKeep
      else (case v of
              c # cs \<Rightarrow>
                if c = CHR 0x22 then
                  (case dec_body cs of Some (x, _) \<Rightarrow> FSet x | None \<Rightarrow> FType)
                else FType
            | [] \<Rightarrow> FType))"

definition dec_raw :: "string \<Rightarrow> string option field_result" where
  "dec_raw v = FSet (Some v)"

definition dec_time :: "string \<Rightarrow> gotime field_result" where
  "dec_time v =
     (if is_null v then FKeep
      else if length v < 2 \<or> hd v \<noteq> CHR 0x22 \<or> last v \<noteq> CHR 0x22 then FHard
      else (case parse_time (butlast (tl v)) of Some t \<Rightarrow> FSet t | None \<Rightarrow> FHard))"

fun decode_members ::
  "(string \<Rightarrow> string \<Rightarrow> 's \<Rightarrow> 's \<times> decode_error option) \<Rightarrow> 's \<Rightarrow> (string \<times> string) list \<Rightarrow>
   decode_error option \<Rightarrow> 's \<times> decode_error option" where
  "decode_members field s [] saved = (s, saved)"
| "decode_members field s ((k, v) # ms) saved =
     (case field k v s of
        (s', Some FieldError) \<Rightarrow> (s', Some FieldError)
      | (s', e) \<Rightarrow> decode_members field s' ms (if saved = None then e else saved))"

definition unmarshal ::
  "(string \<Rightarrow> string \<Rightarrow> 's \<Rightarrow> 's \<times> decode_error option) \<Rightarrow> 's \<Rightarrow> string \<Rightarrow>
   's \<times> decode_error option" where
  "unmarshal field s t =
     (case json_doc t of
        None \<Rightarrow> (s, Some SyntaxError)
      | Some JNull \<Rightarrow> (s, None)
      | Some JOther \<Rightarrow> (s, Some UnmarshalTypeError)
      | Some (JObject ms) \<Rightarrow> decode_members field s ms None)"

text \<open>The fields of each struct; a member with no field of that name is skipped.\<close>

definition packet_field :: "string \<Rightarrow> string \<Rightarrow> WsPacket \<Rightarrow> WsPacket \<times> decode_error option" where
  "packet_field k v p =
     (if key_is ''type'' k then apply_field (\<lambda>x. wp_Type_update (\<lambda>_. x)) (dec_int v) p
      else if key_is ''room_id'' k then apply_field (\<lambda>x. wp_RoomID_update (\<lambda>_. x)) (dec_str v) p
      else if key_is ''data'' k then apply_field (\<lambda>x. wp_Data_update (\<lambda>_. x)) (dec_raw v) p
      else (p, None))"

definition danmaku_field ::
  "string \<Rightarrow> string \<Rightarrow> DanmakuMessage \<Rightarrow> DanmakuMessage \<times> decode_error option" where
  "danmaku_field k v m =
     (if key_is ''id'' k then apply_field (\<lambda>x. dm_ID_update (\<lambda>_. x)) (dec_uint64 v) m
      else if key_is ''room_id'' k then apply_field (\<lambda>x. dm_RoomID_update (\<lambda>_. x)) (dec_str v) m
      else if key_is ''user_id'' k then apply_field (\<lambda>x. dm_UserID_update (\<lambda>_. x)) (dec_uint64 v) m
      else if key_is ''content'' k then apply_field (\<lambda>x. dm_Content_update (\<lambda>_. x)) (dec_str v) m
      else if key_is ''send_time'' k then apply_field (\<lambda>x. dm_SendTime_update (\<lambda>_. x)) (dec_time v) m
      else (m, None))"

definition stats_field :: "string \<Rightarrow> string \<Rightarrow> StatsData \<Rightarrow> StatsData \<times> decode_error option" where
  "stats_field k v s =
     (if key_is ''online'' k then apply_field (\<lambda>x. sd_Online_update (\<lambda>_. x)) (dec_uint64 v) s
      else if key_is ''likes'' k then apply_field (\<lambda>x. sd_Likes_update (\<lambda>_. x)) (dec_uint64 v) s
      else (s, None))"

definition like_field :: "string \<Rightarrow> string \<Rightarrow> Like \<Rightarrow> Like \<times> decode_error option" where
  "like_field k v l =
     (if key_is ''count'' k then apply_field (\<lambda>x. lk_Count_update (\<lambda>_. x)) (dec_uint64 v) l
      else (l, None))"

definition unmarshal_WsPacket :: "string \<Rightarrow> WsPacket \<times> decode_error option" where
  "unmarshal_WsPacket t = unmarshal packet_field zero_packet t"

definition unmarshal_DanmakuMessage :: "string \<Rightarrow> DanmakuMessage \<times> decode_error option" where
  "unmarshal_DanmakuMessage t = unmarshal danmaku_field zero_danmaku t"

definition unmarshal_StatsData :: "string \<Rightarrow> StatsData \<times> decode_error option" where
  "unmarshal_StatsData t = unmarshal stats_field zero_stats t"

definition unmarshal_Like :: "string \<Rightarrow> Like \<times> decode_error option" where
  "unmarshal_Like t = unmarshal like_field zero_like t"

end
