(* ===== verification/JsonFuel.thy ===== *)
theory JsonFuel
  imports JsonText
begin

text \<open>
  The fuel of the JSON scanner is enough: every call that reads something leaves a shorter text,
  so a fuel above the length of the text never runs out, and more fuel never changes a result.
\<close>

lemma skip_ws_length: "length (skip_ws s) \<le> length s"
  by (simp add: skip_ws_def length_dropWhile_le)

lemma skip_ws_Cons: "skip_ws s = c # r \<Longrightarrow> length r < length s"
  using skip_ws_length [of s] by simp

lemma dec_body_shorter: "dec_body s = Some (x, r) \<Longrightarrow> length r < length s"
proof (induction s arbitrary: x r rule: dec_body.induct)
  case 1
  then show ?case by simp
next
  case (2 c cs)
  have esc: "dec_escape cs = Some (y, t) \<Longrightarrow> length t < length cs" for y t
    by (rule dec_escape_shorter)
  show ?case
    using 2 by (subst (asm) dec_body.simps(2))
      (fastforce split: if_splits option.splits dest: esc)
qed

lemma skip_digits1_shorter: "skip_digits1 s = Some r \<Longrightarrow> length r < length s"
  using length_dropWhile_le by (fastforce simp: skip_digits1_def less_Suc_eq_le split: list.splits if_splits)

lemma skip_int_shorter: "skip_int s = Some r \<Longrightarrow> length r < length s"
  using length_dropWhile_le by (fastforce simp: skip_int_def less_Suc_eq_le split: list.splits if_splits)

lemma skip_frac_le: "skip_frac s = Some r \<Longrightarrow> length r \<le> length s"
  by (auto simp: skip_frac_def dest: skip_digits1_shorter split: list.splits if_splits)

lemma skip_exp_le: "skip_exp s = Some r \<Longrightarrow> length r \<le> length s"
  by (fastforce simp: skip_exp_def dest: skip_digits1_shorter split: list.splits if_splits)

lemma skip_number_shorter: "skip_number s = Some r \<Longrightarrow> length r < length s"
proof -
  assume "skip_number s = Some r"
  then obtain r1 r2 where "(case s of c # t \<Rightarrow> if c = CHR ''-'' then skip_int t else skip_int s | [] \<Rightarrow> None) = Some r1"
    and "skip_frac r1 = Some r2" "skip_exp r2 = Some r"
    by (auto simp: skip_number_def bind_eq_Some_conv)
  then show ?thesis
    by (fastforce split: list.splits if_splits dest: skip_int_shorter skip_frac_le skip_exp_le)
qed

lemma skip_prefix_shorter: "p \<noteq> [] \<Longrightarrow> skip_prefix p s = Some r \<Longrightarrow> length r < length s"
  by (auto simp: skip_prefix_def split: if_splits) (cases s; cases p; simp)

text \<open>One unfolding of each of the three functions, given the property one level of fuel down.\<close>

lemma jvalue_shorter_step:
  assumes "\<And>d s ms r. jmembers n d s = Some (ms, r) \<Longrightarrow> length r < length s"
    and "\<And>d s r. jelems n d s = Some r \<Longrightarrow> length r < length s"
    and "jvalue (Suc n) d s = Some r"
  shows "length r < length s"
proof -
  have open_bracket: "length r < length (c # cs)"
    if "skip_ws cs = e # t" and "r = t \<or> length r < length (e # t)" for c e cs t
    using that skip_ws_length [of cs] by auto
  obtain c cs where s: "s = c # cs" using assms(3) by (cases s) auto
  consider "c = CHR 0x22" | "c = CHR 0x7B" | "c = CHR 0x5B"
    | "skip_prefix ''true'' s = Some r \<or> skip_prefix ''false'' s = Some r \<or>
       skip_prefix ''null'' s = Some r \<or> skip_number s = Some r"
    using assms(3) s by (auto split: if_splits)
  then show ?thesis
  proof cases
    case 1
    with assms(3) s obtain x where "dec_body cs = Some (x, r)" by auto
    from dec_body_shorter [OF this] s show ?thesis by simp
  next
    case 2
    with assms(3) s obtain e t where ws: "skip_ws cs = e # t"
      and "r = t \<or> (\<exists>ms. jmembers n (Suc d) (e # t) = Some (ms, r))"
      by (auto split: list.splits if_splits simp del: jmembers.simps)
    then have "r = t \<or> length r < length (e # t)" using assms(1) by blast
    with open_bracket [OF ws] s show ?thesis by blast
  next
    case 3
    with assms(3) s obtain e t where ws: "skip_ws cs = e # t"
      and "r = t \<or> jelems n (Suc d) (e # t) = Some r"
      by (auto split: list.splits if_splits simp del: jelems.simps)
    then have "r = t \<or> length r < length (e # t)" using assms(2) by blast
    with open_bracket [OF ws] s show ?thesis by blast
  next
    case 4
    then show ?thesis
      using skip_prefix_shorter [of _ s r] skip_number_shorter [of s r] by blast
  qed
qed

lemma jmembers_shorter_step:
  assumes "\<And>d s r. jvalue n d s = Some r \<Longrightarrow> length r < length s"
    and "\<And>d s ms r. jmembers n d s = Some (ms, r) \<Longrightarrow> length r < length s"
    and "jmembers (Suc n) d s = Some (ms, r)"
  shows "length r < length s"
proof -
  from assms(3) obtain cs k r1 c1 r2 r3 c3 r4
    where s: "s = CHR 0x22 # cs" and b: "dec_body cs = Some (k, r1)" and r1: "skip_ws r1 = c1 # r2"
      and v: "jvalue n d (skip_ws r2) = Some r3" and r3: "skip_ws r3 = c3 # r4"
      and out: "r = r4 \<or> (\<exists>ms'. jmembers n d (skip_ws r4) = Some (ms', r))"
    by (auto simp: Let_def split: list.splits if_splits option.splits prod.splits)
  have "length r \<le> length r4"
    using out assms(2) skip_ws_length [of r4] by fastforce
  also have "length r4 < length r3" using r3 by (rule skip_ws_Cons)
  also have "length r3 < length (skip_ws r2)" using v by (rule assms(1))
  also have "\<dots> \<le> length r2" by (rule skip_ws_length)
  also have "\<dots> < length r1" using r1 by (rule skip_ws_Cons)
  also have "\<dots> < length cs" using b by (rule dec_body_shorter)
  finally show ?thesis using s by simp
qed

lemma jelems_shorter_step:
  assumes "\<And>d s r. jvalue n d s = Some r \<Longrightarrow> length r < length s"
    and "\<And>d s r. jelems n d s = Some r \<Longrightarrow> length r < length s"
    and "jelems (Suc n) d s = Some r"
  shows "length r < length s"
proof -
  from assms(3) obtain r1 c r2
    where v: "jvalue n d s = Some r1" and r1: "skip_ws r1 = c # r2"
      and out: "r = r2 \<or> jelems n d (skip_ws r2) = Some r"
    by (auto split: list.splits if_splits option.splits)
  have "length r \<le> length r2"
    using out assms(2) skip_ws_length [of r2] by fastforce
  also have "\<dots> < length r1" using r1 by (rule skip_ws_Cons)
  also have "\<dots> < length s" using v by (rule assms(1))
  finally show ?thesis .
qed

lemma scan_shorter:
  "(\<forall>d s r. jvalue n d s = Some r \<longrightarrow> length r < length s) \<and>
   (\<forall>d s ms r. jmembers n d s = Some (ms, r) \<longrightarrow> length r < length s) \<and>
   (\<forall>d s r. jelems n d s = Some r \<longrightarrow> length r < length s)"
proof (induction n)
  case 0
  show ?case by simp
next
  case (Suc n)
  then show ?case
    using jvalue_shorter_step [of n] jmembers_shorter_step [of n] jelems_shorter_step [of n]
    by blast
qed

lemma jvalue_shorter: "jvalue n d s = Some r \<Longrightarrow> length r < length s"
  using scan_shorter by blast

lemma jmembers_shorter: "jmembers n d s = Some (ms, r) \<Longrightarrow> length r < length s"
  using scan_shorter by blast

section \<open>More fuel changes nothing\<close>

text \<open>One level of fuel, given the property one level down.\<close>

lemma jvalue_fuel_step:
  assumes M: "\<And>d s. 2 * length s + 1 < n \<Longrightarrow> jmembers (Suc n) d s = jmembers n d s"
    and E: "\<And>d s. 2 * length s + 1 < n \<Longrightarrow> jelems (Suc n) d s = jelems n d s"
    and s: "2 * length s < Suc n"
  shows "jvalue (Suc (Suc n)) d s = jvalue (Suc n) d s"
proof (cases s)
  case (Cons c cs)
  have cs: "skip_ws cs = e # r \<Longrightarrow> 2 * length (e # r) + 1 < n" for e r
    using s Cons skip_ws_length [of cs] by simp
  show ?thesis
    unfolding jvalue.simps(2) [of "Suc n" d s] jvalue.simps(2) [of n d s]
    using Cons M [OF cs] E [OF cs]
    by (auto split: list.splits simp del: jmembers.simps jelems.simps)
qed simp

lemma jmembers_fuel_step:
  assumes V: "\<And>d s. 2 * length s < n \<Longrightarrow> jvalue (Suc n) d s = jvalue n d s"
    and M: "\<And>d s. 2 * length s + 1 < n \<Longrightarrow> jmembers (Suc n) d s = jmembers n d s"
    and s: "2 * length s + 1 < Suc n"
  shows "jmembers (Suc (Suc n)) d s = jmembers (Suc n) d s"
proof (cases s)
  case (Cons c cs)
  have l2: "2 * length (skip_ws r2) < n"
    if "dec_body cs = Some (k, r1)" "skip_ws r1 = c1 # r2" for k r1 c1 r2
    using s Cons dec_body_shorter [OF that(1)] skip_ws_Cons [OF that(2)] skip_ws_length [of r2]
    by simp
  have l4: "2 * length (skip_ws r4) + 1 < n"
    if "dec_body cs = Some (k, r1)" "skip_ws r1 = c1 # r2" "jvalue n d (skip_ws r2) = Some r3"
      "skip_ws r3 = c3 # r4" for k r1 c1 r2 r3 c3 r4
    using s Cons dec_body_shorter [OF that(1)] skip_ws_Cons [OF that(2)] skip_ws_length [of r2]
      jvalue_shorter [OF that(3)] skip_ws_Cons [OF that(4)] skip_ws_length [of r4] by simp
  show ?thesis
    unfolding jmembers.simps(2) [of "Suc n" d s] jmembers.simps(2) [of n d s]
    using Cons V [OF l2] M [OF l4]
    by (auto simp: Let_def simp del: jmembers.simps jvalue.simps split: list.splits option.splits)
qed simp

lemma jelems_fuel_step:
  assumes V: "\<And>d s. 2 * length s < n \<Longrightarrow> jvalue (Suc n) d s = jvalue n d s"
    and E: "\<And>d s. 2 * length s + 1 < n \<Longrightarrow> jelems (Suc n) d s = jelems n d s"
    and s: "2 * length s + 1 < Suc n"
  shows "jelems (Suc (Suc n)) d s = jelems (Suc n) d s"
proof -
  have v: "jvalue (Suc n) d s = jvalue n d s"
    using V s by simp
  have l: "2 * length (skip_ws r2) + 1 < n"
    if "jvalue n d s = Some r1" "skip_ws r1 = c # r2" for r1 c r2
    using s jvalue_shorter [OF that(1)] skip_ws_Cons [OF that(2)] skip_ws_length [of r2] by simp
  show ?thesis
    unfolding jelems.simps(2) [of "Suc n" d s] jelems.simps(2) [of n d s] v
    using E [OF l]
    by (auto simp del: jelems.simps jvalue.simps split: list.splits option.splits)
qed

lemma scan_fuel:
  "(\<forall>d s. 2 * length s < n \<longrightarrow> jvalue (Suc n) d s = jvalue n d s) \<and>
   (\<forall>d s. 2 * length s + 1 < n \<longrightarrow> jmembers (Suc n) d s = jmembers n d s) \<and>
   (\<forall>d s. 2 * length s + 1 < n \<longrightarrow> jelems (Suc n) d s = jelems n d s)"
proof (induction n)
  case 0
  show ?case by simp
next
  case (Suc n)
  then show ?case
    using jvalue_fuel_step [of n] jmembers_fuel_step [of n] jelems_fuel_step [of n] by blast
qed

lemma jvalue_fuel: "2 * length s < n \<Longrightarrow> n \<le> m \<Longrightarrow> jvalue m d s = jvalue n d s"
proof (induction m)
  case (Suc m)
  show ?case
  proof (cases "n \<le> m")
    case True
    then have "2 * length s < m" using Suc.prems(1) by simp
    with scan_fuel [of m] have "jvalue (Suc m) d s = jvalue m d s" by blast
    with Suc True show ?thesis by simp
  qed (use Suc.prems in \<open>simp add: le_Suc_eq\<close>)
qed simp

lemma jmembers_fuel: "2 * length s + 1 < n \<Longrightarrow> jmembers (Suc n) d s = jmembers n d s"
  using scan_fuel by blast

end
