(* ===== verification/Codec.thy ===== *)
theory Codec
  imports Message JsonFuel
begin

text \<open>
  The round trips of the protocol. \<open>payload v\<close> says that a text can travel as the \<open>data\<close> of an
  envelope unchanged: it is one JSON value, shallow enough, and already compact. Every payload
  the program writes is one.
\<close>

section \<open>The keys of the structs\<close>

lemma key_is_self [simp]: "key_is k k"
  by (simp add: key_is_def)

lemma keys_differ [simp]:
  "\<not> key_is ''type'' ''room_id''" "\<not> key_is ''type'' ''data''" "\<not> key_is ''room_id'' ''data''"
  "\<not> key_is ''id'' ''room_id''" "\<not> key_is ''id'' ''user_id''" "\<not> key_is ''id'' ''content''"
  "\<not> key_is ''id'' ''send_time''" "\<not> key_is ''room_id'' ''user_id''" "\<not> key_is ''room_id'' ''content''"
  "\<not> key_is ''room_id'' ''send_time''" "\<not> key_is ''user_id'' ''content''"
  "\<not> key_is ''user_id'' ''send_time''" "\<not> key_is ''content'' ''send_time''"
  "\<not> key_is ''online'' ''likes''"
  by code_simp+

lemma runes_ascii: "\<forall>c \<in> set s. byte c < 0x80 \<Longrightarrow> runes s = map (\<lambda>c. [c]) s"
proof (induction s)
  case (Cons c s)
  then have "is_rune [c]" by (simp add: is_rune_def rune_size.simps(2))
  then have "runes ([c] @ s) = [c] # runes s" by (rule runes_Cons_rune)
  with Cons show ?case by simp
qed simp

lemma valid_utf8_ascii: "(\<forall>c \<in> set s. byte c < 0x80) \<Longrightarrow> valid_utf8 s"
  by (auto simp: valid_utf8_def runes_ascii rune_size.simps(2))

lemma valid_utf8_Nil [simp]: "valid_utf8 []"
  by (simp add: valid_utf8_def)

lemma valid_keys [simp]:
  "valid_utf8 ''type''" "valid_utf8 ''room_id''" "valid_utf8 ''data''" "valid_utf8 ''id''"
  "valid_utf8 ''user_id''" "valid_utf8 ''content''" "valid_utf8 ''send_time''"
  "valid_utf8 ''online''" "valid_utf8 ''likes''" "valid_utf8 ''count''"
  by (auto intro!: valid_utf8_ascii)

section \<open>Single fields\<close>

lemma show_nat_not_null: "\<not> is_null (show_nat n)" "starts_number (show_nat n)"
  using show_nat_hd [of n] digit_cases by (auto simp: is_null_def starts_number_def)

lemma show_int_not_null: "\<not> is_null (show_int i)" "starts_number (show_int i)"
  using show_nat_not_null [of "nat i"]
  by (auto simp: show_int_def is_null_def starts_number_def)

lemma dec_uint64_show [simp]: "dec_uint64 (show_u64 w) = FSet w"
  by (simp add: dec_uint64_def show_u64_def show_nat_not_null unat_u64_le)

lemma dec_int_show: "- (2 ^ 63) \<le> i \<Longrightarrow> i < 2 ^ 63 \<Longrightarrow> dec_int (show_int i) = FSet i"
  by (simp add: dec_int_def show_int_not_null ParseInt_show)

lemma dec_str_enc [simp]: "dec_str (enc_string s) = FSet (clean s)"
  using dec_body_enc_body [of s "[]"] by (simp add: dec_str_def enc_string_def is_null_def)

lemma dec_time_text [simp]:
  "valid_time t \<Longrightarrow> dec_time (CHR 0x22 # time_text t @ [CHR 0x22]) = FSet t"
  by (simp add: dec_time_def is_null_def parse_time_text butlast_append)

lemma apply_field_FSet [simp]: "apply_field upd (FSet x) s = (upd x s, None)"
  by (simp add: apply_field_def)

section \<open>Time texts\<close>

definition time_char :: "char \<Rightarrow> bool" where
  "time_char c \<longleftrightarrow> is_digit c \<or> c \<in> set ''-:TZ+.''"

lemma time_text_chars: "\<forall>c \<in> set (time_text t). time_char c"
proof -
  have "\<forall>c \<in> set (padn k n). time_char c" for k n
    using padn_digits by (auto simp: time_char_def)
  moreover have "\<forall>c \<in> set (frac_text ns). time_char c" for ns
    using padn_digits [of _ 9 ns] by (auto simp: frac_text_def time_char_def dest!: set_dropWhileD)
  moreover have "\<forall>c \<in> set (zone_text z). time_char c" for z
    using padn_digits by (auto simp: zone_text_def time_char_def)
  moreover have "time_char (CHR ''-'')" "time_char (CHR ''T'')" "time_char (CHR '':'')"
    by (simp_all add: time_char_def)
  ultimately show ?thesis
    by (simp add: time_text_def ball_Un)
qed

lemma time_char_plain:
  assumes "time_char c"
  shows "byte c < 0x80" "esc_ascii c = [c]"
  using assms by (auto simp: time_char_def is_digit_def esc_ascii_def)

lemma runes_time: "\<forall>c \<in> set s. time_char c \<Longrightarrow> enc_body s = s \<and> valid_utf8 s"
proof (induction s)
  case Nil
  show ?case by (simp add: enc_body_def)
next
  case (Cons c s)
  then have c: "byte c < 0x80" "esc_ascii c = [c]" using time_char_plain by auto
  then have r: "is_rune [c]" by (simp add: is_rune_def rune_size.simps(2))
  then have "runes ([c] @ s) = [c] # runes s" by (rule runes_Cons_rune)
  with Cons c r show ?case
    by (simp add: enc_body_def valid_utf8_def enc_rune_def is_rune_def)
qed

lemma quoted_time: "CHR 0x22 # time_text t @ [CHR 0x22] = enc_string (time_text t)"
  using runes_time [OF time_text_chars] by (simp add: enc_string_def)

section \<open>Payloads\<close>

definition payload :: "string \<Rightarrow> bool" where
  "payload v \<longleftrightarrow> stable v \<and> (\<exists>k h. jtext k h v \<and> k \<le> length v \<and> h < 9999)"

lemma members_text_length:
  "sum_list (map (length \<circ> snd) ms) + 3 * length ms \<le> Suc (length (members_text ms)) "
  if "ms \<noteq> []"
  using that by (induction ms rule: members_text.induct) (auto simp: member_text_def enc_string_def)

lemma object_text_length:
  "sum_list (map (length \<circ> snd) ms) + 3 * length ms < length (object_text ms)"
  using members_text_length [of ms] by (cases "ms = []") (auto simp: object_text_def)

lemma payload_object:
  assumes "members_ok 1 0 ms" and "\<forall>m \<in> set ms. stable (snd m)"
  shows "payload (object_text ms)"
proof -
  have "jtext (Suc (1 + length ms)) 1 (object_text ms)"
    using jtext_object [OF assms(1)] by simp
  moreover have "Suc (1 + length ms) \<le> length (object_text ms)"
    using object_text_length [of ms] by (cases ms) (auto simp: object_text_def)
  moreover have "stable (object_text ms)"
    using assms by (intro stable_object) (auto simp: members_ok_def)
  ultimately show ?thesis unfolding payload_def by (intro conjI exI [of _ "Suc (1 + length ms)"] exI [of _ 1]) auto
qed

lemma payload_json_valid: "payload v \<Longrightarrow> json_valid v"
proof -
  assume "payload v"
  then obtain k h where v: "jtext k h v" "k \<le> length v" "h < 9999"
    by (auto simp: payload_def)
  then obtain c cs where cs: "v = c # cs" and "\<not> is_ws c"
    by (cases v) (auto simp: jtext_def)
  let ?n = "Suc (2 * length v)"
  have ws: "skip_ws v = v" using cs \<open>\<not> is_ws c\<close> by simp
  have rd: "jvalue (Suc ?n) 0 v = Some []"
    using jtext_read [OF v(1), of "Suc ?n" 0 "[]"] v by (simp add: max_depth_def)
  have "json_doc v \<noteq> None"
  proof (cases "c = CHR 0x7B")
    case True
    from rd obtain e r where e: "skip_ws cs = e # r"
      and m: "e = CHR 0x7D \<or> jmembers ?n 1 (e # r) \<noteq> None"
      by (auto simp: cs True split: list.splits if_splits simp del: jmembers.simps)
    have "2 * length (e # r) + 1 < ?n"
      using skip_ws_length [of cs] e cs by simp
    then have "jmembers (Suc ?n) 1 (e # r) = jmembers ?n 1 (e # r)" by (rule jmembers_fuel)
    with m rd e show ?thesis
      unfolding json_doc_def Let_def ws
      by (auto simp: cs True skip_ws_def simp del: jvalue.simps jmembers.simps)
  next
    case False
    with rd show ?thesis
      unfolding json_doc_def Let_def ws
      by (simp add: cs skip_ws_def del: jvalue.simps)
  qed
  then show ?thesis by (simp add: json_valid_def)
qed

lemma payload_compact: "payload v \<Longrightarrow> compact v = Some v"
  by (rule compact_stable [OF payload_json_valid]) (simp_all add: payload_def)

lemma unmarshal_object_tail:
  assumes "members_ok k h ms" and "k \<le> 1 + sum_list (map (length \<circ> snd) ms)" and "h < max_depth"
    and "skip_ws w = []"
  shows "unmarshal field s (object_text ms @ w) = decode_members field s ms None"
proof -
  have "k + length ms \<le> length (object_text ms)"
    using object_text_length [of ms] assms(2) by simp
  with assms show ?thesis by (simp add: unmarshal_def json_doc_object_tail)
qed

lemma unmarshal_object:
  "members_ok k h ms \<Longrightarrow> k \<le> 1 + sum_list (map (length \<circ> snd) ms) \<Longrightarrow> h < max_depth \<Longrightarrow>
   unmarshal field s (object_text ms) = decode_members field s ms None"
  using unmarshal_object_tail [of k h ms "[]"] by (simp add: skip_ws_def)

section \<open>Payload round trips\<close>

definition danmaku_ok :: "DanmakuMessage \<Rightarrow> bool" where
  "danmaku_ok m \<longleftrightarrow> valid_utf8 (dm_RoomID m) \<and> valid_utf8 (dm_Content m) \<and> valid_time (dm_SendTime m)"

definition danmaku_members :: "DanmakuMessage \<Rightarrow> (string \<times> string) list" where
  "danmaku_members m =
     [(''id'', show_u64 (dm_ID m)), (''room_id'', enc_string (dm_RoomID m)),
      (''user_id'', show_u64 (dm_UserID m)), (''content'', enc_string (dm_Content m)),
      (''send_time'', CHR 0x22 # time_text (dm_SendTime m) @ [CHR 0x22])]"

lemma valid_time_marshals:
  "valid_time t \<Longrightarrow> marshal_time t = Some (CHR 0x22 # time_text t @ [CHR 0x22])"
  by (simp add: marshal_time_def valid_time_def)

text \<open>A danmaku as it is read back: what is not UTF-8 in its strings has been replaced.\<close>

definition clean_danmaku :: "DanmakuMessage \<Rightarrow> DanmakuMessage" where
  "clean_danmaku m = m\<lparr>dm_RoomID := clean (dm_RoomID m), dm_Content := clean (dm_Content m)\<rparr>"

lemma danmaku_ok_clean: "danmaku_ok m \<Longrightarrow> clean_danmaku m = m" "danmaku_ok m \<Longrightarrow> valid_time (dm_SendTime m)"
  by (simp_all add: danmaku_ok_def clean_danmaku_def)

lemma marshal_danmaku_text:
  "valid_time (dm_SendTime m) \<Longrightarrow> marshal_DanmakuMessage m = Some (object_text (danmaku_members m))"
  by (simp add: marshal_DanmakuMessage_def danmaku_members_def valid_time_marshals)

lemma text_fields:
  "jtext 1 0 (show_u64 w)" "stable (show_u64 w)"
  "jtext 1 0 (enc_string s)" "stable (enc_string s)"
  using jtext_nat stable_nat jtext_string stable_string by (auto simp: show_u64_def)

lemma danmaku_members_ok:
  "members_ok 1 0 (danmaku_members m)" "\<forall>kv \<in> set (danmaku_members m). stable (snd kv)"
  using text_fields runes_time [OF time_text_chars]
  by (simp_all add: danmaku_members_def quoted_time)

lemma danmaku_payload: "payload (object_text (danmaku_members m))"
  by (intro payload_object danmaku_members_ok)

lemma unmarshal_danmaku_text:
  assumes "valid_time (dm_SendTime m)"
  shows "unmarshal_DanmakuMessage (object_text (danmaku_members m)) = (clean_danmaku m, None)"
proof -
  have "unmarshal_DanmakuMessage (object_text (danmaku_members m)) =
      decode_members danmaku_field zero_danmaku (danmaku_members m) None"
    unfolding unmarshal_DanmakuMessage_def
    using danmaku_members_ok(1) by (rule unmarshal_object) (simp_all add: max_depth_def)
  also have "\<dots> = (clean_danmaku m, None)"
    using assms
    by (simp add: danmaku_members_def danmaku_field_def clean_danmaku_def zero_danmaku_def)
  finally show ?thesis .
qed

lemma danmaku_roundtrip:
  "danmaku_ok m \<Longrightarrow> marshal_DanmakuMessage m = Some t \<Longrightarrow> unmarshal_DanmakuMessage t = (m, None)"
  using marshal_danmaku_text unmarshal_danmaku_text danmaku_ok_clean by auto

lemma stats_members_ok:
  "members_ok 1 0 [(''online'', show_u64 a), (''likes'', show_u64 b)]"
  "members_ok 1 0 [(''count'', show_u64 a)]"
  using text_fields by simp_all

lemma stats_payload: "payload (marshal_StatsData s)"
  unfolding marshal_StatsData_def
  using stats_members_ok text_fields by (intro payload_object) auto

lemma stats_roundtrip: "unmarshal_StatsData (marshal_StatsData s) = (s, None)"
  unfolding unmarshal_StatsData_def marshal_StatsData_def
  by (subst unmarshal_object [OF stats_members_ok(1)])
    (simp_all add: max_depth_def stats_field_def zero_stats_def)

lemma like_roundtrip: "unmarshal_Like (marshal_Like l) = (l, None)"
  unfolding unmarshal_Like_def marshal_Like_def
  by (subst unmarshal_object [OF stats_members_ok(2)])
    (simp_all add: max_depth_def like_field_def zero_like_def)

section \<open>The envelope\<close>

definition carries :: "WsPacket \<Rightarrow> bool" where
  "carries p \<longleftrightarrow> - (2 ^ 63) \<le> wp_Type p \<and> wp_Type p < 2 ^ 63 \<and> (\<exists>v. wp_Data p = Some v \<and> payload v)"

definition packet_ok :: "WsPacket \<Rightarrow> bool" where
  "packet_ok p \<longleftrightarrow> carries p \<and> valid_utf8 (wp_RoomID p)"

definition clean_packet :: "WsPacket \<Rightarrow> WsPacket" where
  "clean_packet p = p\<lparr>wp_RoomID := clean (wp_RoomID p)\<rparr>"

lemma packet_ok_clean: "packet_ok p \<Longrightarrow> clean_packet p = p" "packet_ok p \<Longrightarrow> carries p"
  by (simp_all add: packet_ok_def clean_packet_def)

definition packet_members :: "WsPacket \<Rightarrow> string \<Rightarrow> (string \<times> string) list" where
  "packet_members p v =
     (''type'', show_int (wp_Type p)) #
     (if wp_RoomID p = [] then [] else [(''room_id'', enc_string (wp_RoomID p))]) @ [(''data'', v)]"

lemma marshal_packet_text:
  "wp_Data p = Some v \<Longrightarrow> payload v \<Longrightarrow>
   marshal_WsPacket p = Some (object_text (packet_members p v))"
  by (simp add: marshal_WsPacket_def packet_members_def raw_text_def payload_compact)

lemma packet_cleaned_tail:
  assumes "carries p"
  shows "\<exists>t. marshal_WsPacket p = Some t \<and> (\<forall>w. skip_ws w = [] \<longrightarrow> unmarshal_WsPacket (t @ w) = (clean_packet p, None))"
proof -
  from assms obtain v where v: "wp_Data p = Some v" "payload v" by (auto simp: carries_def)
  then obtain k h where kh: "jtext k h v" "k \<le> length v" "h < 9999" by (auto simp: payload_def)
  have one: "1 \<le> length v" using kh(1) by (cases v) (auto simp: jtext_def)
  have "jtext (max 1 k) h v" using kh(1) by (rule jtext_mono) simp_all
  moreover have "jtext (max 1 k) h (show_int (wp_Type p))"
    by (rule jtext_mono [OF jtext_int]) simp_all
  moreover have "jtext (max 1 k) h (enc_string (wp_RoomID p))"
    by (rule jtext_mono [OF text_fields(3)]) simp_all
  ultimately have ok: "members_ok (max 1 k) h (packet_members p v)"
    by (simp add: packet_members_def)
  have "max 1 k \<le> 1 + sum_list (map (length \<circ> snd) (packet_members p v))"
    using kh(2) one by (simp add: packet_members_def)
  with ok kh(3) have "unmarshal_WsPacket (object_text (packet_members p v) @ w) =
      decode_members packet_field zero_packet (packet_members p v) None" if "skip_ws w = []" for w
    unfolding unmarshal_WsPacket_def using that
    by (intro unmarshal_object_tail [of "max 1 k" h]) (auto simp: max_depth_def)
  moreover have "decode_members packet_field zero_packet (packet_members p v) None = (clean_packet p, None)"
    using assms v dec_int_show
    by (simp add: packet_members_def packet_field_def carries_def clean_packet_def zero_packet_def dec_raw_def)
  ultimately show ?thesis using marshal_packet_text [OF v] by simp
qed

lemma packet_cleaned: "carries p \<Longrightarrow> \<exists>t. marshal_WsPacket p = Some t \<and> unmarshal_WsPacket t = (clean_packet p, None)"
  using packet_cleaned_tail [of p] by (metis append_Nil2 dropWhile.simps(1) skip_ws_def)

lemma packet_roundtrip_tail:
  "packet_ok p \<Longrightarrow> \<exists>t. marshal_WsPacket p = Some t \<and> (\<forall>w. skip_ws w = [] \<longrightarrow> unmarshal_WsPacket (t @ w) = (p, None))"
  using packet_cleaned_tail [OF packet_ok_clean(2)] by (simp add: packet_ok_clean(1))

lemma packet_roundtrip:
  "packet_ok p \<Longrightarrow> \<exists>t. marshal_WsPacket p = Some t \<and> unmarshal_WsPacket t = (p, None)"
  using packet_cleaned [OF packet_ok_clean(2)] by (simp add: packet_ok_clean(1))

end
