(* ===== verification/Repo.thy ===== *)
theory Repo
  imports Codec "HOL-Library.Multiset"
begin

text \<open>
  \<open>MessageRepo\<close> and \<open>ChatService\<close>. GORM and the database behind it are not code of this
  repository: \<open>ins\<close> stands for \<open>db.CreateInBatches(value, size)\<close> and \<open>run_query\<close> for the execution of a
  query by \<open>Find\<close>, on a database state of any type. The documented behaviour a client may rely
  on is stated as predicates of them (\<open>atomic_insert\<close>, \<open>sql_find\<close>).

  A pointer \<open>*model.DanmakuMessage\<close> may be nil, so a batch is a list of options.
\<close>

type_synonym danmaku_ptr = "DanmakuMessage option"

type_synonym ('db, 'e) insert_op = "'db \<Rightarrow> danmaku_ptr list \<Rightarrow> nat \<Rightarrow> 'db \<times> 'e option"

section \<open>Inserting\<close>

definition CreateInBatches ::
  "('db, 'e) insert_op \<Rightarrow> 'db \<Rightarrow> danmaku_ptr list \<Rightarrow> 'db \<times> 'e option" where
  "CreateInBatches ins db msgs =
     (if length msgs = 0 then (db, None) else ins db msgs (length msgs))"

text \<open>
  One SQL statement in a transaction: it stores every row, in order, or reports an error and
  stores none. \<open>rows\<close> is the log of what was stored, the structs as they were handed over by the
  inserts that were committed; the id the database gives a row and the precision its time is kept
  with are not part of it.
\<close>

definition atomic_insert :: "('db, 'e) insert_op \<Rightarrow> ('db \<Rightarrow> danmaku_ptr list) \<Rightarrow> bool" where
  "atomic_insert ins rows \<longleftrightarrow>
     (\<forall>db b db'. b \<noteq> [] \<longrightarrow> ins db b (length b) = (db', None) \<longrightarrow> rows db' = rows db @ b) \<and>
     (\<forall>db b db' e. b \<noteq> [] \<longrightarrow> ins db b (length b) = (db', Some e) \<longrightarrow> rows db' = rows db)"

lemma CreateInBatches_ok:
  "atomic_insert ins rows \<Longrightarrow> CreateInBatches ins db b = (db', None) \<Longrightarrow> rows db' = rows db @ b"
  by (cases "b = []") (auto simp: CreateInBatches_def atomic_insert_def)

lemma CreateInBatches_err:
  "atomic_insert ins rows \<Longrightarrow> CreateInBatches ins db b = (db', Some e) \<Longrightarrow> rows db' = rows db"
  by (cases "b = []") (auto simp: CreateInBatches_def atomic_insert_def)

text \<open>
  A table with a tape of the outages to come: each insert takes one entry of the tape and fails
  where it says so (an exhausted tape means no more outages). An instance of the hypothesis.
\<close>

record table =
  tb_rows :: "danmaku_ptr list"
  tb_outages :: "bool list"

definition table_insert :: "(table, unit) insert_op" where
  "table_insert db b n =
     (case tb_outages db of
        True # os \<Rightarrow> (db\<lparr>tb_outages := os\<rparr>, Some ())
      | False # os \<Rightarrow> (db\<lparr>tb_rows := tb_rows db @ b, tb_outages := os\<rparr>, None)
      | [] \<Rightarrow> (db\<lparr>tb_rows := tb_rows db @ b\<rparr>, None))"

lemma table_atomic: "atomic_insert table_insert tb_rows"
  by (auto simp: atomic_insert_def table_insert_def split: list.splits bool.splits)

section \<open>Playback\<close>

text \<open>
  The query the repository builds: its \<open>Where\<close> clauses in order, the direction of its \<open>Order\<close> by
  \<open>send_time\<close> if it has one, and the limit.
\<close>

datatype where_clause = RoomIs string | SentSince gotime

datatype direction = Ascending | Descending

record query =
  q_where :: "where_clause list"
  q_order :: "direction option"
  q_limit :: int

type_synonym ('db, 'e) find_op = "'db \<Rightarrow> query \<Rightarrow> DanmakuMessage list \<times> 'e option"

definition GetPlayBackDanmaku ::
  "('db, 'e) find_op \<Rightarrow> 'db \<Rightarrow> string \<Rightarrow> gotime \<Rightarrow> int \<Rightarrow> DanmakuMessage list \<times> 'e option" where
  "GetPlayBackDanmaku run_query db roomID queryTime limit =
     (let q0 = [RoomIs roomID];
          q1 = (if \<not> IsZero queryTime then q0 @ [SentSince queryTime] else q0)
      in run_query db \<lparr>q_where = q1, q_order = Some Ascending, q_limit = limit\<rparr>)"

definition defaultLimit :: int where
  "defaultLimit = 100"

definition GetPlaybackDanmaku ::
  "('db, 'e) find_op \<Rightarrow> 'db \<Rightarrow> string \<Rightarrow> gotime \<Rightarrow> DanmakuMessage list \<times> 'e option" where
  "GetPlaybackDanmaku run_query db roomID startTime =
     GetPlayBackDanmaku run_query db roomID startTime defaultLimit"

text \<open>
  How the database compares, which is its configuration and no code of this repository: which
  strings are the same under the collation of the column (by default MySQL ignores case and
  accents), and the value a time has as a \<open>DATETIME\<close>, as driver and server convert it (the clock of
  the driver's location, rounded).
\<close>

record sql_dialect =
  sq_same :: "string \<Rightarrow> string \<Rightarrow> bool"
  sq_time :: "gotime \<Rightarrow> int"

fun matches :: "sql_dialect \<Rightarrow> where_clause \<Rightarrow> DanmakuMessage \<Rightarrow> bool" where
  "matches sql (RoomIs r) m \<longleftrightarrow> sq_same sql (dm_RoomID m) r"
| "matches sql (SentSince t) m \<longleftrightarrow> sq_time sql t \<le> sq_time sql (dm_SendTime m)"

text \<open>Whether a row may stand before another; without an \<open>ORDER BY\<close> any may.\<close>

fun may_precede :: "sql_dialect \<Rightarrow> direction option \<Rightarrow> DanmakuMessage \<Rightarrow> DanmakuMessage \<Rightarrow> bool" where
  "may_precede sql None m n \<longleftrightarrow> True"
| "may_precede sql (Some Ascending) m n \<longleftrightarrow> sq_time sql (dm_SendTime m) \<le> sq_time sql (dm_SendTime n)"
| "may_precede sql (Some Descending) m n \<longleftrightarrow> sq_time sql (dm_SendTime n) \<le> sq_time sql (dm_SendTime m)"

text \<open>
  What \<open>WHERE ... ORDER BY ... LIMIT n\<close> returns, when it succeeds: rows of the table that match, in the
  order the query asks for, no more than its limit, and no row left out comes before one returned.
\<close>

definition sql_answer :: "sql_dialect \<Rightarrow> DanmakuMessage list \<Rightarrow> query \<Rightarrow> DanmakuMessage list \<Rightarrow> bool" where
  "sql_answer sql rows q out \<longleftrightarrow>
     (let hits = filter (\<lambda>m. \<forall>w \<in> set (q_where q). matches sql w m) rows
      in (\<exists>rest. mset (out @ rest) = mset hits \<and>
            sorted_wrt (may_precede sql (q_order q)) out \<and>
            (\<forall>m \<in> set out. \<forall>n \<in> set rest. may_precede sql (q_order q) m n)) \<and>
         length out = min (nat (q_limit q)) (length hits))"

definition sql_find :: "sql_dialect \<Rightarrow> ('db, 'e) find_op \<Rightarrow> ('db \<Rightarrow> DanmakuMessage list) \<Rightarrow> bool" where
  "sql_find sql run_query rows \<longleftrightarrow>
     (\<forall>db q out. run_query db q = (out, None) \<longrightarrow> 0 \<le> q_limit q \<longrightarrow> sql_answer sql (rows db) q out)"

lemma sql_answer_hit:
  "sql_answer sql rows q out \<Longrightarrow> m \<in> set out \<Longrightarrow> m \<in> set rows \<and> (\<forall>w \<in> set (q_where q). matches sql w m)"
proof -
  assume a: "sql_answer sql rows q out" and m: "m \<in> set out"
  then obtain rest where "mset (out @ rest) = mset (filter (\<lambda>m. \<forall>w \<in> set (q_where q). matches sql w m) rows)"
    by (auto simp: sql_answer_def Let_def)
  then have "set (out @ rest) = set (filter (\<lambda>m. \<forall>w \<in> set (q_where q). matches sql w m) rows)"
    by (rule mset_eq_setD)
  with m show ?thesis by auto
qed

text \<open>An instance, for any dialect: sort the hits by time and cut them off.\<close>

definition order_key :: "sql_dialect \<Rightarrow> direction option \<Rightarrow> DanmakuMessage \<Rightarrow> int" where
  "order_key sql d m =
     (case d of
        None \<Rightarrow> 0
      | Some Ascending \<Rightarrow> sq_time sql (dm_SendTime m)
      | Some Descending \<Rightarrow> - sq_time sql (dm_SendTime m))"

definition list_find :: "sql_dialect \<Rightarrow> (DanmakuMessage list, unit) find_op" where
  "list_find sql rows q =
     (take (nat (q_limit q))
        (sort_key (order_key sql (q_order q))
           (filter (\<lambda>m. list_all (\<lambda>w. matches sql w m) (q_where q)) rows)), None)"

lemma order_key_precede: "order_key sql d m \<le> order_key sql d n \<Longrightarrow> may_precede sql d m n"
  by (auto simp: order_key_def split: option.splits direction.splits)

lemma list_find_sql: "sql_find sql (list_find sql) (\<lambda>rows. rows)"
proof -
  have "sql_answer sql db q out" if "list_find sql db q = (out, None)" for db q out
  proof -
    let ?k = "order_key sql (q_order q)" and ?n = "nat (q_limit q)"
    define s where "s = sort_key ?k (filter (\<lambda>m. \<forall>w \<in> set (q_where q). matches sql w m) db)"
    have out: "out = take ?n s"
      using that by (simp add: list_find_def s_def list_all_iff)
    have "sorted (map ?k s)" unfolding s_def by (rule sorted_sort_key)
    then have "sorted_wrt (\<lambda>m n. ?k m \<le> ?k n) s" by (simp only: sorted_map)
    then have srt: "sorted_wrt (may_precede sql (q_order q)) (take ?n s @ drop ?n s)"
      using sorted_wrt_mono_rel [of s "\<lambda>m n. ?k m \<le> ?k n" "may_precede sql (q_order q)"] order_key_precede
      by simp
    have "mset (take ?n s @ drop ?n s) = mset (filter (\<lambda>m. \<forall>w \<in> set (q_where q). matches sql w m) db)"
      by (simp add: s_def)
    moreover have "length s = length (filter (\<lambda>m. \<forall>w \<in> set (q_where q). matches sql w m) db)"
      by (simp add: s_def)
    ultimately show ?thesis
      using srt unfolding sql_answer_def Let_def out sorted_wrt_append by (metis length_take min.commute)
  qed
  then show ?thesis by (simp add: sql_find_def)
qed

text \<open>Two dialects: one that compares names byte by byte, and one that ignores the case of ASCII letters.\<close>

definition plain_sql :: sql_dialect where
  "plain_sql = \<lparr>sq_same = (=), sq_time = instant\<rparr>"

definition fold_case :: "string \<Rightarrow> string" where
  "fold_case s = map (\<lambda>c. let n = of_char c :: nat in if 65 \<le> n \<and> n \<le> 90 then char_of (n + 32) else c) s"

definition caseless_sql :: sql_dialect where
  "caseless_sql = \<lparr>sq_same = (\<lambda>r s. fold_case r = fold_case s), sq_time = instant\<rparr>"

end
