(* ===== verification/GoChan.thy ===== *)
theory GoChan
  imports Prelude
begin

text \<open>
  Go's buffered channels, as the server (\<open>Broadcast\<close>, \<open>broadcastJobChan\<close>, \<open>Send\<close>) and the
  consumer (\<open>msgChan\<close>) use them: a bounded FIFO buffer and a closed flag. A send on a closed
  channel and a close of a closed channel panic; a send on a full one and a receive on an empty
  open one block; a receive on an empty closed one returns the zero value with \<open>ok = false\<close>.
\<close>

section \<open>State and operations\<close>

record 'a gochan =
  ch_buf :: "'a list"
  ch_cap :: nat
  ch_closed :: bool

datatype 'a send_result = Sent "'a gochan" | SendBlocks | SendPanics

datatype 'a recv_result = Received 'a "'a gochan" | RecvClosed | RecvBlocks

definition make_chan :: "nat \<Rightarrow> 'a gochan" where
  "make_chan n = \<lparr>ch_buf = [], ch_cap = n, ch_closed = False\<rparr>"

definition send_chan :: "'a \<Rightarrow> 'a gochan \<Rightarrow> 'a send_result" where
  "send_chan x c =
     (if ch_closed c then SendPanics
      else if length (ch_buf c) < ch_cap c then Sent (c\<lparr>ch_buf := ch_buf c @ [x]\<rparr>)
      else SendBlocks)"

definition recv_chan :: "'a gochan \<Rightarrow> 'a recv_result" where
  "recv_chan c =
     (case ch_buf c of
        x # xs \<Rightarrow> Received x (c\<lparr>ch_buf := xs\<rparr>)
      | [] \<Rightarrow> if ch_closed c then RecvClosed else RecvBlocks)"

definition close_chan :: "'a gochan \<Rightarrow> 'a gochan option" where
  "close_chan c = (if ch_closed c then None else Some (c\<lparr>ch_closed := True\<rparr>))"

lemma send_chan_Sent [chan_simps]:
  "send_chan x c = Sent c' \<longleftrightarrow>
     \<not> ch_closed c \<and> length (ch_buf c) < ch_cap c \<and> c' = c\<lparr>ch_buf := ch_buf c @ [x]\<rparr>"
  by (auto simp: send_chan_def)

lemma send_chan_Blocks [chan_simps]:
  "send_chan x c = SendBlocks \<longleftrightarrow> \<not> ch_closed c \<and> ch_cap c \<le> length (ch_buf c)"
  by (auto simp: send_chan_def)

lemma send_chan_Panics [chan_simps]: "send_chan x c = SendPanics \<longleftrightarrow> ch_closed c"
  by (auto simp: send_chan_def)

lemma recv_chan_Received [chan_simps]:
  "recv_chan c = Received x c' \<longleftrightarrow>
     (\<exists>xs. ch_buf c = x # xs \<and> c' = c\<lparr>ch_buf := xs\<rparr>)"
  by (auto simp: recv_chan_def split: list.splits)

lemma recv_chan_Closed [chan_simps]:
  "recv_chan c = RecvClosed \<longleftrightarrow> ch_buf c = [] \<and> ch_closed c"
  by (auto simp: recv_chan_def split: list.splits)

lemma recv_chan_Blocks [chan_simps]:
  "recv_chan c = RecvBlocks \<longleftrightarrow> ch_buf c = [] \<and> \<not> ch_closed c"
  by (auto simp: recv_chan_def split: list.splits)

lemma close_chan_Some [chan_simps]:
  "close_chan c = Some c' \<longleftrightarrow> \<not> ch_closed c \<and> c' = c\<lparr>ch_closed := True\<rparr>"
  by (auto simp: close_chan_def)

lemma make_chan_simps [simp]:
  "ch_buf (make_chan n) = []" "ch_cap (make_chan n) = n" "ch_closed (make_chan n) = False"
  by (simp_all add: make_chan_def)

section \<open>The interface of a bounded queue\<close>

text \<open>
  What the clients of a channel rely on: a successful send appends at the end of a queue that
  was not full, a successful receive takes the head, neither changes the bound.
\<close>

locale bounded_queue =
  fixes snd_q :: "'a \<Rightarrow> 'q \<Rightarrow> 'q \<Rightarrow> bool"
    and rcv_q :: "'q \<Rightarrow> 'a \<Rightarrow> 'q \<Rightarrow> bool"
    and items :: "'q \<Rightarrow> 'a list"
    and bound :: "'q \<Rightarrow> nat"
  assumes snd_items: "snd_q x q q' \<Longrightarrow> items q' = items q @ [x]"
    and snd_room: "snd_q x q q' \<Longrightarrow> length (items q) < bound q"
    and snd_bound: "snd_q x q q' \<Longrightarrow> bound q' = bound q"
    and rcv_items: "rcv_q q x q' \<Longrightarrow> items q = x # items q'"
    and rcv_bound: "rcv_q q x q' \<Longrightarrow> bound q' = bound q"
begin

lemma snd_within: "snd_q x q q' \<Longrightarrow> length (items q') \<le> bound q'"
  using snd_items snd_room snd_bound by fastforce

lemma rcv_within: "rcv_q q x q' \<Longrightarrow> length (items q) \<le> bound q \<Longrightarrow> length (items q') \<le> bound q'"
  using rcv_items rcv_bound by fastforce

text \<open>What has been sent is what has been taken out, followed by what is still queued.\<close>

lemma snd_history: "hist = out @ items q \<Longrightarrow> snd_q x q q' \<Longrightarrow> hist @ [x] = out @ items q'"
  by (simp add: snd_items)

lemma rcv_history: "hist = out @ items q \<Longrightarrow> rcv_q q x q' \<Longrightarrow> hist = (out @ [x]) @ items q'"
  by (simp add: rcv_items)

lemma rcv_set: "rcv_q q x q' \<Longrightarrow> set (items q) = insert x (set (items q'))"
  by (simp add: rcv_items)

lemma snd_set: "snd_q x q q' \<Longrightarrow> set (items q') = insert x (set (items q))"
  by (simp add: snd_items)

end

interpretation chan: bounded_queue
  "\<lambda>x c c'. send_chan x c = Sent c'" "\<lambda>c x c'. recv_chan c = Received x c'" ch_buf ch_cap
  by unfold_locales (auto simp: chan_simps)

lemma send_keeps_open: "send_chan x c = Sent c' \<Longrightarrow> \<not> ch_closed c'"
  by (simp add: chan_simps)

lemma recv_keeps_closed: "recv_chan c = Received x c' \<Longrightarrow> ch_closed c' = ch_closed c"
  by (auto simp: chan_simps)

end
