(* ===== verification/Consumer.thy ===== *)
theory Consumer
  imports Repo GoChan
begin

text \<open>
  \<open>internal/consumer/handler.go\<close>: the Kafka consumer that stores danmaku in batches. First the
  operations one by one: \<open>parseMessage\<close>, \<open>flushBuffer\<close> with its retries, the cases of the worker's
  \<open>select\<close>. Then their facts. The interleaving of the goroutines is in \<^theory_text>\<open>ConsumerSys\<close>.
\<close>

section \<open>Constants\<close>

definition MaxDBRetries :: nat where "MaxDBRetries = 3"
definition ChannelBufferSize :: nat where "ChannelBufferSize = 2000"

section \<open>Parsing\<close>

text \<open>
  \<open>parseMessage\<close> returns a pointer and an error. A packet of another type is neither: the pointer
  is nil and so is the error.
\<close>

definition parseMessage :: "string \<Rightarrow> decode_error + danmaku_ptr" where
  "parseMessage value_bytes =
     (case unmarshal_WsPacket value_bytes of
        (_, Some err) \<Rightarrow> Inl err
      | (packet, None) \<Rightarrow>
          if wp_Type packet \<noteq> TypeDanmaku then Inr None
          else (case unmarshal_DanmakuMessage (raw_bytes (wp_Data packet)) of
                  (_, Some err) \<Rightarrow> Inl err
                | (danmaku, None) \<Rightarrow> Inr (Some danmaku)))"

section \<open>Flushing with retries\<close>

text \<open>
  \<open>cancelled i\<close>: the context is done when the back-off after attempt \<open>i\<close> waits. The loop counts
  its attempts from 0; \<open>k\<close> is how many are left.
\<close>

datatype flush_outcome = FlushEmpty | FlushSaved | FlushAborted | FlushDropped

fun flush_loop ::
  "('db, 'e) insert_op \<Rightarrow> (nat \<Rightarrow> bool) \<Rightarrow> danmaku_ptr list \<Rightarrow> nat \<Rightarrow> 'db \<Rightarrow> 'db \<times> flush_outcome" where
  "flush_loop ins cancelled batch 0 db = (db, FlushDropped)"
| "flush_loop ins cancelled batch (Suc k) db =
     (case CreateInBatches ins db batch of
        (db', None) \<Rightarrow> (db', FlushSaved)
      | (db', Some err) \<Rightarrow>
          if cancelled (MaxDBRetries - Suc k) then (db', FlushAborted)
          else flush_loop ins cancelled batch k db')"

definition flushBuffer ::
  "('db, 'e) insert_op \<Rightarrow> (nat \<Rightarrow> bool) \<Rightarrow> danmaku_ptr list \<Rightarrow> 'db \<Rightarrow> 'db \<times> flush_outcome" where
  "flushBuffer ins cancelled batch db =
     (if length batch = 0 then (db, FlushEmpty)
      else flush_loop ins cancelled batch MaxDBRetries db)"

section \<open>The worker's select\<close>

text \<open>
  What the worker holds between two rounds of its loop: its local buffer, or that it has returned.
  A round gives the batch it flushed (if it flushed one) with the outcome.
\<close>

datatype worker = WRunning "danmaku_ptr list" | WExited

datatype worker_event = WMessage danmaku_ptr | WChanClosed | WTick | WCtxDone

type_synonym flush_record = "danmaku_ptr list \<times> flush_outcome"

text \<open>
  The four cases. The context's last flush runs with \<open>context.Background()\<close>, so nothing cancels it.
  \<open>buffer = buffer[:0]\<close> keeps the backing array; the insert has returned by then, so the list
  view of the buffer is exact.
\<close>

definition worker_flush ::
  "('db, 'e) insert_op \<Rightarrow> (nat \<Rightarrow> bool) \<Rightarrow> danmaku_ptr list \<Rightarrow> 'db \<Rightarrow> 'db \<times> flush_record list" where
  "worker_flush ins cancelled b db =
     (case flushBuffer ins cancelled b db of (db', out) \<Rightarrow> (db', [(b, out)]))"

definition dbWorker_round ::
  "('db, 'e) insert_op \<Rightarrow> int \<Rightarrow> (nat \<Rightarrow> bool) \<Rightarrow> worker_event \<Rightarrow> danmaku_ptr list \<Rightarrow> 'db \<Rightarrow>
   worker \<times> 'db \<times> flush_record list" where
  "dbWorker_round ins batchSize cancelled ev buffer db =
     (case ev of
        WMessage msg \<Rightarrow>
          (let b = buffer @ [msg]
           in if batchSize \<le> int (length b)
              then (WRunning [], worker_flush ins cancelled b db)
              else (WRunning b, db, []))
      | WChanClosed \<Rightarrow> (WExited, worker_flush ins cancelled buffer db)
      | WTick \<Rightarrow>
          if 0 < length buffer then (WRunning [], worker_flush ins cancelled buffer db)
          else (WRunning buffer, db, [])
      | WCtxDone \<Rightarrow>
          if 0 < length buffer then (WExited, worker_flush ins (\<lambda>_. False) buffer db)
          else (WExited, db, []))"

text \<open>The start: \<open>make\<close> with a negative capacity panics.\<close>

definition dbWorker_start :: "int \<Rightarrow> worker option" where
  "dbWorker_start batchSize = (if batchSize < 0 then None else Some (WRunning []))"

section \<open>Facts of the flush\<close>

text \<open>The database after \<open>i\<close> attempts in a row, and what attempt \<open>i\<close> reports.\<close>

fun db_after :: "('db, 'e) insert_op \<Rightarrow> danmaku_ptr list \<Rightarrow> 'db \<Rightarrow> nat \<Rightarrow> 'db" where
  "db_after ins b db 0 = db"
| "db_after ins b db (Suc i) = fst (CreateInBatches ins (db_after ins b db i) b)"

definition attempt_ok :: "('db, 'e) insert_op \<Rightarrow> danmaku_ptr list \<Rightarrow> 'db \<Rightarrow> nat \<Rightarrow> bool" where
  "attempt_ok ins b db i \<longleftrightarrow> snd (CreateInBatches ins (db_after ins b db i) b) = None"

text \<open>An attempt is made when all before it failed and no back-off was cancelled.\<close>

definition attempted :: "('db, 'e) insert_op \<Rightarrow> (nat \<Rightarrow> bool) \<Rightarrow> danmaku_ptr list \<Rightarrow> 'db \<Rightarrow> nat \<Rightarrow> bool" where
  "attempted ins cancelled b db i \<longleftrightarrow>
     i < MaxDBRetries \<and> (\<forall>j < i. \<not> attempt_ok ins b db j \<and> \<not> cancelled j)"

text \<open>
  What a flush that ends with an outcome has done: saved by the first attempt that succeeded,
  given up at a cancelled back-off after a failure, or dropped after \<open>MaxDBRetries\<close> failures.
\<close>

definition flush_result ::
  "('db, 'e) insert_op \<Rightarrow> (nat \<Rightarrow> bool) \<Rightarrow> danmaku_ptr list \<Rightarrow> 'db \<Rightarrow> 'db \<Rightarrow> flush_outcome \<Rightarrow> bool" where
  "flush_result ins cancelled b db db' out \<longleftrightarrow>
     (case out of
        FlushEmpty \<Rightarrow> b = [] \<and> db' = db
      | FlushSaved \<Rightarrow>
          (\<exists>n. attempted ins cancelled b db n \<and> attempt_ok ins b db n \<and> db' = db_after ins b db (Suc n))
      | FlushAborted \<Rightarrow>
          (\<exists>n. attempted ins cancelled b db n \<and> \<not> attempt_ok ins b db n \<and> cancelled n \<and>
             db' = db_after ins b db (Suc n))
      | FlushDropped \<Rightarrow>
          (\<forall>j < MaxDBRetries. \<not> attempt_ok ins b db j \<and> \<not> cancelled j) \<and>
          db' = db_after ins b db MaxDBRetries)"

lemma flush_loop_result:
  "flush_loop ins cancelled b k (db_after ins b db i) = (db', out) \<Longrightarrow> i + k = MaxDBRetries \<Longrightarrow>
   (\<forall>j < i. \<not> attempt_ok ins b db j \<and> \<not> cancelled j) \<Longrightarrow>
   flush_result ins cancelled b db db' out"
proof (induction k arbitrary: i)
  case 0
  then show ?case by (auto simp: flush_result_def)
next
  case (Suc k)
  let ?db = "db_after ins b db i"
  obtain d r where step: "CreateInBatches ins ?db b = (d, r)" by fastforce
  then have next_db: "db_after ins b db (Suc i) = d" by simp
  have idx: "MaxDBRetries - Suc k = i" using Suc.prems(2) by simp
  have att: "attempted ins cancelled b db i"
    using Suc.prems by (simp add: attempted_def)
  show ?case
  proof (cases r)
    case None
    then have "out = FlushSaved" "db' = d" using Suc.prems(1) step by simp_all
    moreover have "attempt_ok ins b db i" using None step by (simp add: attempt_ok_def)
    ultimately show ?thesis using att next_db by (auto simp: flush_result_def simp del: db_after.simps)
  next
    case (Some e)
    then have no: "\<not> attempt_ok ins b db i" using step by (simp add: attempt_ok_def)
    show ?thesis
    proof (cases "cancelled i")
      case True
      then have "out = FlushAborted" "db' = d" using Suc.prems(1) Some step idx by simp_all
      then show ?thesis using att next_db no True by (auto simp: flush_result_def simp del: db_after.simps)
    next
      case False
      with Suc.prems(1) Some step idx next_db
      have "flush_loop ins cancelled b k (db_after ins b db (Suc i)) = (db', out)" by simp
      moreover have "\<forall>j < Suc i. \<not> attempt_ok ins b db j \<and> \<not> cancelled j"
        using Suc.prems(3) no False by (simp add: less_Suc_eq)
      ultimately show ?thesis using Suc.IH [of "Suc i"] Suc.prems(2) by simp
    qed
  qed
qed

lemma flushBuffer_result:
  assumes "flushBuffer ins cancelled b db = (db', out)"
  shows "flush_result ins cancelled b db db' out"
  using assms flush_loop_result [of ins cancelled b MaxDBRetries db 0 db' out]
  by (auto simp: flushBuffer_def flush_result_def split: if_splits)

text \<open>On a transactional database a flush stores the batch once, or not at all.\<close>

lemma flush_loop_rows:
  assumes "atomic_insert ins rows" and "flush_loop ins cancelled b k db = (db', out)"
  shows "rows db' = rows db @ (if out = FlushSaved then b else [])"
  using assms(2)
proof (induction k arbitrary: db)
  case 0
  then show ?case by auto
next
  case (Suc k)
  then show ?case
    using CreateInBatches_ok [OF assms(1)] CreateInBatches_err [OF assms(1)]
    by (auto split: prod.splits option.splits if_splits)
qed

lemma flushBuffer_rows:
  assumes "atomic_insert ins rows" and "flushBuffer ins cancelled b db = (db', out)"
  shows "rows db' = rows db @ (if out = FlushSaved then b else [])"
  using assms flush_loop_rows [OF assms(1)]
  by (fastforce simp: flushBuffer_def split: if_splits)

lemma flush_aborted_cancelled:
  "flushBuffer ins cancelled b db = (db', FlushAborted) \<Longrightarrow> \<exists>i < MaxDBRetries. cancelled i"
  by (drule flushBuffer_result) (auto simp: flush_result_def attempted_def)

section \<open>Facts of a round\<close>

definition batch_limit :: "int \<Rightarrow> int" where
  "batch_limit n = max n 1"

lemma worker_flush_record: "worker_flush ins c b db = (db', fs) \<Longrightarrow> \<exists>out. fs = [(b, out)]"
  by (auto simp: worker_flush_def split: prod.splits)

definition worker_buf :: "worker \<Rightarrow> danmaku_ptr list" where
  "worker_buf w = (case w of WRunning b \<Rightarrow> b | WExited \<Rightarrow> [])"

lemma worker_buf_simps [simp]: "worker_buf (WRunning b) = b" "worker_buf WExited = []"
  by (simp_all add: worker_buf_def)

text \<open>A round neither loses nor adds nor reorders anything.\<close>

lemma round_conserves:
  assumes "dbWorker_round ins n c ev b db = (w, db', fs)"
  shows "concat (map fst fs) @ worker_buf w = b @ (case ev of WMessage m \<Rightarrow> [m] | _ \<Rightarrow> [])"
  using assms
  by (auto simp: dbWorker_round_def Let_def dest!: worker_flush_record
      split: worker_event.splits if_splits prod.splits)

lemma round_batches:
  assumes "dbWorker_round ins n c ev b db = (w, db', fs)" and "int (length b) < batch_limit n"
  shows "int (length (worker_buf w)) < batch_limit n \<and>
     (\<forall>f \<in> set fs. int (length (fst f)) \<le> batch_limit n)"
  using assms
  by (auto simp: dbWorker_round_def Let_def batch_limit_def dest!: worker_flush_record
      split: worker_event.splits if_splits prod.splits)

lemma round_rows:
  assumes "atomic_insert ins rows" and "dbWorker_round ins n c ev b db = (w, db', fs)"
  shows "rows db' = rows db @ concat (map fst (filter (\<lambda>f. snd f = FlushSaved) fs))"
  using assms(2) flushBuffer_rows [OF assms(1)]
  by (auto simp: dbWorker_round_def Let_def worker_flush_def
      split: worker_event.splits if_splits prod.splits)

end
