(* ===== verification/Decoded.thy ===== *)
theory Decoded
  imports Codec
begin

text \<open>
  What decoding guarantees whatever the bytes were: strings are well-formed UTF-8, since
  \<open>unquoteBytes\<close> puts U+FFFD for what is not, a time is one of the calendar, an \<open>int\<close> fits 64 bits.
  It is what the round trips of \<^theory_text>\<open>Codec\<close> ask of a value, so a decoded value can always be sent on.
\<close>

section \<open>Code points encode to runes\<close>

lemma byte_char_of: "n < 256 \<Longrightarrow> byte (char_of n) = n"
  by simp

definition scalar_value :: "nat \<Rightarrow> bool" where
  "scalar_value u \<longleftrightarrow> u < 0xD800 \<or> 0xE000 \<le> u \<and> u < 0x110000"

lemma is_rune_encode: "scalar_value u \<Longrightarrow> is_rune (encode_rune u)"
proof -
  assume u: "scalar_value u"
  have m: "n mod 64 \<le> 63" for n :: nat using mod_less_divisor [of 64 n] by linarith
  consider "u < 0x80" | "0x80 \<le> u" "u < 0x800" | "0x800 \<le> u" "u < 0x10000" | "0x10000 \<le> u" by linarith
  then show ?thesis
  proof cases
    case 1
    then show ?thesis by (simp add: encode_rune_def is_rune_def rune_size.simps(2))
  next
    case 2
    then have "0xC2 \<le> 0xC0 + u div 64" "0xC0 + u div 64 < 0xE0" by linarith+
    then show ?thesis using 2 m [of u]
      by (simp add: encode_rune_def is_rune_def rune_size.simps(2) second_byte_def)
  next
    case 3
    let ?b = "0xE0 + u div 4096" and ?c = "0x80 + u div 64 mod 64"
    have b: "0xE0 \<le> ?b" "?b < 0xF0" using 3 by linarith+
    have c: "0x80 \<le> ?c" "?c \<le> 0xBF" using m [of "u div 64"] by linarith+
    have d: "u div 64 = u div 4096 * 64 + u div 64 mod 64"
      using div_mult_mod_eq [of "u div 64" 64] by (simp add: div_mult2_eq flip: div_mult2_eq)
    have "?b = 0xE0 \<Longrightarrow> 0xA0 \<le> ?c" using 3 d by simp
    moreover have "?b = 0xED \<Longrightarrow> ?c \<le> 0x9F" using u d unfolding scalar_value_def by auto
    ultimately show ?thesis using 3 b c m [of u]
      by (auto simp: encode_rune_def is_rune_def rune_size.simps(2) second_byte_def cont_byte_def)
  next
    case 4
    let ?b = "0xF0 + u div 262144" and ?c = "0x80 + u div 4096 mod 64"
    have b: "0xF0 \<le> ?b" "?b < 0xF5" using u 4 unfolding scalar_value_def by linarith+
    have c: "0x80 \<le> ?c" "?c \<le> 0xBF" using m [of "u div 4096"] by linarith+
    have d: "u div 4096 = u div 262144 * 64 + u div 4096 mod 64"
      using div_mult_mod_eq [of "u div 4096" 64] by (simp add: div_mult2_eq flip: div_mult2_eq)
    have "?b = 0xF0 \<Longrightarrow> 0x90 \<le> ?c" using 4 d by linarith
    moreover have "?b = 0xF4 \<Longrightarrow> ?c \<le> 0x8F" using u d unfolding scalar_value_def by linarith
    ultimately show ?thesis using 4 b c m [of u] m [of "u div 64"]
      by (auto simp: encode_rune_def is_rune_def rune_size.simps(2) second_byte_def cont_byte_def)
  qed
qed

lemma is_rune_ascii: "byte c < 0x80 \<Longrightarrow> is_rune [c]"
  by (simp add: is_rune_def rune_size.simps(2))

section \<open>String literals\<close>

lemma hex_val_less: "hex_val c = Some n \<Longrightarrow> n < 16"
  by (auto simp: hex_val_def is_digit_def digit_val_def split: if_splits)

lemma hex4_less: "hex4 s = Some (u, r) \<Longrightarrow> u < 0x10000"
  by (fastforce simp: hex4_def split: list.splits option.splits dest: hex_val_less)

lemma dec_u_rune: "dec_u s = Some (x, r) \<Longrightarrow> is_rune x"
  by (fastforce simp: dec_u_def scalar_value_def dest: hex4_less
      intro: is_rune_encode is_rune_replacement
      split: option.splits list.splits if_splits prod.splits)

lemma dec_escape_rune: "dec_escape s = Some (x, r) \<Longrightarrow> is_rune x"
  by (auto simp: dec_escape_def intro: is_rune_ascii dest: dec_u_rune split: list.splits if_splits)

lemma dec_body_utf8: "dec_body s = Some (x, r) \<Longrightarrow> valid_utf8 x"
proof (induction s arbitrary: x rule: dec_body.induct)
  case (2 c cs)
  note step = dec_body.simps(2) [of c cs]
  consider (quote) "c = CHR 0x22"
    | (escape) "c \<noteq> CHR 0x22" "c = CHR 0x5C"
    | (control) "c \<noteq> CHR 0x22" "c \<noteq> CHR 0x5C" "byte c < 32"
    | (broken) "c \<noteq> CHR 0x22" "c \<noteq> CHR 0x5C" "\<not> byte c < 32" "rune_size (c # cs) = 0"
    | (rune) "c \<noteq> CHR 0x22" "c \<noteq> CHR 0x5C" "\<not> byte c < 32" "rune_size (c # cs) \<noteq> 0"
    by blast
  then show ?case
  proof cases
    case escape
    then obtain y rest where y: "dec_escape cs = Some (y, rest)"
      using "2.prems" step by (cases "dec_escape cs") auto
    with escape have "map_option (apfst ((@) y)) (dec_body rest) = Some (x, r)"
      using "2.prems" step by simp
    then obtain z where "dec_body rest = Some (z, r)" "x = y @ z" by auto
    then show ?thesis
      using "2.IH"(1) [OF escape y refl] by (simp add: valid_utf8_rune dec_escape_rune [OF y])
  next
    case broken
    then show ?thesis
      using "2.prems" step "2.IH"(2) by (auto intro!: valid_utf8_rune is_rune_replacement)
  next
    case rune
    then show ?thesis
      using "2.prems" step "2.IH"(3) by (auto intro!: valid_utf8_rune is_rune_take)
  qed (use "2.prems" step in auto)
qed simp

lemma dec_str_utf8: "dec_str v = FSet x \<Longrightarrow> valid_utf8 x"
  by (auto simp: dec_str_def dest: dec_body_utf8 split: if_splits list.splits option.splits)

section \<open>Times and numbers\<close>

lemma get_fix_range: "get_fix k lo hi s = Some (n, r) \<Longrightarrow> lo \<le> n \<and> n \<le> hi"
  by (auto simp: get_fix_def Let_def split: if_splits)

lemma get_hour_range: "get_hour s = Some (n, r) \<Longrightarrow> n < 24"
  by (auto simp: get_hour_def dest!: get_fix_range split: list.splits if_splits)

lemma digits_val_less: "\<forall>c \<in> set ds. is_digit c \<Longrightarrow> digits_val ds < 10 ^ length ds"
proof (induction ds rule: rev_induct)
  case (snoc c ds)
  then have "digits_val ds < 10 ^ length ds" "digit_val c < 10"
    by (auto simp: is_digit_def digit_val_def)
  then show ?case by simp
qed simp

lemma scaled_digits:
  "digits_val v * 10 ^ (9 - length v) < 1000000000" if "v = take 9 (takeWhile is_digit t)"
proof -
  have "\<forall>c \<in> set v. is_digit c" using that by (auto dest: in_set_takeD set_takeWhileD)
  then have "digits_val v < 10 ^ length v" by (rule digits_val_less)
  then have "digits_val v * 10 ^ (9 - length v) < 10 ^ length v * 10 ^ (9 - length v)" by simp
  moreover have "length v \<le> 9" using that by simp
  ultimately show ?thesis by (simp flip: power_add)
qed

lemma get_frac_range: "fst (get_frac s) < 1000000000"
proof -
  have "fst (get_frac (c # d # r)) < 1000000000" for c d r
    using scaled_digits [OF refl, of "d # r"] by (simp add: get_frac_def Let_def del: takeWhile.simps)
  then show ?thesis by (cases s rule: remdups_adj.cases) (simp_all add: get_frac_def)
qed

lemma get_zone_range: "get_zone s = Some z \<Longrightarrow> \<bar>z\<bar> \<le> 1500"
  by (fastforce simp: get_zone_def Option.bind_eq_Some_conv dest!: get_fix_range
      split: list.splits if_splits option.splits)

text \<open>Only the zone of a decoded time can be one that \<open>MarshalJSON\<close> refuses.\<close>

definition calendar_time :: "gotime \<Rightarrow> bool" where
  "calendar_time t \<longleftrightarrow> valid_time (t\<lparr>t_off := 0\<rparr>) \<and> \<bar>t_off t\<bar> \<le> 1500"

lemma parse_time_calendar: "parse_time s = Some t \<Longrightarrow> calendar_time t"
  using get_frac_range
  by (auto simp: parse_time_def calendar_time_def valid_time_def Option.bind_eq_Some_conv Let_def case_prod_unfold
      dest!: get_fix_range get_hour_range get_zone_range)

lemma valid_zero_time [simp]: "valid_time zero_time"
  by (simp add: valid_time_def zero_time_def days_in_def)

lemma calendar_zero [simp]: "calendar_time zero_time"
  by (simp add: calendar_time_def valid_time_def zero_time_def days_in_def)

lemma dec_time_calendar: "dec_time v = FSet t \<Longrightarrow> calendar_time t"
  by (auto simp: dec_time_def dest: parse_time_calendar split: if_splits option.splits)

definition int64 :: "int \<Rightarrow> bool" where
  "int64 i \<longleftrightarrow> - (2 ^ 63) \<le> i \<and> i < 2 ^ 63"

section \<open>Structs\<close>

lemma decode_members_keeps:
  assumes "\<And>k v s. P s \<Longrightarrow> P (fst (field k v s))" and "P s"
  shows "P (fst (decode_members field s ms saved))"
  using assms(2)
proof (induction ms arbitrary: s saved)
  case (Cons m ms)
  obtain k v where m: "m = (k, v)" by (cases m)
  have "P (fst (field k v s))" using assms(1) Cons.prems by blast
  then show ?case
    by (cases "field k v s") (auto simp: m intro: Cons.IH split: option.splits decode_error.splits)
qed simp

lemma unmarshal_keeps:
  assumes "\<And>k v s. P s \<Longrightarrow> P (fst (field k v s))" and "P s"
  shows "P (fst (unmarshal field s t))"
  using assms decode_members_keeps [of P field]
  by (auto simp: unmarshal_def split: option.splits jdoc.splits)

lemma apply_field_keeps:
  "P (fst (apply_field upd r s))" if "P s" and "\<And>x. r = FSet x \<Longrightarrow> P (upd x s)"
  using that by (auto simp: apply_field_def split: field_result.splits)

definition danmaku_decoded :: "DanmakuMessage \<Rightarrow> bool" where
  "danmaku_decoded m \<longleftrightarrow>
     valid_utf8 (dm_RoomID m) \<and> valid_utf8 (dm_Content m) \<and> calendar_time (dm_SendTime m)"

definition packet_decoded :: "WsPacket \<Rightarrow> bool" where
  "packet_decoded p \<longleftrightarrow> valid_utf8 (wp_RoomID p) \<and> int64 (wp_Type p)"

lemma danmaku_decoded_update:
  assumes "danmaku_decoded m"
  shows "danmaku_decoded (m\<lparr>dm_ID := i\<rparr>)" "danmaku_decoded (m\<lparr>dm_UserID := i\<rparr>)"
    "valid_utf8 x \<Longrightarrow> danmaku_decoded (m\<lparr>dm_RoomID := x\<rparr>)"
    "valid_utf8 x \<Longrightarrow> danmaku_decoded (m\<lparr>dm_Content := x\<rparr>)"
    "calendar_time d \<Longrightarrow> danmaku_decoded (m\<lparr>dm_SendTime := d\<rparr>)"
  using assms by (simp_all add: danmaku_decoded_def)

lemma packet_decoded_update:
  assumes "packet_decoded p"
  shows "int64 i \<Longrightarrow> packet_decoded (p\<lparr>wp_Type := i\<rparr>)"
    "valid_utf8 x \<Longrightarrow> packet_decoded (p\<lparr>wp_RoomID := x\<rparr>)" "packet_decoded (p\<lparr>wp_Data := d\<rparr>)"
  using assms by (simp_all add: packet_decoded_def)

lemma danmaku_decoded: "danmaku_decoded (fst (unmarshal_DanmakuMessage t))"
  unfolding unmarshal_DanmakuMessage_def
proof (rule unmarshal_keeps)
  show "danmaku_decoded zero_danmaku" by (simp add: danmaku_decoded_def zero_danmaku_def)
next
  fix k v m assume "danmaku_decoded m"
  then show "danmaku_decoded (fst (danmaku_field k v m))"
    unfolding danmaku_field_def
    by (auto intro!: apply_field_keeps [where P = danmaku_decoded]
        simp: danmaku_decoded_update dec_str_utf8 dec_time_calendar)
qed

lemma dec_int_int64: "dec_int v = FSet i \<Longrightarrow> int64 i"
  by (auto simp: dec_int_def int64_def ParseInt_def Let_def split: if_splits sum.splits)

lemma packet_decoded: "packet_decoded (fst (unmarshal_WsPacket t))"
  unfolding unmarshal_WsPacket_def
proof (rule unmarshal_keeps)
  show "packet_decoded zero_packet" by (simp add: packet_decoded_def zero_packet_def int64_def)
next
  fix k v p assume "packet_decoded p"
  then show "packet_decoded (fst (packet_field k v p))"
    unfolding packet_field_def
    by (auto intro!: apply_field_keeps [where P = packet_decoded]
        simp: packet_decoded_update dec_str_utf8 dec_int_int64)
qed

end
