(* ===== verification/WireThms.thy ===== *)
theory WireThms
  imports Consumer Decoded
begin

text \<open>
  The properties of the wire format and of playback: what one process marshals another reads back,
  field by field, and what a playback request returns.
\<close>

section \<open>Round trips\<close>

text \<open>
  The envelope survives the wire: a packet whose payload is JSON as the server marshals it is
  marshalled without an error, and unmarshalling gives back the type, the room and the raw payload.
\<close>

lemma packet_survives:
  assumes "packet_ok p"
  shows "\<exists>t. marshal_WsPacket p = Some t \<and> unmarshal_WsPacket t = (p, None)"
  using assms by (rule packet_roundtrip)

lemma packet_survives_example:
  "let p = \<lparr>wp_Type = TypeStats, wp_RoomID = ''a/b'', wp_Data = Some (marshal_StatsData \<lparr>sd_Online = 3, sd_Likes = 5\<rparr>)\<rparr>
   in \<exists>t. marshal_WsPacket p = Some t \<and> unmarshal_WsPacket t = (p, None)"
proof -
  let ?p = "\<lparr>wp_Type = TypeStats, wp_RoomID = ''a/b'', wp_Data = Some (marshal_StatsData \<lparr>sd_Online = 3, sd_Likes = 5\<rparr>)\<rparr>"
  have "valid_utf8 ''a/b''" by (rule valid_utf8_ascii) simp
  then have "packet_ok ?p" by (simp add: packet_ok_def carries_def TypeStats_def stats_payload)
  from packet_survives [OF this] show ?thesis by (simp add: Let_def)
qed

text \<open>
  A danmaku survives the wire with its content, its sender, its room and its time to the
  nanosecond and with its zone, whatever characters the content has.
\<close>

lemma danmaku_survives:
  assumes "danmaku_ok m"
  shows "\<exists>t. marshal_DanmakuMessage m = Some t \<and> unmarshal_DanmakuMessage t = (m, None)"
  using marshal_danmaku_text unmarshal_danmaku_text danmaku_ok_clean [OF assms] by simp

lemma danmaku_survives_example:
  "let m = zero_danmaku\<lparr>dm_RoomID := ''1001'', dm_UserID := 18446744073709551615, dm_Content := ''<&>''\<rparr>
   in \<exists>t. marshal_DanmakuMessage m = Some t \<and> unmarshal_DanmakuMessage t = (m, None)"
proof -
  let ?m = "zero_danmaku\<lparr>dm_RoomID := ''1001'', dm_UserID := 18446744073709551615, dm_Content := ''<&>''\<rparr>"
  have "valid_utf8 ''1001''" "valid_utf8 ''<&>''" by (rule valid_utf8_ascii, simp)+
  moreover have "valid_time zero_time" by code_simp
  ultimately have "danmaku_ok ?m" by (simp add: danmaku_ok_def zero_danmaku_def)
  from danmaku_survives [OF this] show ?thesis by (simp add: Let_def)
qed

lemma clean_fixed:
  "clean_packet p = p \<longleftrightarrow> valid_utf8 (wp_RoomID p)"
  "clean_danmaku m = m \<longleftrightarrow> valid_utf8 (dm_RoomID m) \<and> valid_utf8 (dm_Content m)"
  by (cases p, simp add: clean_packet_def clean_id) (cases m, simp add: clean_danmaku_def clean_id)

text \<open>
  The statistics survive the wire for all values of both counters, and so does a like's count.
\<close>

lemma counters_survive:
  "unmarshal_StatsData (marshal_StatsData s) = (s, None) \<and> unmarshal_Like (marshal_Like l) = (l, None)"
  using stats_roundtrip like_roundtrip by simp

text \<open>
  C27. Every encoding is undone by its decoding: an envelope whose payload is JSON as the code marshals
  it, a danmaku with all its fields, to the nanosecond and with its zone and whatever characters it
  has, the statistics and a like's count for all 64-bit values; neither side reports an error. Only
  bytes that are not UTF-8 do not survive: each becomes U+FFFD.
\<close>

theorem codecs_survive:
  assumes "carries p" and "valid_time (dm_SendTime m)"
  shows "(\<exists>t. marshal_WsPacket p = Some t \<and> unmarshal_WsPacket t = (clean_packet p, None)) \<and>
    (clean_packet p = p \<longleftrightarrow> valid_utf8 (wp_RoomID p)) \<and>
    (\<exists>t. marshal_DanmakuMessage m = Some t \<and> unmarshal_DanmakuMessage t = (clean_danmaku m, None)) \<and>
    (clean_danmaku m = m \<longleftrightarrow> valid_utf8 (dm_RoomID m) \<and> valid_utf8 (dm_Content m)) \<and>
    unmarshal_StatsData (marshal_StatsData s) = (s, None) \<and> unmarshal_Like (marshal_Like l) = (l, None)"
  using packet_cleaned [OF assms(1)] marshal_danmaku_text [OF assms(2)] unmarshal_danmaku_text [OF assms(2)]
    counters_survive [of s l] clean_fixed by blast

theorem codecs_survive_witness:
  "let m = zero_danmaku\<lparr>dm_RoomID := ''1001'', dm_UserID := 18446744073709551615, dm_Content := ''<&>''\<rparr>;
       p = \<lparr>wp_Type = TypeDanmaku, wp_RoomID = ''a/b'', wp_Data = marshal_DanmakuMessage m\<rparr>
   in (\<exists>t. marshal_WsPacket p = Some t \<and> unmarshal_WsPacket t = (p, None)) \<and>
      (\<exists>t. marshal_DanmakuMessage m = Some t \<and> unmarshal_DanmakuMessage t = (m, None))"
proof -
  let ?m = "zero_danmaku\<lparr>dm_RoomID := ''1001'', dm_UserID := 18446744073709551615, dm_Content := ''<&>''\<rparr>"
  have "valid_utf8 ''1001''" "valid_utf8 ''<&>''" "valid_utf8 ''a/b''" by (rule valid_utf8_ascii, simp)+
  moreover have "valid_time zero_time" by code_simp
  ultimately have m: "danmaku_ok ?m" and r: "valid_utf8 ''a/b''" by (simp_all add: danmaku_ok_def zero_danmaku_def)
  have "packet_ok \<lparr>wp_Type = TypeDanmaku, wp_RoomID = ''a/b'', wp_Data = marshal_DanmakuMessage ?m\<rparr>"
    using r danmaku_payload marshal_danmaku_text [OF danmaku_ok_clean(2) [OF m]] by (simp add: packet_ok_def carries_def TypeDanmaku_def)
  note p = packet_ok_clean [OF this]
  show ?thesis using codecs_survive [OF p(2) danmaku_ok_clean(2) [OF m]] p(1) danmaku_ok_clean(1) [OF m]
    by (simp add: Let_def)
qed

text \<open>
  C26. Whatever bytes arrive, and whether or not decoding them reports an error, the strings that come
  out of a danmaku or an envelope are well-formed UTF-8, the time is a date and time of the calendar
  (with a zone of at most 25 hours), and the type is an integer of 64 bits.
\<close>

theorem decoded_well_formed:
  "(let m = fst (unmarshal_DanmakuMessage t)
    in valid_utf8 (dm_RoomID m) \<and> valid_utf8 (dm_Content m) \<and> calendar_time (dm_SendTime m)) \<and>
   (let p = fst (unmarshal_WsPacket t) in valid_utf8 (wp_RoomID p) \<and> int64 (wp_Type p))"
  using danmaku_decoded packet_decoded by (simp add: danmaku_decoded_def packet_decoded_def Let_def)

section \<open>From the server's packet to the consumer's row\<close>

lemma parse_danmaku_packet:
  assumes "valid_time (dm_SendTime m)"
    and "marshal_DanmakuMessage m = Some v"
    and "marshal_WsPacket \<lparr>wp_Type = TypeDanmaku, wp_RoomID = r, wp_Data = Some v\<rparr> = Some t"
  shows "parseMessage t = Inr (Some (clean_danmaku m))"
proof -
  let ?p = "\<lparr>wp_Type = TypeDanmaku, wp_RoomID = r, wp_Data = Some v\<rparr>"
  have v: "v = object_text (danmaku_members m)" using marshal_danmaku_text [OF assms(1)] assms(2) by simp
  then have "carries ?p" using danmaku_payload by (simp add: carries_def TypeDanmaku_def)
  then have "unmarshal_WsPacket t = (clean_packet ?p, None)" using packet_cleaned assms(3) by fastforce
  then show ?thesis
    using unmarshal_danmaku_text [OF assms(1)] by (simp add: parseMessage_def raw_bytes_def clean_packet_def v)
qed

text \<open>
  End to end: the bytes of a danmaku packet, as the server marshals them for Kafka, are parsed
  by the consumer into the same danmaku, its strings made well-formed; neither side reports an error.
\<close>

lemma published_danmaku_parsed:
  assumes "valid_time (dm_SendTime m)"
  shows "\<exists>v t. marshal_DanmakuMessage m = Some v \<and>
    marshal_WsPacket \<lparr>wp_Type = TypeDanmaku, wp_RoomID = r, wp_Data = Some v\<rparr> = Some t \<and>
    parseMessage t = Inr (Some (clean_danmaku m))"
proof -
  let ?v = "object_text (danmaku_members m)"
  have v: "marshal_DanmakuMessage m = Some ?v" using assms by (rule marshal_danmaku_text)
  obtain t where "marshal_WsPacket \<lparr>wp_Type = TypeDanmaku, wp_RoomID = r, wp_Data = Some ?v\<rparr> = Some t"
    using marshal_packet_text danmaku_payload by fastforce
  with v parse_danmaku_packet [OF assms v] show ?thesis by blast
qed

lemma published_danmaku_parsed_example:
  "\<exists>t. parseMessage t = Inr (Some (zero_danmaku\<lparr>dm_Content := ''hello''\<rparr>))"
proof -
  have "valid_utf8 ''hello''" by (rule valid_utf8_ascii) simp
  then show ?thesis using published_danmaku_parsed [of "zero_danmaku\<lparr>dm_Content := ''hello''\<rparr>" "[]"]
    by (auto simp: zero_danmaku_def clean_danmaku_def)
qed

section \<open>Playback\<close>

definition playback_query :: "string \<Rightarrow> gotime \<Rightarrow> query" where
  "playback_query room start =
     \<lparr>q_where = (if \<not> IsZero start then [RoomIs room, SentSince start] else [RoomIs room]),
      q_order = Some Ascending, q_limit = defaultLimit\<rparr>"

lemma playback_sql:
  assumes "sql_find sql run_query rows" and "GetPlaybackDanmaku run_query db room start = (out, None)"
  shows "sql_answer sql (rows db) (playback_query room start) out"
proof -
  have "run_query db (playback_query room start) = (out, None)"
    using assms(2)
    by (simp add: GetPlaybackDanmaku_def GetPlayBackDanmaku_def Let_def playback_query_def split: if_splits)
  then show ?thesis
    using assms(1) unfolding sql_find_def by (simp add: playback_query_def defaultLimit_def)
qed

text \<open>The danmaku asked for, as the database compares.\<close>

definition asked :: "sql_dialect \<Rightarrow> string \<Rightarrow> gotime \<Rightarrow> DanmakuMessage \<Rightarrow> bool" where
  "asked sql room start m \<longleftrightarrow>
     sq_same sql (dm_RoomID m) room \<and> (IsZero start \<or> sq_time sql start \<le> sq_time sql (dm_SendTime m))"

lemma playback_matches:
  "(\<forall>w \<in> set (q_where (playback_query room start)). matches sql w m) \<longleftrightarrow> asked sql room start m"
  by (auto simp: playback_query_def asked_def)

definition demo_row :: DanmakuMessage where
  "demo_row = zero_danmaku\<lparr>dm_RoomID := ''r''\<rparr>"

text \<open>On a database that ignores case the room is found under another name, too.\<close>

lemma demo_playback:
  "GetPlaybackDanmaku (list_find caseless_sql) [zero_danmaku, demo_row] ''R'' zero_time = ([demo_row], None)"
  by code_simp

text \<open>A playback answer is within what was asked for.\<close>

lemma playback_within:
  assumes "sql_find sql run_query rows" and "GetPlaybackDanmaku run_query db room start = (out, None)"
  shows "length out \<le> 100 \<and> sorted (map (sq_time sql \<circ> dm_SendTime) out) \<and>
    list_all (\<lambda>m. m \<in> set (rows db) \<and> asked sql room start m) out"
proof -
  note a = playback_sql [OF assms]
  then obtain rest where "sorted_wrt (may_precede sql (Some Ascending)) out"
    and "length out = min (nat (q_limit (playback_query room start)))
      (length (filter (\<lambda>m. \<forall>w \<in> set (q_where (playback_query room start)). matches sql w m) (rows db)))"
    unfolding sql_answer_def Let_def by (auto simp: playback_query_def)
  moreover have "may_precede sql (Some Ascending) =
      (\<lambda>m n. sq_time sql (dm_SendTime m) \<le> sq_time sql (dm_SendTime n))" by (intro ext) simp
  ultimately have "length out \<le> 100" "sorted (map (sq_time sql \<circ> dm_SendTime) out)"
    by (simp_all add: playback_query_def defaultLimit_def sorted_map)
  with sql_answer_hit [OF a] show ?thesis by (auto simp: list_all_iff playback_matches)
qed

text \<open>What is left out is at least as recent as all that is not.\<close>

lemma playback_oldest:
  assumes "sql_find sql run_query rows" and "GetPlaybackDanmaku run_query db room start = (out, None)"
    and "m \<in> set (rows db)" and "asked sql room start m"
  shows "m \<in> set out \<or>
    length out = 100 \<and> list_all (\<lambda>k. sq_time sql (dm_SendTime k) \<le> sq_time sql (dm_SendTime m)) out"
proof -
  let ?hits = "filter (\<lambda>m. \<forall>w \<in> set (q_where (playback_query room start)). matches sql w m) (rows db)"
  obtain rest where ms: "mset (out @ rest) = mset ?hits"
    and older: "\<forall>k \<in> set out. \<forall>n \<in> set rest. sq_time sql (dm_SendTime k) \<le> sq_time sql (dm_SendTime n)"
    and len: "length out = min (nat (q_limit (playback_query room start))) (length ?hits)"
    using playback_sql [OF assms(1,2)] unfolding sql_answer_def Let_def by (auto simp: playback_query_def)
  have "m \<in> set ?hits" using assms(3,4) playback_matches by simp
  then have m: "m \<in> set out \<or> m \<in> set rest"
    using mset_eq_setD [OF ms] by (metis Un_iff set_append)
  show ?thesis
  proof (cases "m \<in> set out")
    case False
    then have "rest \<noteq> []" using m by auto
    then have "length out < length ?hits" using mset_eq_length [OF ms] by (cases rest) simp_all
    then have "length out = 100" using len by (simp add: playback_query_def defaultLimit_def)
    then show ?thesis using False m older by (auto simp: list_all_iff)
  qed simp
qed

text \<open>
  C40. A playback answer, on a database that answers queries as SQL does, with whatever collation and
  time conversion: at most 100 danmaku, all of them stored ones whose room the collation takes for the
  one asked for and which, unless the start time is the zero time, were not sent before it; oldest
  first. And it is the oldest ones that are handed out, not the latest: a danmaku asked for that is not
  in the answer is at least as recent as all that are, and is left out only when the answer is full.
\<close>

theorem playback_answer:
  assumes "sql_find sql run_query rows" and "GetPlaybackDanmaku run_query db room start = (out, None)"
  shows "length out \<le> 100 \<and> sorted (map (sq_time sql \<circ> dm_SendTime) out) \<and>
    list_all (\<lambda>m. m \<in> set (rows db) \<and> sq_same sql (dm_RoomID m) room \<and>
      (IsZero start \<or> sq_time sql start \<le> sq_time sql (dm_SendTime m))) out \<and>
    list_all (\<lambda>m. sq_same sql (dm_RoomID m) room \<and>
      (IsZero start \<or> sq_time sql start \<le> sq_time sql (dm_SendTime m)) \<longrightarrow>
      m \<in> set out \<or>
      length out = 100 \<and> list_all (\<lambda>k. sq_time sql (dm_SendTime k) \<le> sq_time sql (dm_SendTime m)) out) (rows db)"
  using playback_within [OF assms] playback_oldest [OF assms] unfolding list_all_iff asked_def by meson

theorem playback_answer_witness:
  "GetPlaybackDanmaku (list_find caseless_sql) [zero_danmaku, demo_row] ''R'' zero_time = ([demo_row], None) \<and>
   fold_case (dm_RoomID demo_row) = fold_case ''R''"
  using playback_answer [OF list_find_sql demo_playback] demo_playback by (simp add: caseless_sql_def)

end
