(* ===== verification/ConsumerSys.thy ===== *)
theory ConsumerSys
  imports Consumer
begin

text \<open>
  The consumer as a whole: the session life cycle Sarama drives (\<open>Setup\<close>, one \<open>ConsumeClaim\<close>
  goroutine per partition, \<open>Cleanup\<close>), the channel between them and the worker, and the database.
  Every operation of the handler is a function from the state to the next state, \<open>None\<close> where the
  goroutine has to wait; \<open>cstep\<close> interleaves them with what the environment does.
\<close>

section \<open>State\<close>

text \<open>Where a \<open>ConsumeClaim\<close> goroutine stands.\<close>

datatype claim_pc = CIdle | CSelect | CSending string danmaku_ptr | CMarking string | CReturned

datatype phase = Outside | InSession | Cleaning

text \<open>
  Beside the handler's fields and the goroutines' positions: per partition the messages Kafka has
  delivered to the claim and the handler has not read, whether the claim's channel is closed, and
  the messages marked in this session, in order; whether the process has panicked. The last five
  fields only record history: what Kafka delivered to a claim in this session, what the claim sent
  on the channel in this session, everything ever sent on it, every flush, and how often
  \<open>Cleanup\<close> has closed the channel.
\<close>

record 'db csys =
  cs_batchSize :: int
  cs_msgChan :: "danmaku_ptr gochan"
  cs_claims :: "nat \<Rightarrow> string list"
  cs_claim_closed :: "nat \<Rightarrow> bool"
  cs_pc :: "nat \<Rightarrow> claim_pc"
  cs_worker :: worker
  cs_ctx_done :: bool
  cs_phase :: phase
  cs_db :: 'db
  cs_marked :: "nat \<Rightarrow> string list"
  cs_panicked :: bool
  cs_delivered :: "nat \<Rightarrow> string list"
  cs_handed :: "nat \<Rightarrow> danmaku_ptr list"
  cs_sent :: "danmaku_ptr list"
  cs_flushed :: "flush_record list"
  cs_closes :: nat

definition NewDanmakuHandler :: "'db \<Rightarrow> int \<Rightarrow> 'db csys" where
  "NewDanmakuHandler db batchSize =
     \<lparr>cs_batchSize = batchSize, cs_msgChan = make_chan ChannelBufferSize,
      cs_claims = (\<lambda>_. []), cs_claim_closed = (\<lambda>_. False), cs_pc = (\<lambda>_. CIdle),
      cs_worker = WExited, cs_ctx_done = False, cs_phase = Outside, cs_db = db,
      cs_marked = (\<lambda>_. []), cs_panicked = False, cs_delivered = (\<lambda>_. []), cs_handed = (\<lambda>_. []),
      cs_sent = [], cs_flushed = [], cs_closes = 0\<rparr>"

section \<open>Operations\<close>

text \<open>\<open>Setup\<close> starts the worker of a new session, on the handler's one channel.\<close>

definition Setup :: "'db csys \<Rightarrow> 'db csys option" where
  "Setup s =
     (if cs_phase s \<noteq> Outside then None
      else (case dbWorker_start (cs_batchSize s) of
              None \<Rightarrow> Some (s\<lparr>cs_panicked := True\<rparr>)
            | Some w \<Rightarrow> Some (s\<lparr>cs_phase := InSession, cs_ctx_done := False, cs_worker := w\<rparr>)))"

text \<open>\<open>Cleanup\<close>: close the channel (a second close panics), then wait for the worker.\<close>

definition Cleanup_close :: "'db csys \<Rightarrow> 'db csys option" where
  "Cleanup_close s =
     (if cs_phase s = InSession then
        (case close_chan (cs_msgChan s) of
           None \<Rightarrow> Some (s\<lparr>cs_panicked := True\<rparr>)
         | Some ch \<Rightarrow> Some (s\<lparr>cs_msgChan := ch, cs_phase := Cleaning, cs_closes := Suc (cs_closes s)\<rparr>))
      else None)"

definition Cleanup_wait :: "'db csys \<Rightarrow> 'db csys option" where
  "Cleanup_wait s =
     (if cs_phase s = Cleaning \<and> cs_worker s = WExited
      then Some (s\<lparr>cs_phase := Outside, cs_pc := (\<lambda>_. CIdle)\<rparr>) else None)"

text \<open>\<open>ConsumeClaim\<close>, from one blocking point to the next.\<close>

definition ConsumeClaim_recv :: "nat \<Rightarrow> 'db csys \<Rightarrow> 'db csys option" where
  "ConsumeClaim_recv p s =
     (if cs_pc s p \<noteq> CSelect then None
      else (case cs_claims s p of
              [] \<Rightarrow>
                if cs_claim_closed s p then Some (s\<lparr>cs_pc := (cs_pc s)(p := CReturned)\<rparr>) else None
            | msg # rest \<Rightarrow>
                (case parseMessage msg of
                   Inl err \<Rightarrow>
                     Some (s\<lparr>cs_claims := (cs_claims s)(p := rest),
                             cs_marked := (cs_marked s)(p := cs_marked s p @ [msg])\<rparr>)
                 | Inr danmaku \<Rightarrow>
                     Some (s\<lparr>cs_claims := (cs_claims s)(p := rest),
                             cs_pc := (cs_pc s)(p := CSending msg danmaku)\<rparr>))))"

definition ConsumeClaim_send :: "nat \<Rightarrow> 'db csys \<Rightarrow> 'db csys option" where
  "ConsumeClaim_send p s =
     (case cs_pc s p of
        CSending msg danmaku \<Rightarrow>
          (case send_chan danmaku (cs_msgChan s) of
             Sent ch \<Rightarrow>
               Some (s\<lparr>cs_msgChan := ch, cs_sent := cs_sent s @ [danmaku],
                       cs_handed := (cs_handed s)(p := cs_handed s p @ [danmaku]),
                       cs_pc := (cs_pc s)(p := CMarking msg)\<rparr>)
           | SendBlocks \<Rightarrow> None
           | SendPanics \<Rightarrow> Some (s\<lparr>cs_panicked := True\<rparr>))
      | _ \<Rightarrow> None)"

definition ConsumeClaim_mark :: "nat \<Rightarrow> 'db csys \<Rightarrow> 'db csys option" where
  "ConsumeClaim_mark p s =
     (case cs_pc s p of
        CMarking msg \<Rightarrow>
          Some (s\<lparr>cs_marked := (cs_marked s)(p := cs_marked s p @ [msg]),
                  cs_pc := (cs_pc s)(p := CSelect)\<rparr>)
      | _ \<Rightarrow> None)"

definition ConsumeClaim_done :: "nat \<Rightarrow> 'db csys \<Rightarrow> 'db csys option" where
  "ConsumeClaim_done p s =
     (case cs_pc s p of
        CSelect \<Rightarrow> if cs_ctx_done s then Some (s\<lparr>cs_pc := (cs_pc s)(p := CReturned)\<rparr>) else None
      | CSending _ _ \<Rightarrow>
          if cs_ctx_done s then Some (s\<lparr>cs_pc := (cs_pc s)(p := CReturned)\<rparr>) else None
      | _ \<Rightarrow> None)"

text \<open>
  \<open>dbWorker\<close>: one round for an event. The context may be cancelled while a flush backs off; a flush
  that gave up has seen that, so the context is done afterwards.
\<close>

definition apply_round ::
  "('db, 'e) insert_op \<Rightarrow> (nat \<Rightarrow> bool) \<Rightarrow> worker_event \<Rightarrow> danmaku_ptr list \<Rightarrow> 'db csys \<Rightarrow> 'db csys" where
  "apply_round ins cancelled ev b s =
     (case dbWorker_round ins (cs_batchSize s) cancelled ev b (cs_db s) of
        (w, db', fs) \<Rightarrow>
          s\<lparr>cs_worker := w, cs_db := db', cs_flushed := cs_flushed s @ fs,
            cs_ctx_done := (cs_ctx_done s \<or> (\<exists>f \<in> set fs. snd f = FlushAborted))\<rparr>)"

definition dbWorker_recv ::
  "('db, 'e) insert_op \<Rightarrow> (nat \<Rightarrow> bool) \<Rightarrow> 'db csys \<Rightarrow> 'db csys option" where
  "dbWorker_recv ins cancelled s =
     (case cs_worker s of
        WExited \<Rightarrow> None
      | WRunning b \<Rightarrow>
          (case recv_chan (cs_msgChan s) of
             Received msg ch \<Rightarrow>
               Some (apply_round ins cancelled (WMessage msg) b (s\<lparr>cs_msgChan := ch\<rparr>))
           | RecvClosed \<Rightarrow> Some (apply_round ins cancelled WChanClosed b s)
           | RecvBlocks \<Rightarrow> None))"

definition dbWorker_tick ::
  "('db, 'e) insert_op \<Rightarrow> (nat \<Rightarrow> bool) \<Rightarrow> 'db csys \<Rightarrow> 'db csys option" where
  "dbWorker_tick ins cancelled s =
     (case cs_worker s of
        WExited \<Rightarrow> None
      | WRunning b \<Rightarrow> Some (apply_round ins cancelled WTick b s))"

definition dbWorker_done :: "('db, 'e) insert_op \<Rightarrow> 'db csys \<Rightarrow> 'db csys option" where
  "dbWorker_done ins s =
     (case cs_worker s of
        WExited \<Rightarrow> None
      | WRunning b \<Rightarrow>
          if cs_ctx_done s then Some (apply_round ins (\<lambda>_. False) WCtxDone b s) else None)"

section \<open>Interleaving\<close>

text \<open>A goroutine that has ended, or was never started.\<close>

definition claim_over :: "claim_pc \<Rightarrow> bool" where
  "claim_over pc \<longleftrightarrow> pc = CIdle \<or> pc = CReturned"

text \<open>Once the context is done every back-off sees it.\<close>

definition sees_ctx :: "'db csys \<Rightarrow> (nat \<Rightarrow> bool) \<Rightarrow> bool" where
  "sees_ctx s cancelled \<longleftrightarrow> (cs_ctx_done s \<longrightarrow> (\<forall>i. cancelled i))"

text \<open>What Sarama does: it opens a claim with no marks of its own, and delivers messages.\<close>

definition open_claim :: "nat \<Rightarrow> 'db csys \<Rightarrow> 'db csys" where
  "open_claim p s =
     s\<lparr>cs_pc := (cs_pc s)(p := CSelect), cs_claims := (cs_claims s)(p := []),
       cs_claim_closed := (cs_claim_closed s)(p := False), cs_marked := (cs_marked s)(p := []),
       cs_delivered := (cs_delivered s)(p := []), cs_handed := (cs_handed s)(p := [])\<rparr>"

definition deliver_msg :: "nat \<Rightarrow> string \<Rightarrow> 'db csys \<Rightarrow> 'db csys" where
  "deliver_msg p msg s =
     s\<lparr>cs_claims := (cs_claims s)(p := cs_claims s p @ [msg]),
       cs_delivered := (cs_delivered s)(p := cs_delivered s p @ [msg])\<rparr>"

text \<open>
  The first four rules are Sarama's: it starts the claims of a session, delivers messages, closes
  a claim's channel, cancels the session's context. It calls \<open>Cleanup\<close> when every \<open>ConsumeClaim\<close>
  has returned, and \<open>Setup\<close> again when the next \<open>Consume\<close> of the main loop joins a new session.
  A panic ends the process.
\<close>

inductive cstep :: "('db, 'e) insert_op \<Rightarrow> 'db csys \<Rightarrow> 'db csys \<Rightarrow> bool" for ins where
  claim_opens: "\<not> cs_panicked s \<Longrightarrow> cs_phase s = InSession \<Longrightarrow> cs_pc s p = CIdle \<Longrightarrow>
    cstep ins s (open_claim p s)"
| message_delivered: "\<not> cs_panicked s \<Longrightarrow> \<not> cs_claim_closed s p \<Longrightarrow> cs_pc s p \<noteq> CIdle \<Longrightarrow>
    cstep ins s (deliver_msg p msg s)"
| claim_closes: "\<not> cs_panicked s \<Longrightarrow>
    cstep ins s (s\<lparr>cs_claim_closed := (cs_claim_closed s)(p := True)\<rparr>)"
| context_cancelled: "\<not> cs_panicked s \<Longrightarrow> cs_phase s = InSession \<Longrightarrow>
    cstep ins s (s\<lparr>cs_ctx_done := True\<rparr>)"
| session_setup: "\<not> cs_panicked s \<Longrightarrow> Setup s = Some t \<Longrightarrow> cstep ins s t"
| claim_recv: "\<not> cs_panicked s \<Longrightarrow> ConsumeClaim_recv p s = Some t \<Longrightarrow> cstep ins s t"
| claim_send: "\<not> cs_panicked s \<Longrightarrow> ConsumeClaim_send p s = Some t \<Longrightarrow> cstep ins s t"
| claim_mark: "\<not> cs_panicked s \<Longrightarrow> ConsumeClaim_mark p s = Some t \<Longrightarrow> cstep ins s t"
| claim_done: "\<not> cs_panicked s \<Longrightarrow> ConsumeClaim_done p s = Some t \<Longrightarrow> cstep ins s t"
| worker_recv: "\<not> cs_panicked s \<Longrightarrow> sees_ctx s cancelled \<Longrightarrow> dbWorker_recv ins cancelled s = Some t \<Longrightarrow>
    cstep ins s t"
| worker_tick: "\<not> cs_panicked s \<Longrightarrow> sees_ctx s cancelled \<Longrightarrow> dbWorker_tick ins cancelled s = Some t \<Longrightarrow>
    cstep ins s t"
| worker_done: "\<not> cs_panicked s \<Longrightarrow> dbWorker_done ins s = Some t \<Longrightarrow> cstep ins s t"
| cleanup_close: "\<not> cs_panicked s \<Longrightarrow> (\<forall>p. claim_over (cs_pc s p)) \<Longrightarrow> Cleanup_close s = Some t \<Longrightarrow>
    cstep ins s t"
| cleanup_wait: "\<not> cs_panicked s \<Longrightarrow> Cleanup_wait s = Some t \<Longrightarrow> cstep ins s t"

end
