(* ===== verification/ConsumerInv.thy ===== *)
theory ConsumerInv
  imports ConsumerSys "HOL-Library.Sublist"
begin

text \<open>
  The invariant of the consumer, one definition per conjunct, each on the fields it speaks of, and
  the proof that every step keeps it: nothing is lost, duplicated or reordered between the claims
  and the flushes, marks follow the order of delivery without a gap, the channel and the batches
  keep their bounds.
\<close>

section \<open>The invariant\<close>

text \<open>What the messages of a claim put on the channel.\<close>

definition accepted :: "string list \<Rightarrow> danmaku_ptr list" where
  "accepted ms = concat (map (\<lambda>m. case parseMessage m of Inl _ \<Rightarrow> [] | Inr d \<Rightarrow> [d]) ms)"

text \<open>Everything sent has been flushed, is in the worker's buffer, or is still in the channel.\<close>

definition inv_conserve ::
  "danmaku_ptr list \<Rightarrow> flush_record list \<Rightarrow> worker \<Rightarrow> danmaku_ptr gochan \<Rightarrow> bool" where
  "inv_conserve sent flushed w ch \<longleftrightarrow> sent = concat (map fst flushed) @ worker_buf w @ ch_buf ch"

text \<open>
  The messages of a claim are marked in the order of delivery, with no gap: between the marks and
  what is still to be read there is at most the one message the goroutine works on. The message of a
  goroutine that returned while it waited to send is not marked. The claim has sent the parse
  results of what it marked, and of the message it is about to mark.
\<close>

definition claim_inv ::
  "claim_pc \<Rightarrow> string list \<Rightarrow> string list \<Rightarrow> string list \<Rightarrow> danmaku_ptr list \<Rightarrow> bool" where
  "claim_inv pc delivered marked unread handed \<longleftrightarrow>
     (case pc of
        CIdle \<Rightarrow> handed = accepted marked
      | CSelect \<Rightarrow> delivered = marked @ unread \<and> handed = accepted marked
      | CSending m d \<Rightarrow>
          delivered = marked @ m # unread \<and> handed = accepted marked \<and> parseMessage m = Inr d
      | CMarking m \<Rightarrow> delivered = marked @ m # unread \<and> handed = accepted (marked @ [m])
      | CReturned \<Rightarrow>
          (\<exists>mid. length mid \<le> 1 \<and> delivered = marked @ mid @ unread) \<and> handed = accepted marked)"

definition inv_claims ::
  "(nat \<Rightarrow> claim_pc) \<Rightarrow> (nat \<Rightarrow> string list) \<Rightarrow> (nat \<Rightarrow> string list) \<Rightarrow> (nat \<Rightarrow> string list) \<Rightarrow>
   (nat \<Rightarrow> danmaku_ptr list) \<Rightarrow> bool" where
  "inv_claims pc delivered marked unread handed \<longleftrightarrow>
     (\<forall>p. claim_inv (pc p) (delivered p) (marked p) (unread p) (handed p))"

definition inv_handed :: "(nat \<Rightarrow> danmaku_ptr list) \<Rightarrow> danmaku_ptr list \<Rightarrow> bool" where
  "inv_handed handed sent \<longleftrightarrow> (\<forall>p. subseq (handed p) sent)"

definition inv_chan :: "danmaku_ptr gochan \<Rightarrow> nat \<Rightarrow> bool" where
  "inv_chan ch closes \<longleftrightarrow>
     ch_cap ch = ChannelBufferSize \<and> length (ch_buf ch) \<le> ch_cap ch \<and>
     (ch_closed ch \<longleftrightarrow> 0 < closes) \<and> closes \<le> 1"

definition inv_batch :: "int \<Rightarrow> worker \<Rightarrow> flush_record list \<Rightarrow> bool" where
  "inv_batch n w flushed \<longleftrightarrow>
     int (length (worker_buf w)) < batch_limit n \<and>
     (\<forall>f \<in> set flushed. int (length (fst f)) \<le> batch_limit n)"

text \<open>
  Outside a session no goroutine of the handler runs, while \<open>Cleanup\<close> waits no claim does, and the
  worker of a session ends only when its context is done or its channel is closed and empty.
\<close>

definition inv_phase ::
  "phase \<Rightarrow> worker \<Rightarrow> (nat \<Rightarrow> claim_pc) \<Rightarrow> bool \<Rightarrow> danmaku_ptr gochan \<Rightarrow> bool" where
  "inv_phase ph w pc ctx ch \<longleftrightarrow>
     (ph = Outside \<longrightarrow> w = WExited) \<and>
     (ph \<noteq> InSession \<longrightarrow> (\<forall>p. claim_over (pc p))) \<and>
     (ph = Cleaning \<longrightarrow> ch_closed ch) \<and>
     (ph \<noteq> Outside \<and> w = WExited \<longrightarrow> ctx \<or> ch_closed ch \<and> ch_buf ch = [])"

definition cinv :: "'db csys \<Rightarrow> bool" where
  "cinv s \<longleftrightarrow>
     inv_conserve (cs_sent s) (cs_flushed s) (cs_worker s) (cs_msgChan s) \<and>
     inv_claims (cs_pc s) (cs_delivered s) (cs_marked s) (cs_claims s) (cs_handed s) \<and>
     inv_handed (cs_handed s) (cs_sent s) \<and>
     inv_chan (cs_msgChan s) (cs_closes s) \<and>
     inv_batch (cs_batchSize s) (cs_worker s) (cs_flushed s) \<and>
     inv_phase (cs_phase s) (cs_worker s) (cs_pc s) (cs_ctx_done s) (cs_msgChan s)"

section \<open>Helper facts\<close>

lemma accepted_simps [simp]:
  "accepted [] = []"
  "accepted (xs @ ys) = accepted xs @ accepted ys"
  by (simp_all add: accepted_def)

lemma accepted_Inl [simp]: "parseMessage m = Inl e \<Longrightarrow> accepted [m] = []"
  by (simp add: accepted_def)

lemma accepted_Inr [simp]: "parseMessage m = Inr d \<Longrightarrow> accepted [m] = [d]"
  by (simp add: accepted_def)

lemma subseq_snoc: "subseq xs ys \<Longrightarrow> subseq (xs @ [a]) (ys @ [a])"
  by (simp add: list_emb_append_mono)

lemma batch_limit_pos [simp]: "0 < batch_limit n"
  by (simp add: batch_limit_def)

lemma inv_claimsI:
  assumes "inv_claims pc dl mk cl h"
    and "claim_inv (pc' p) (dl' p) (mk' p) (cl' p) (h' p)"
    and "\<And>q. q \<noteq> p \<Longrightarrow> pc' q = pc q \<and> dl' q = dl q \<and> mk' q = mk q \<and> cl' q = cl q \<and> h' q = h q"
  shows "inv_claims pc' dl' mk' cl' h'"
  using assms unfolding inv_claims_def by metis

lemma inv_claims_at: "inv_claims pc dl mk cl h \<Longrightarrow> claim_inv (pc p) (dl p) (mk p) (cl p) (h p)"
  by (simp add: inv_claims_def)

lemma inv_claims_open:
  "inv_claims pc dl mk cl h \<Longrightarrow>
   inv_claims (pc(p := CSelect)) (dl(p := [])) (mk(p := [])) (cl(p := [])) (h(p := []))"
  by (erule inv_claimsI [where p = p]) (auto simp: claim_inv_def)

lemma inv_claims_deliver:
  "inv_claims pc dl mk cl h \<Longrightarrow> pc p \<noteq> CIdle \<Longrightarrow>
   inv_claims pc (dl(p := dl p @ [m])) mk (cl(p := cl p @ [m])) h"
  by (frule inv_claims_at [where p = p], erule inv_claimsI [where p = p])
     (auto simp: claim_inv_def split: claim_pc.splits)

lemma inv_claims_skip:
  "inv_claims pc dl mk cl h \<Longrightarrow> pc p = CSelect \<Longrightarrow> cl p = m # rest \<Longrightarrow> parseMessage m = Inl e \<Longrightarrow>
   inv_claims pc dl (mk(p := mk p @ [m])) (cl(p := rest)) h"
  by (frule inv_claims_at [where p = p], erule inv_claimsI [where p = p])
     (auto simp: claim_inv_def)

lemma inv_claims_take:
  "inv_claims pc dl mk cl h \<Longrightarrow> pc p = CSelect \<Longrightarrow> cl p = m # rest \<Longrightarrow> parseMessage m = Inr d \<Longrightarrow>
   inv_claims (pc(p := CSending m d)) dl mk (cl(p := rest)) h"
  by (frule inv_claims_at [where p = p], erule inv_claimsI [where p = p])
     (auto simp: claim_inv_def)

lemma inv_claims_send:
  "inv_claims pc dl mk cl h \<Longrightarrow> pc p = CSending m d \<Longrightarrow>
   inv_claims (pc(p := CMarking m)) dl mk cl (h(p := h p @ [d]))"
  by (frule inv_claims_at [where p = p], erule inv_claimsI [where p = p])
     (auto simp: claim_inv_def)

lemma inv_claims_mark:
  "inv_claims pc dl mk cl h \<Longrightarrow> pc p = CMarking m \<Longrightarrow>
   inv_claims (pc(p := CSelect)) dl (mk(p := mk p @ [m])) cl h"
  by (frule inv_claims_at [where p = p], erule inv_claimsI [where p = p])
     (auto simp: claim_inv_def)

lemma inv_claims_return:
  "inv_claims pc dl mk cl h \<Longrightarrow> pc p = CSelect \<or> pc p = CSending m d \<Longrightarrow>
   inv_claims (pc(p := CReturned)) dl mk cl h"
  by (frule inv_claims_at [where p = p], erule inv_claimsI [where p = p])
     (auto simp: claim_inv_def intro: exI [of _ "[]"] exI [of _ "[m]"])

lemma claim_inv_idle: "claim_over pc \<Longrightarrow> claim_inv pc dl mk cl h \<Longrightarrow> claim_inv CIdle dl mk cl h"
  by (auto simp: claim_over_def claim_inv_def)

lemma inv_claims_idle:
  "inv_claims pc dl mk cl h \<Longrightarrow> \<forall>p. claim_over (pc p) \<Longrightarrow> inv_claims (\<lambda>_. CIdle) dl mk cl h"
  unfolding inv_claims_def using claim_inv_idle by blast

lemma inv_handed_send:
  "inv_handed h sent \<Longrightarrow> inv_handed (h(p := h p @ [d])) (sent @ [d])"
  by (auto simp: inv_handed_def subseq_snoc)

lemma inv_handed_reset: "inv_handed h sent \<Longrightarrow> inv_handed (h(p := [])) sent"
  by (simp add: inv_handed_def)

lemma inv_phase_pc:
  "inv_phase ph w pc ctx ch \<Longrightarrow> \<not> claim_over (pc p) \<or> ph = InSession \<Longrightarrow>
   inv_phase ph w (pc(p := x)) ctx ch"
  by (auto simp: inv_phase_def)

section \<open>Every operation keeps it\<close>

lemma cinv_init: "cinv (NewDanmakuHandler db n)"
  by (simp add: cinv_def inv_conserve_def inv_claims_def claim_inv_def inv_handed_def inv_chan_def
      inv_batch_def inv_phase_def NewDanmakuHandler_def claim_over_def)

lemma cinv_open_claim: "cinv s \<Longrightarrow> cs_phase s = InSession \<Longrightarrow> cinv (open_claim p s)"
  by (simp add: cinv_def open_claim_def inv_claims_open inv_handed_reset inv_phase_pc)

lemma cinv_deliver: "cinv s \<Longrightarrow> cs_pc s p \<noteq> CIdle \<Longrightarrow> cinv (deliver_msg p msg s)"
  by (simp add: cinv_def deliver_msg_def inv_claims_deliver)

lemma cinv_ctx: "cinv s \<Longrightarrow> cinv (s\<lparr>cs_ctx_done := True\<rparr>)"
  by (simp add: cinv_def inv_phase_def)

lemma cinv_claim_closed: "cinv s \<Longrightarrow> cinv (s\<lparr>cs_claim_closed := c\<rparr>)"
  by (simp add: cinv_def)

lemma cinv_panic: "cinv s \<Longrightarrow> cinv (s\<lparr>cs_panicked := True\<rparr>)"
  by (simp add: cinv_def)

lemma cinv_Setup:
  assumes "cinv s" and "Setup s = Some t"
  shows "cinv t"
proof (cases "cs_batchSize s < 0")
  case True
  with assms have "t = s\<lparr>cs_panicked := True\<rparr>"
    by (auto simp: Setup_def dbWorker_start_def split: if_splits)
  with assms(1) show ?thesis by (simp add: cinv_panic)
next
  case False
  then have "cs_phase s = Outside"
    and t: "t = s\<lparr>cs_phase := InSession, cs_ctx_done := False, cs_worker := WRunning []\<rparr>"
    using assms(2) by (auto simp: Setup_def dbWorker_start_def split: if_splits)
  moreover from this have "cs_worker s = WExited" using assms(1) by (simp add: cinv_def inv_phase_def)
  ultimately show ?thesis
    using assms(1)
    by (simp add: t cinv_def inv_batch_def inv_phase_def) (simp add: inv_conserve_def)
qed

lemma cinv_Cleanup_close:
  "cinv s \<Longrightarrow> (\<forall>p. claim_over (cs_pc s p)) \<Longrightarrow> Cleanup_close s = Some t \<Longrightarrow> cinv t"
  by (auto simp: Cleanup_close_def chan_simps cinv_def inv_conserve_def inv_chan_def inv_phase_def
      split: if_splits option.splits)

lemma cinv_Cleanup_wait: "cinv s \<Longrightarrow> Cleanup_wait s = Some t \<Longrightarrow> cinv t"
  by (auto simp: Cleanup_wait_def cinv_def inv_phase_def claim_over_def [of CIdle]
      intro: inv_claims_idle split: if_splits)

lemma cinv_ConsumeClaim_recv: "cinv s \<Longrightarrow> ConsumeClaim_recv p s = Some t \<Longrightarrow> cinv t"
  by (auto simp: ConsumeClaim_recv_def cinv_def claim_over_def inv_claims_skip inv_claims_take
      inv_claims_return intro!: inv_phase_pc split: if_splits list.splits sum.splits)

lemma cinv_ConsumeClaim_mark: "cinv s \<Longrightarrow> ConsumeClaim_mark p s = Some t \<Longrightarrow> cinv t"
  by (auto simp: ConsumeClaim_mark_def cinv_def claim_over_def inv_claims_mark
      intro!: inv_phase_pc split: claim_pc.splits)

lemma cinv_ConsumeClaim_done: "cinv s \<Longrightarrow> ConsumeClaim_done p s = Some t \<Longrightarrow> cinv t"
  by (auto simp: ConsumeClaim_done_def cinv_def claim_over_def inv_claims_return
      intro!: inv_phase_pc split: claim_pc.splits if_splits)

lemma cinv_ConsumeClaim_send:
  assumes "cinv s" and "ConsumeClaim_send p s = Some t"
  shows "cinv t"
proof -
  obtain msg d where pc: "cs_pc s p = CSending msg d"
    using assms(2) by (auto simp: ConsumeClaim_send_def split: claim_pc.splits)
  then have busy: "\<not> claim_over (cs_pc s p)" by (simp add: claim_over_def)
  then have ph: "cs_phase s = InSession"
    using assms(1) by (auto simp: cinv_def inv_phase_def)
  show ?thesis
  proof (cases "send_chan d (cs_msgChan s)")
    case (Sent ch)
    then have t: "t = s\<lparr>cs_msgChan := ch, cs_sent := cs_sent s @ [d],
        cs_handed := (cs_handed s)(p := cs_handed s p @ [d]), cs_pc := (cs_pc s)(p := CMarking msg)\<rparr>"
      using assms(2) pc by (simp add: ConsumeClaim_send_def)
    have "inv_conserve (cs_sent t) (cs_flushed t) (cs_worker t) (cs_msgChan t)"
      using assms(1) Sent by (simp add: t cinv_def inv_conserve_def chan.snd_items)
    moreover have "inv_chan ch (cs_closes s)"
      using assms(1) Sent chan.snd_within [OF Sent] chan.snd_bound [OF Sent]
      by (auto simp: cinv_def inv_chan_def chan_simps)
    moreover have "inv_phase (cs_phase s) (cs_worker s) ((cs_pc s)(p := CMarking msg)) (cs_ctx_done s) ch"
      using assms(1) Sent ph by (auto simp: cinv_def inv_phase_def chan_simps)
    ultimately show ?thesis
      using assms(1) pc by (simp add: t cinv_def inv_claims_send inv_handed_send)
  next
    case SendBlocks
    then show ?thesis using assms(2) pc by (simp add: ConsumeClaim_send_def)
  next
    case SendPanics
    then show ?thesis using assms pc by (auto simp: ConsumeClaim_send_def cinv_panic)
  qed
qed

section \<open>The worker keeps it\<close>

lemma apply_round_fields:
  assumes "dbWorker_round ins (cs_batchSize s) c ev b (cs_db s) = (w, db', fs)"
  shows "apply_round ins c ev b s =
    s\<lparr>cs_worker := w, cs_db := db', cs_flushed := cs_flushed s @ fs,
      cs_ctx_done := (cs_ctx_done s \<or> (\<exists>f \<in> set fs. snd f = FlushAborted))\<rparr>"
  using assms by (simp add: apply_round_def)

text \<open>The worker ends its loop for two events only.\<close>

lemma round_exits:
  "dbWorker_round ins n c ev b db = (WExited, db', fs) \<Longrightarrow> ev = WChanClosed \<or> ev = WCtxDone"
  by (cases ev) (auto simp: dbWorker_round_def Let_def split: if_splits)

text \<open>
  A round on an event keeps the invariant when the event's message, if there is one, is what the
  channel has just given away.
\<close>

lemma cinv_apply_round:
  assumes "cinv s" and run: "cs_worker s = WRunning b"
    and ch: "ch_buf (cs_msgChan s) = (case ev of WMessage m \<Rightarrow> [m] | _ \<Rightarrow> []) @ ch_buf ch"
    and same: "ch_cap ch = ch_cap (cs_msgChan s)" "ch_closed ch = ch_closed (cs_msgChan s)"
    and closed: "ev = WChanClosed \<Longrightarrow> ch_closed ch \<and> ch_buf ch = []"
    and ctx: "ev = WCtxDone \<Longrightarrow> cs_ctx_done s"
  shows "cinv (apply_round ins c ev b (s\<lparr>cs_msgChan := ch\<rparr>))"
proof -
  obtain w db' fs where r: "dbWorker_round ins (cs_batchSize s) c ev b (cs_db s) = (w, db', fs)"
    by (metis prod_cases3)
  then have t: "apply_round ins c ev b (s\<lparr>cs_msgChan := ch\<rparr>) =
    s\<lparr>cs_msgChan := ch, cs_worker := w, cs_db := db', cs_flushed := cs_flushed s @ fs,
      cs_ctx_done := (cs_ctx_done s \<or> (\<exists>f \<in> set fs. snd f = FlushAborted))\<rparr>"
    by (simp add: apply_round_def)
  have "inv_conserve (cs_sent s) (cs_flushed s @ fs) w ch"
    using assms(1) run ch round_conserves [OF r]
    by (simp add: cinv_def inv_conserve_def)
  moreover have "inv_chan ch (cs_closes s)"
    using assms(1) ch same by (auto simp: cinv_def inv_chan_def)
  moreover have "inv_batch (cs_batchSize s) w (cs_flushed s @ fs)"
    using assms(1) run round_batches [OF r] by (auto simp: cinv_def inv_batch_def)
  moreover have "inv_phase (cs_phase s) w (cs_pc s)
      (cs_ctx_done s \<or> (\<exists>f \<in> set fs. snd f = FlushAborted)) ch"
    using assms(1) run same closed ctx round_exits [of ins "cs_batchSize s" c ev b "cs_db s" db' fs] r
    by (auto simp: cinv_def inv_phase_def)
  ultimately show ?thesis
    using assms(1) by (simp add: t cinv_def)
qed

lemma cinv_dbWorker_recv: "cinv s \<Longrightarrow> dbWorker_recv ins c s = Some t \<Longrightarrow> cinv t"
  using cinv_apply_round [of s _ WChanClosed "cs_msgChan s" ins c]
  by (auto simp: dbWorker_recv_def chan_simps intro!: cinv_apply_round
      split: worker.splits recv_result.splits)

lemma cinv_dbWorker_tick: "cinv s \<Longrightarrow> dbWorker_tick ins c s = Some t \<Longrightarrow> cinv t"
  using cinv_apply_round [of s _ WTick "cs_msgChan s" ins c]
  by (auto simp: dbWorker_tick_def split: worker.splits)

lemma cinv_dbWorker_done: "cinv s \<Longrightarrow> dbWorker_done ins s = Some t \<Longrightarrow> cinv t"
  using cinv_apply_round [of s _ WCtxDone "cs_msgChan s" ins "\<lambda>_. False"]
  by (auto simp: dbWorker_done_def split: worker.splits if_splits)

section \<open>Every run keeps it\<close>

lemma cstep_cinv: "cstep ins s t \<Longrightarrow> cinv s \<Longrightarrow> cinv t"
  by (induction rule: cstep.induct)
     (blast intro: cinv_open_claim cinv_deliver cinv_claim_closed cinv_ctx cinv_Setup
        cinv_ConsumeClaim_recv cinv_ConsumeClaim_send cinv_ConsumeClaim_mark
        cinv_ConsumeClaim_done cinv_dbWorker_recv cinv_dbWorker_tick cinv_dbWorker_done
        cinv_Cleanup_close cinv_Cleanup_wait)+

interpretation consumer: stable_system "cstep ins" cinv for ins
  by unfold_locales (rule cstep_cinv)

lemma consumer_reaches: "(cstep ins)\<^sup>*\<^sup>* (NewDanmakuHandler db n) s \<Longrightarrow> cinv s"
  by (rule consumer.run_keeps [OF _ cinv_init])

end
