(* ===== verification/ConsumerRuns.thy ===== *)
theory ConsumerRuns
  imports ConsumerInv
begin

text \<open>
  What runs of the consumer do: the contents of the database, the drain of a closed channel, the
  abstract queue the consumer implements, and the concrete runs that show what can go wrong.
\<close>

section \<open>The database holds what was saved\<close>

definition saved :: "flush_record list \<Rightarrow> danmaku_ptr list" where
  "saved fs = concat (map fst (filter (\<lambda>f. snd f = FlushSaved) fs))"

lemma saved_simps [simp]: "saved [] = []" "saved (fs @ gs) = saved fs @ saved gs"
  by (simp_all add: saved_def)

lemma saved_subseq: "subseq (saved fs) (concat (map fst fs))"
proof (induction fs)
  case (Cons f fs)
  then show ?case
    by (cases "snd f = FlushSaved") (auto simp: saved_def list_emb_append_mono intro: list_emb_append2)
qed simp

text \<open>A client of the database: its inserts are atomic, its rows can be read off.\<close>

locale durable_store =
  fixes ins :: "('db, 'e) insert_op"
    and rows :: "'db \<Rightarrow> danmaku_ptr list"
  assumes atomic: "atomic_insert ins rows"
begin

definition db_holds :: "danmaku_ptr list \<Rightarrow> 'db csys \<Rightarrow> bool" where
  "db_holds r0 s \<longleftrightarrow> rows (cs_db s) = r0 @ saved (cs_flushed s)"

lemma apply_round_holds:
  "db_holds r0 s \<Longrightarrow> db_holds r0 (apply_round ins c ev b s)"
  using round_rows [OF atomic]
  by (auto simp: apply_round_def db_holds_def saved_def split: prod.splits)

lemma chan_holds: "db_holds r0 (s\<lparr>cs_msgChan := ch\<rparr>) = db_holds r0 s"
  by (simp add: db_holds_def)

lemma step_holds: "cstep ins s t \<Longrightarrow> db_holds r0 s \<Longrightarrow> db_holds r0 t"
proof (induction rule: cstep.induct)
  case (worker_recv s cancelled t)
  then show ?case
    by (auto simp: dbWorker_recv_def chan_holds intro!: apply_round_holds
        split: worker.splits recv_result.splits)
next
  case (worker_tick s cancelled t)
  then show ?case
    by (auto simp: dbWorker_tick_def intro!: apply_round_holds split: worker.splits)
next
  case (worker_done s t)
  then show ?case
    by (auto simp: dbWorker_done_def intro!: apply_round_holds split: worker.splits if_splits)
qed (auto simp: db_holds_def open_claim_def deliver_msg_def Setup_def ConsumeClaim_recv_def
    ConsumeClaim_send_def ConsumeClaim_mark_def ConsumeClaim_done_def Cleanup_close_def
    Cleanup_wait_def split: if_splits option.splits list.splits sum.splits claim_pc.splits
    send_result.splits)

end

sublocale durable_store \<subseteq> db: stable_system "cstep ins" "db_holds r0" for r0
  by unfold_locales (rule step_holds)

context durable_store begin

lemma run_rows:
  "(cstep ins)\<^sup>*\<^sup>* (NewDanmakuHandler d n) s \<Longrightarrow> rows (cs_db s) = rows d @ saved (cs_flushed s)"
  using db.run_keeps [of "NewDanmakuHandler d n" s "rows d"]
  by (simp add: db_holds_def NewDanmakuHandler_def)

end

section \<open>The abstract queue\<close>

text \<open>
  What the consumer promises: danmaku are accepted at the end of a queue and settled in batches
  from its front, and a batch that is settled as saved is appended to the rows of the database. A
  batch holds at most the batch size (one, if that is less); only the flush of a worker that
  returns may be empty.
\<close>

datatype consumer_event = Accepted danmaku_ptr | Settled "danmaku_ptr list" flush_outcome

record batch_queue =
  bq_waiting :: "danmaku_ptr list"
  bq_rows :: "danmaku_ptr list"

fun queue_step :: "int \<Rightarrow> consumer_event \<Rightarrow> batch_queue \<Rightarrow> batch_queue option" where
  "queue_step n (Accepted d) q = Some (q\<lparr>bq_waiting := bq_waiting q @ [d]\<rparr>)"
| "queue_step n (Settled b out) q =
     (if take (length b) (bq_waiting q) = b \<and> int (length b) \<le> batch_limit n \<and>
         (b = [] \<longleftrightarrow> out = FlushEmpty)
      then Some \<lparr>bq_waiting = drop (length b) (bq_waiting q),
                 bq_rows = bq_rows q @ (if out = FlushSaved then b else [])\<rparr>
      else None)"

text \<open>
  The events a step of the consumer shows: what it puts on the channel, what it flushes, and with
  which outcome.
\<close>

definition observed :: "'db csys \<Rightarrow> 'db csys \<Rightarrow> consumer_event list" where
  "observed s t =
     map Accepted (drop (length (cs_sent s)) (cs_sent t)) @
     map (\<lambda>(b, out). Settled b out) (drop (length (cs_flushed s)) (cs_flushed t))"

definition consumer_step ::
  "('db, 'e) insert_op \<Rightarrow> 'db csys \<Rightarrow> consumer_event list \<Rightarrow> 'db csys \<Rightarrow> bool" where
  "consumer_step ins s es t \<longleftrightarrow> cstep ins s t \<and> es = observed s t"

definition accepted_of :: "consumer_event list \<Rightarrow> danmaku_ptr list" where
  "accepted_of es = concat (map (\<lambda>e. case e of Accepted d \<Rightarrow> [d] | _ \<Rightarrow> []) es)"

definition settled_of :: "consumer_event list \<Rightarrow> flush_record list" where
  "settled_of es = concat (map (\<lambda>e. case e of Settled b out \<Rightarrow> [(b, out)] | _ \<Rightarrow> []) es)"

definition queue_of :: "('db \<Rightarrow> danmaku_ptr list) \<Rightarrow> 'db csys \<Rightarrow> batch_queue" where
  "queue_of rows s = \<lparr>bq_waiting = worker_buf (cs_worker s) @ ch_buf (cs_msgChan s),
                      bq_rows = rows (cs_db s)\<rparr>"

lemma of_simps [simp]:
  "accepted_of [] = []" "settled_of [] = []"
  "accepted_of (es @ fs) = accepted_of es @ accepted_of fs"
  "settled_of (es @ fs) = settled_of es @ settled_of fs"
  "accepted_of (map Accepted ds) = ds" "settled_of (map Accepted ds) = []"
  "accepted_of (map (\<lambda>(b, out). Settled b out) gs) = []"
  "settled_of (map (\<lambda>(b, out). Settled b out) gs) = gs"
proof -
  show "accepted_of (map Accepted ds) = ds" by (induction ds) (simp_all add: accepted_of_def)
  show "settled_of (map Accepted ds) = []" by (induction ds) (simp_all add: settled_of_def)
  show "accepted_of (map (\<lambda>(b, out). Settled b out) gs) = []"
    by (induction gs) (auto simp: accepted_of_def)
  show "settled_of (map (\<lambda>(b, out). Settled b out) gs) = gs"
    by (induction gs) (auto simp: settled_of_def)
qed (simp_all add: accepted_of_def settled_of_def)

text \<open>The system of a given batch size, which no step changes.\<close>

definition sized_inv :: "int \<Rightarrow> 'db csys \<Rightarrow> bool" where
  "sized_inv n s \<longleftrightarrow> cinv s \<and> cs_batchSize s = n"

lemma apply_round_batchSize [simp]: "cs_batchSize (apply_round ins c ev b s) = cs_batchSize s"
  by (simp add: apply_round_def split: prod.splits)

lemma cstep_batchSize: "cstep ins s t \<Longrightarrow> cs_batchSize t = cs_batchSize s"
  by (induction rule: cstep.induct)
     (auto simp: open_claim_def deliver_msg_def Setup_def ConsumeClaim_recv_def
        ConsumeClaim_send_def ConsumeClaim_mark_def ConsumeClaim_done_def Cleanup_close_def
        Cleanup_wait_def dbWorker_recv_def dbWorker_tick_def dbWorker_done_def
        split: if_splits option.splits list.splits sum.splits claim_pc.splits send_result.splits
          worker.splits recv_result.splits)

lemma flush_loop_not_empty: "snd (flush_loop ins c b k db) \<noteq> FlushEmpty"
  by (induction k arbitrary: db) (auto split: prod.splits option.splits if_splits)

lemma flush_outcome_empty: "flushBuffer ins c b db = (db', out) \<Longrightarrow> b = [] \<longleftrightarrow> out = FlushEmpty"
  using flush_loop_not_empty [of ins c b MaxDBRetries db]
  by (auto simp: flushBuffer_def split: if_splits)

lemma round_flushes:
  "dbWorker_round ins n c ev b db = (w, db', fs) \<Longrightarrow>
   fs = [] \<or> (\<exists>x out. fs = [(x, out)] \<and> (x = [] \<longleftrightarrow> out = FlushEmpty))"
  by (auto simp: dbWorker_round_def worker_flush_def Let_def dest: flush_outcome_empty
      split: worker_event.splits if_splits prod.splits)

text \<open>Every step of the worker is a round for one event, on the channel that event leaves.\<close>

lemma worker_step_round:
  assumes "dbWorker_recv ins c s = Some t \<or> dbWorker_tick ins c s = Some t \<or> dbWorker_done ins s = Some t"
  shows "\<exists>b ev ch c'. cs_worker s = WRunning b \<and>
    ch_buf (cs_msgChan s) = (case ev of WMessage m \<Rightarrow> [m] | _ \<Rightarrow> []) @ ch_buf ch \<and>
    t = apply_round ins c' ev b (s\<lparr>cs_msgChan := ch\<rparr>)"
proof -
  have same: "s\<lparr>cs_msgChan := cs_msgChan s\<rparr> = s" by simp
  from assms show ?thesis
  proof (elim disjE)
    assume "dbWorker_recv ins c s = Some t"
    then obtain b where b: "cs_worker s = WRunning b"
      and t: "(\<exists>m ch. recv_chan (cs_msgChan s) = Received m ch \<and>
           t = apply_round ins c (WMessage m) b (s\<lparr>cs_msgChan := ch\<rparr>)) \<or>
         t = apply_round ins c WChanClosed b s"
      by (auto simp: dbWorker_recv_def split: worker.splits recv_result.splits)
    from t show ?thesis
    proof
      assume "\<exists>m ch. recv_chan (cs_msgChan s) = Received m ch \<and>
        t = apply_round ins c (WMessage m) b (s\<lparr>cs_msgChan := ch\<rparr>)"
      then obtain m ch where "recv_chan (cs_msgChan s) = Received m ch"
        "t = apply_round ins c (WMessage m) b (s\<lparr>cs_msgChan := ch\<rparr>)" by blast
      then show ?thesis using b chan.rcv_items [of "cs_msgChan s" m ch]
        by (intro exI [of _ b] exI [of _ "WMessage m"] exI [of _ ch] exI [of _ c]) simp
    next
      assume "t = apply_round ins c WChanClosed b s"
      then show ?thesis using b same
        by (intro exI [of _ b] exI [of _ WChanClosed] exI [of _ "cs_msgChan s"] exI [of _ c]) simp
    qed
  next
    assume "dbWorker_tick ins c s = Some t"
    then obtain b where "cs_worker s = WRunning b" "t = apply_round ins c WTick b s"
      by (auto simp: dbWorker_tick_def split: worker.splits)
    then show ?thesis using same
      by (intro exI [of _ b] exI [of _ WTick] exI [of _ "cs_msgChan s"] exI [of _ c]) simp
  next
    assume "dbWorker_done ins s = Some t"
    then obtain b where "cs_worker s = WRunning b" "t = apply_round ins (\<lambda>_. False) WCtxDone b s"
      by (auto simp: dbWorker_done_def split: worker.splits if_splits)
    then show ?thesis using same
      by (intro exI [of _ b] exI [of _ WCtxDone] exI [of _ "cs_msgChan s"]
          exI [of _ "\<lambda>_. False"]) simp
  qed
qed

text \<open>A step that neither accepts nor settles anything, and leaves the queue as it is.\<close>

definition silent :: "'db csys \<Rightarrow> 'db csys \<Rightarrow> bool" where
  "silent s t \<longleftrightarrow> cs_sent t = cs_sent s \<and> cs_flushed t = cs_flushed s \<and> cs_db t = cs_db s \<and>
     worker_buf (cs_worker t) @ ch_buf (cs_msgChan t) = worker_buf (cs_worker s) @ ch_buf (cs_msgChan s)"

lemma silent_queue: "silent s t \<Longrightarrow> exec (queue_step n) (observed s t) (queue_of rows s) = Some (queue_of rows t)"
  by (simp add: silent_def observed_def queue_of_def)

context durable_store begin

lemma round_queue:
  assumes inv: "cinv s" and run: "cs_worker s = WRunning b"
    and ch: "ch_buf (cs_msgChan s) = (case ev of WMessage m \<Rightarrow> [m] | _ \<Rightarrow> []) @ ch_buf ch"
    and t: "t = apply_round ins c ev b (s\<lparr>cs_msgChan := ch\<rparr>)"
  shows "exec (queue_step (cs_batchSize s)) (observed s t) (queue_of rows s) = Some (queue_of rows t)"
proof -
  obtain w db' fs where r: "dbWorker_round ins (cs_batchSize s) c ev b (cs_db s) = (w, db', fs)"
    by (metis prod_cases3)
  then have q: "queue_of rows t = \<lparr>bq_waiting = worker_buf w @ ch_buf ch, bq_rows = rows db'\<rparr>"
    and ev: "observed s t = map (\<lambda>(b, out). Settled b out) fs"
    by (simp_all add: t apply_round_def queue_of_def observed_def)
  have all: "bq_waiting (queue_of rows s) = concat (map fst fs) @ worker_buf w @ ch_buf ch"
    using round_conserves [OF r] run ch by (simp add: queue_of_def)
  then have qs: "queue_of rows s =
      \<lparr>bq_waiting = concat (map fst fs) @ worker_buf w @ ch_buf ch, bq_rows = rows (cs_db s)\<rparr>"
    by (simp add: queue_of_def)
  have new: "rows db' = rows (cs_db s) @ saved fs"
    using round_rows [OF atomic r] by (simp add: saved_def)
  have small: "\<forall>f \<in> set fs. int (length (fst f)) \<le> batch_limit (cs_batchSize s)"
    using inv run round_batches [OF r] by (simp add: cinv_def inv_batch_def)
  from round_flushes [OF r] show ?thesis
  proof
    assume "fs = []"
    then show ?thesis using new by (simp add: q qs ev)
  next
    assume "\<exists>x out. fs = [(x, out)] \<and> (x = [] \<longleftrightarrow> out = FlushEmpty)"
    then obtain x out where f: "fs = [(x, out)]" and e: "x = [] \<longleftrightarrow> out = FlushEmpty" by blast
    then show ?thesis using new small e by (simp add: q qs ev saved_def)
  qed
qed

lemma send_queue:
  assumes "ConsumeClaim_send p s = Some t"
  shows "exec (queue_step n) (observed s t) (queue_of rows s) = Some (queue_of rows t)"
  using assms by (auto simp: ConsumeClaim_send_def queue_of_def observed_def chan_simps
      split: claim_pc.splits send_result.splits)

lemma worker_queue:
  "cinv s \<Longrightarrow>
   dbWorker_recv ins c s = Some t \<or> dbWorker_tick ins c s = Some t \<or> dbWorker_done ins s = Some t \<Longrightarrow>
   exec (queue_step (cs_batchSize s)) (observed s t) (queue_of rows s) = Some (queue_of rows t)"
  using worker_step_round round_queue by metis

lemma step_queue:
  assumes "sized_inv n s" and "cstep ins s t"
  shows "exec (queue_step n) (observed s t) (queue_of rows s) = Some (queue_of rows t)"
  using assms(2,1)
proof (induction rule: cstep.induct)
  case (session_setup s t)
  then have "silent s t"
    by (auto simp: sized_inv_def cinv_def inv_phase_def Setup_def silent_def
        dbWorker_start_def split: if_splits)
  then show ?case by (rule silent_queue)
next
  case (claim_send s p t)
  then show ?case using send_queue by blast
next
  case (worker_recv s cancelled t)
  then show ?case using worker_queue unfolding sized_inv_def by metis
next
  case (worker_tick s cancelled t)
  then show ?case using worker_queue unfolding sized_inv_def by metis
next
  case (worker_done s t)
  then show ?case using worker_queue unfolding sized_inv_def by metis
qed (auto intro!: silent_queue simp: silent_def open_claim_def deliver_msg_def ConsumeClaim_recv_def
    ConsumeClaim_mark_def ConsumeClaim_done_def Cleanup_close_def Cleanup_wait_def chan_simps
    split: if_splits option.splits list.splits sum.splits claim_pc.splits)

end

text \<open>So on a durable database the consumer implements the queue.\<close>

sublocale durable_store \<subseteq> batching: implements "consumer_step ins" "sized_inv n" "queue_step n" "queue_of rows"
  for n
proof unfold_locales
  fix s es t
  assume inv: "sized_inv n s" and "consumer_step ins s es t"
  then have step: "cstep ins s t" and es: "es = observed s t" by (simp_all add: consumer_step_def)
  show "sized_inv n t"
    using inv cstep_cinv [OF step] cstep_batchSize [OF step] by (auto simp: sized_inv_def)
  show "exec (queue_step n) es (queue_of rows s) = Some (queue_of rows t)"
    unfolding es using inv step by (rule step_queue)
qed

context durable_store begin

lemma batched:
  assumes "trace (consumer_step ins) (NewDanmakuHandler d n) es s"
  shows "exec (queue_step n) es (queue_of rows (NewDanmakuHandler d n)) = Some (queue_of rows s)"
proof -
  have "sized_inv n (NewDanmakuHandler d n)"
    by (simp add: sized_inv_def cinv_init) (simp add: NewDanmakuHandler_def)
  from batching.trace_simulated [OF assms this] show ?thesis .
qed

end

interpretation tbl: durable_store table_insert tb_rows
  by unfold_locales (rule table_atomic)

text \<open>The events of a run are just what it has sent and flushed.\<close>

lemma step_history:
  "cstep ins s t \<Longrightarrow> (\<exists>ds. cs_sent t = cs_sent s @ ds) \<and> (\<exists>fs. cs_flushed t = cs_flushed s @ fs)"
  by (induction rule: cstep.induct)
     (auto simp: open_claim_def deliver_msg_def Setup_def ConsumeClaim_recv_def
        ConsumeClaim_send_def ConsumeClaim_mark_def ConsumeClaim_done_def Cleanup_close_def
        Cleanup_wait_def dbWorker_recv_def dbWorker_tick_def dbWorker_done_def apply_round_def
        split: if_splits option.splits list.splits sum.splits claim_pc.splits send_result.splits
          worker.splits recv_result.splits prod.splits)

lemma trace_history:
  "trace (consumer_step ins) s es t \<Longrightarrow>
   cs_sent t = cs_sent s @ accepted_of es \<and> cs_flushed t = cs_flushed s @ settled_of es"
proof (induction rule: trace.induct)
  case (trace_start s)
  then show ?case by simp
next
  case (trace_step s es t fs u)
  then have st: "cstep ins t u" and fs: "fs = observed t u" by (simp_all add: consumer_step_def)
  from step_history [OF st] trace_step.IH show ?case by (auto simp: fs observed_def)
qed

lemma trace_run: "trace (consumer_step ins) s es t \<Longrightarrow> (cstep ins)\<^sup>*\<^sup>* s t"
  by (induction rule: trace.induct)
     (auto simp: consumer_step_def intro: rtranclp.rtrancl_into_rtrancl)

lemma run_shows: "(cstep ins)\<^sup>*\<^sup>* s t \<Longrightarrow> \<exists>es. trace (consumer_step ins) s es t"
  by (erule run_traced) (simp add: consumer_step_def)

section \<open>Draining the closed channel\<close>

lemma run_snoc: "(cstep ins)\<^sup>*\<^sup>* s t \<Longrightarrow> cstep ins t u \<Longrightarrow> (cstep ins)\<^sup>*\<^sup>* s u"
  by (rule rtranclp.rtrancl_into_rtrancl)

lemma run_cons: "cstep ins s t \<Longrightarrow> (cstep ins)\<^sup>*\<^sup>* t u \<Longrightarrow> (cstep ins)\<^sup>*\<^sup>* s u"
  by (rule converse_rtranclp_into_rtranclp)

definition draining :: "'db csys \<Rightarrow> bool" where
  "draining s \<longleftrightarrow>
     cinv s \<and> \<not> cs_panicked s \<and> cs_phase s = Cleaning \<and> (\<exists>b. cs_worker s = WRunning b)"

lemma round_message_runs:
  "\<exists>b' db' fs. dbWorker_round ins n c (WMessage m) b db = (WRunning b', db', fs)"
  by (simp add: dbWorker_round_def Let_def split: prod.splits)

lemma round_closed:
  "\<exists>db' fs. dbWorker_round ins n c WChanClosed b db = (WExited, db', fs)"
  by (simp add: dbWorker_round_def worker_flush_def split: prod.splits)

lemma drain_one:
  assumes "draining s" and buf: "ch_buf (cs_msgChan s) = m # xs"
  shows "\<exists>t. cstep ins s t \<and> draining t \<and> ch_buf (cs_msgChan t) = xs \<and> cs_sent t = cs_sent s"
proof -
  from assms(1) obtain b where b: "cs_worker s = WRunning b" by (auto simp: draining_def)
  obtain b' db' fs where r:
    "dbWorker_round ins (cs_batchSize s) (\<lambda>_. True) (WMessage m) b (cs_db s) = (WRunning b', db', fs)"
    using round_message_runs [of ins "cs_batchSize s" "\<lambda>_. True" m b "cs_db s"] by auto
  let ?ch = "cs_msgChan s\<lparr>ch_buf := xs\<rparr>"
  let ?t = "apply_round ins (\<lambda>_. True) (WMessage m) b (s\<lparr>cs_msgChan := ?ch\<rparr>)"
  have rv: "recv_chan (cs_msgChan s) = Received m ?ch" using buf by (simp add: chan_simps)
  then have "dbWorker_recv ins (\<lambda>_. True) s = Some ?t"
    using b by (simp add: dbWorker_recv_def)
  moreover have "sees_ctx s (\<lambda>_. True)" by (simp add: sees_ctx_def)
  ultimately have st: "cstep ins s ?t"
    using assms(1) by (intro cstep.worker_recv) (auto simp: draining_def)
  moreover have "draining ?t"
    using assms(1) r cstep_cinv [OF st] by (simp add: draining_def apply_round_def)
  ultimately show ?thesis using r by (intro exI [of _ ?t]) (simp add: apply_round_def)
qed

lemma drain_all:
  "draining s \<Longrightarrow> \<exists>t. (cstep ins)\<^sup>*\<^sup>* s t \<and> draining t \<and> ch_buf (cs_msgChan t) = [] \<and> cs_sent t = cs_sent s"
proof (induction "ch_buf (cs_msgChan s)" arbitrary: s)
  case Nil
  then show ?case by (intro exI [of _ s]) simp
next
  case (Cons m xs)
  then obtain t where "cstep ins s t" "draining t" "ch_buf (cs_msgChan t) = xs" "cs_sent t = cs_sent s"
    using drain_one by metis
  with Cons.hyps(1) [of t] show ?case using run_cons by metis
qed

lemma drain_exit:
  assumes "draining s" and "ch_buf (cs_msgChan s) = []"
  shows "\<exists>t. (cstep ins)\<^sup>*\<^sup>* s t \<and> cs_phase t = Outside \<and> \<not> cs_panicked t \<and> cs_sent t = cs_sent s \<and>
    concat (map fst (cs_flushed t)) = cs_sent t"
proof -
  from assms(1) obtain b where b: "cs_worker s = WRunning b" by (auto simp: draining_def)
  obtain db' fs where r:
    "dbWorker_round ins (cs_batchSize s) (\<lambda>_. True) WChanClosed b (cs_db s) = (WExited, db', fs)"
    using round_closed [of ins "cs_batchSize s" "\<lambda>_. True" b "cs_db s"] by auto
  let ?t = "apply_round ins (\<lambda>_. True) WChanClosed b s"
  have "ch_closed (cs_msgChan s)" using assms(1) by (simp add: draining_def cinv_def inv_phase_def)
  then have "recv_chan (cs_msgChan s) = RecvClosed" using assms(2) by (simp add: chan_simps)
  then have "dbWorker_recv ins (\<lambda>_. True) s = Some ?t" using b by (simp add: dbWorker_recv_def)
  moreover have "sees_ctx s (\<lambda>_. True)" by (simp add: sees_ctx_def)
  ultimately have st: "cstep ins s ?t"
    using assms(1) by (intro cstep.worker_recv) (auto simp: draining_def)
  let ?u = "?t\<lparr>cs_phase := Outside, cs_pc := (\<lambda>_. CIdle)\<rparr>"
  have "Cleanup_wait ?t = Some ?u"
    using r assms(1) by (simp add: Cleanup_wait_def apply_round_def draining_def)
  then have "cstep ins ?t ?u"
    using r assms(1) by (intro cstep.cleanup_wait) (simp_all add: apply_round_def draining_def)
  moreover have "inv_conserve (cs_sent ?t) (cs_flushed ?t) (cs_worker ?t) (cs_msgChan ?t)"
    using cstep_cinv [OF st] assms(1) unfolding draining_def cinv_def by blast
  ultimately show ?thesis
    using st r assms by (intro exI [of _ ?u])
      (auto simp: apply_round_def inv_conserve_def draining_def intro: run_snoc)
qed

section \<open>Concrete runs\<close>

text \<open>
  A first session in which claim 0 has received one message and put its parse result on the
  channel; the message is about to be marked.
\<close>

definition sent_state :: "'db \<Rightarrow> int \<Rightarrow> string \<Rightarrow> danmaku_ptr \<Rightarrow> 'db csys" where
  "sent_state db n msg d =
     (NewDanmakuHandler db n)
       \<lparr>cs_msgChan := (make_chan ChannelBufferSize)\<lparr>ch_buf := [d]\<rparr>,
        cs_pc := (\<lambda>_. CIdle)(0 := CMarking msg), cs_worker := WRunning [], cs_phase := InSession,
        cs_delivered := (\<lambda>_. [])(0 := [msg]), cs_handed := (\<lambda>_. [])(0 := [d]), cs_sent := [d]\<rparr>"

definition open_state :: "'db \<Rightarrow> int \<Rightarrow> 'db csys" where
  "open_state db n = (NewDanmakuHandler db n)\<lparr>cs_worker := WRunning [], cs_phase := InSession\<rparr>"

lemmas run_states = sent_state_def open_state_def NewDanmakuHandler_def

text \<open>A step in which Kafka delivers, if anything, a value of \<open>V\<close>.\<close>

definition fed_step :: "string set \<Rightarrow> ('db, 'e) insert_op \<Rightarrow> 'db csys \<Rightarrow> 'db csys \<Rightarrow> bool" where
  "fed_step V ins s t \<longleftrightarrow>
     cstep ins s t \<and> (\<forall>p. set (cs_delivered t p) \<subseteq> set (cs_delivered s p) \<union> V)"

lemma fedI: "cstep ins s t \<Longrightarrow> cs_delivered t = cs_delivered s \<Longrightarrow> fed_step V ins s t"
  by (simp add: fed_step_def)

lemma fed_run: "(fed_step V ins)\<^sup>*\<^sup>* s t \<Longrightarrow> (cstep ins)\<^sup>*\<^sup>* s t"
  by (induction rule: rtranclp_induct) (auto simp: fed_step_def intro: run_snoc)

lemma fed_snoc: "(fed_step V ins)\<^sup>*\<^sup>* s t \<Longrightarrow> fed_step V ins t u \<Longrightarrow> (fed_step V ins)\<^sup>*\<^sup>* s u"
  by (rule rtranclp.rtrancl_into_rtrancl)

lemma fed_open: "0 \<le> n \<Longrightarrow> (fed_step V ins)\<^sup>*\<^sup>* (NewDanmakuHandler db n) (open_state db n)"
  by (rule r_into_rtranclp, rule fedI, rule session_setup)
     (simp_all add: run_states Setup_def dbWorker_start_def)

lemma reset_idle: "(\<lambda>_. [])(p := []) = (\<lambda>_. [])" "(\<lambda>_. False)(p := False) = (\<lambda>_. False)"
  by auto

text \<open>From any state of a session a claim can take one message up to the send.\<close>

definition offered :: "nat \<Rightarrow> string \<Rightarrow> danmaku_ptr \<Rightarrow> 'db csys \<Rightarrow> 'db csys" where
  "offered p msg d s =
     (deliver_msg p msg (open_claim p s))
       \<lparr>cs_claims := (cs_claims s)(p := []), cs_pc := (cs_pc s)(p := CSending msg d)\<rparr>"

lemma fed_offered:
  assumes "\<not> cs_panicked s" and "cs_phase s = InSession" and "cs_pc s p = CIdle"
    and "parseMessage msg = Inr d"
  shows "(fed_step {msg} ins)\<^sup>*\<^sup>* s (offered p msg d s)"
proof -
  let ?s1 = "open_claim p s"
  let ?s2 = "deliver_msg p msg ?s1"
  have "cstep ins s ?s1" using assms by (intro claim_opens)
  then have "fed_step {msg} ins s ?s1" by (auto simp: fed_step_def open_claim_def)
  moreover have "cstep ins ?s1 ?s2"
    using assms by (intro message_delivered) (simp_all add: open_claim_def)
  then have "fed_step {msg} ins ?s1 ?s2" by (auto simp: fed_step_def deliver_msg_def)
  moreover have "cstep ins ?s2 (offered p msg d s)"
    using assms by (intro claim_recv [where p = p])
      (simp_all add: ConsumeClaim_recv_def deliver_msg_def open_claim_def offered_def)
  then have "fed_step {msg} ins ?s2 (offered p msg d s)"
    by (rule fedI) (simp add: offered_def)
  ultimately show ?thesis by (meson fed_snoc rtranclp.rtrancl_refl)
qed

lemma fed_sent:
  assumes "0 \<le> n" and "parseMessage msg = Inr d"
  shows "(fed_step {msg} ins)\<^sup>*\<^sup>* (NewDanmakuHandler db n) (sent_state db n msg d)"
proof -
  have "(fed_step {msg} ins)\<^sup>*\<^sup>* (open_state db n) (offered 0 msg d (open_state db n))"
    using assms(2) by (intro fed_offered) (simp_all add: run_states)
  moreover have "cstep ins (offered 0 msg d (open_state db n)) (sent_state db n msg d)"
    by (intro claim_send [where p = 0])
      (simp_all add: run_states offered_def open_claim_def deliver_msg_def ConsumeClaim_send_def
        send_chan_def make_chan_def ChannelBufferSize_def reset_idle)
  then have "fed_step {msg} ins (offered 0 msg d (open_state db n)) (sent_state db n msg d)"
    by (rule fedI) (simp add: run_states offered_def open_claim_def deliver_msg_def reset_idle)
  ultimately show ?thesis using fed_open [OF assms(1)] by (meson rtranclp_trans fed_snoc)
qed

lemmas reach_open = fed_open [THEN fed_run]
lemmas reach_offered = fed_offered [THEN fed_run]
lemmas reach_sent = fed_sent [THEN fed_run]

text \<open>The worker takes the message, and with a batch size of one or less it flushes it.\<close>

definition settled_state :: "('db, 'e) insert_op \<Rightarrow> 'db \<Rightarrow> int \<Rightarrow> string \<Rightarrow> danmaku_ptr \<Rightarrow> 'db csys" where
  "settled_state ins db n msg d =
     apply_round ins (\<lambda>_. False) (WMessage d) []
       ((sent_state db n msg d)\<lparr>cs_msgChan := make_chan ChannelBufferSize\<rparr>)"

lemma fed_settled:
  assumes "0 \<le> n" and "parseMessage msg = Inr d"
  shows "(fed_step {msg} ins)\<^sup>*\<^sup>* (NewDanmakuHandler db n) (settled_state ins db n msg d)"
proof -
  have "cstep ins (sent_state db n msg d) (settled_state ins db n msg d)"
    by (rule worker_recv [where cancelled = "\<lambda>_. False"])
      (simp_all add: run_states settled_state_def sees_ctx_def dbWorker_recv_def recv_chan_def make_chan_def)
  then have "fed_step {msg} ins (sent_state db n msg d) (settled_state ins db n msg d)"
    by (rule fedI) (simp add: run_states settled_state_def apply_round_def split: prod.splits)
  with fed_sent [OF assms] show ?thesis by (rule fed_snoc)
qed

lemmas reach_settled = fed_settled [THEN fed_run]

lemma settled_state_flush:
  "n \<le> 1 \<Longrightarrow> flushBuffer ins (\<lambda>_. False) [d] db = (db', out) \<Longrightarrow>
   cs_flushed (settled_state ins db n msg d) = [([d], out)] \<and> cs_db (settled_state ins db n msg d) = db' \<and>
   cs_sent (settled_state ins db n msg d) = [d]"
  by (simp add: settled_state_def apply_round_def run_states dbWorker_round_def worker_flush_def)

text \<open>
  The message is marked, the context is cancelled, the claim returns, and \<open>Cleanup\<close> closes the
  channel while the worker still runs.
\<close>

definition closing_state :: "'db \<Rightarrow> int \<Rightarrow> string \<Rightarrow> danmaku_ptr \<Rightarrow> 'db csys" where
  "closing_state db n msg d =
     (sent_state db n msg d)
       \<lparr>cs_msgChan := \<lparr>ch_buf = [d], ch_cap = ChannelBufferSize, ch_closed = True\<rparr>,
        cs_pc := (\<lambda>_. CIdle)(0 := CReturned), cs_ctx_done := True, cs_phase := Cleaning,
        cs_marked := (\<lambda>_. [])(0 := [msg]), cs_closes := 1\<rparr>"

lemma reach_closing:
  assumes "0 \<le> n" and "parseMessage msg = Inr d"
  shows "(cstep ins)\<^sup>*\<^sup>* (NewDanmakuHandler db n) (closing_state db n msg d)"
proof -
  let ?s0 = "sent_state db n msg d"
  let ?s1 = "?s0\<lparr>cs_marked := (\<lambda>_. [])(0 := [msg]), cs_pc := (\<lambda>_. CIdle)(0 := CSelect)\<rparr>"
  let ?s2 = "?s1\<lparr>cs_ctx_done := True\<rparr>"
  let ?s3 = "?s2\<lparr>cs_pc := (\<lambda>_. CIdle)(0 := CReturned)\<rparr>"
  have "cstep ins ?s0 ?s1"
    by (rule claim_mark [where p = 0]) (simp_all add: run_states ConsumeClaim_mark_def)
  moreover have "cstep ins ?s1 ?s2" by (rule context_cancelled) (simp_all add: run_states)
  moreover have "cstep ins ?s2 ?s3"
    by (rule claim_done [where p = 0]) (simp_all add: run_states ConsumeClaim_done_def)
  moreover have "cstep ins ?s3 (closing_state db n msg d)"
    by (rule cleanup_close) (simp_all add: run_states closing_state_def Cleanup_close_def
        claim_over_def close_chan_def make_chan_def)
  ultimately show ?thesis using reach_sent [OF assms] by (meson run_snoc)
qed

text \<open>A worker that sees the context done returns without looking at the channel.\<close>

definition lost_state :: "'db \<Rightarrow> int \<Rightarrow> string \<Rightarrow> danmaku_ptr \<Rightarrow> 'db csys" where
  "lost_state db n msg d =
     (closing_state db n msg d)\<lparr>cs_worker := WExited, cs_pc := (\<lambda>_. CIdle), cs_phase := Outside\<rparr>"

lemma reach_lost:
  assumes "0 \<le> n" and "parseMessage msg = Inr d"
  shows "(cstep ins)\<^sup>*\<^sup>* (NewDanmakuHandler db n) (lost_state db n msg d)"
proof -
  let ?s = "closing_state db n msg d"
  have "cstep ins ?s (?s\<lparr>cs_worker := WExited\<rparr>)"
    by (rule worker_done) (simp_all add: run_states closing_state_def dbWorker_done_def
        apply_round_def dbWorker_round_def)
  moreover have "cstep ins (?s\<lparr>cs_worker := WExited\<rparr>) (lost_state db n msg d)"
    by (rule cleanup_wait) (simp_all add: run_states closing_state_def lost_state_def Cleanup_wait_def)
  ultimately show ?thesis using reach_closing [OF assms] by (meson run_snoc)
qed

text \<open>
  A session without messages ends cleanly; the next one starts on the closed channel, and the first
  message a claim sends panics.
\<close>

definition rejoined_state :: "'db \<Rightarrow> int \<Rightarrow> 'db csys" where
  "rejoined_state db n =
     (open_state db n)
       \<lparr>cs_msgChan := \<lparr>ch_buf = [], ch_cap = ChannelBufferSize, ch_closed = True\<rparr>,
        cs_flushed := [([], FlushEmpty)], cs_closes := 1\<rparr>"

lemma reach_rejoined:
  assumes "0 \<le> n"
  shows "(cstep ins)\<^sup>*\<^sup>* (NewDanmakuHandler db n) (rejoined_state db n)"
proof -
  let ?s0 = "open_state db n"
  let ?s1 = "?s0\<lparr>cs_msgChan := \<lparr>ch_buf = [], ch_cap = ChannelBufferSize, ch_closed = True\<rparr>,
      cs_phase := Cleaning, cs_closes := 1\<rparr>"
  let ?s2 = "?s1\<lparr>cs_worker := WExited, cs_flushed := [([], FlushEmpty)]\<rparr>"
  let ?s3 = "?s2\<lparr>cs_phase := Outside\<rparr>"
  have "cstep ins ?s0 ?s1"
    by (rule cleanup_close)
      (simp_all add: run_states Cleanup_close_def claim_over_def close_chan_def make_chan_def)
  moreover have "cstep ins ?s1 ?s2"
    by (rule worker_recv [where cancelled = "\<lambda>_. False"])
      (simp_all add: run_states sees_ctx_def dbWorker_recv_def recv_chan_def apply_round_def
        dbWorker_round_def worker_flush_def flushBuffer_def)
  moreover have "cstep ins ?s2 ?s3"
    by (rule cleanup_wait) (simp_all add: run_states Cleanup_wait_def)
  moreover have "cstep ins ?s3 (rejoined_state db n)"
    using assms by (intro session_setup)
      (simp_all add: run_states rejoined_state_def Setup_def dbWorker_start_def)
  ultimately show ?thesis using reach_open [OF assms] by (meson run_snoc)
qed

lemma reach_second_offer:
  assumes "0 \<le> n" and "parseMessage msg = Inr d"
  shows "(cstep ins)\<^sup>*\<^sup>* (NewDanmakuHandler db n) (offered 0 msg d (rejoined_state db n))"
proof -
  have "(cstep ins)\<^sup>*\<^sup>* (rejoined_state db n) (offered 0 msg d (rejoined_state db n))"
    using assms(2) by (intro reach_offered) (simp_all add: run_states rejoined_state_def)
  with reach_rejoined [OF assms(1)] show ?thesis by (rule rtranclp_trans)
qed

text \<open>Once the channel is closed, every send that is tried panics.\<close>

lemma send_after_close:
  assumes "cinv s" and "0 < cs_closes s" and "cs_pc s p = CSending msg d"
  shows "ConsumeClaim_send p s = Some (s\<lparr>cs_panicked := True\<rparr>)"
  using assms by (simp add: ConsumeClaim_send_def cinv_def inv_chan_def send_chan_def)

section \<open>After the first Cleanup\<close>

lemma cstep_after_close:
  "cstep ins s t \<Longrightarrow> cinv s \<Longrightarrow> 0 < cs_closes s \<Longrightarrow> 0 < cs_closes t \<and> cs_sent t = cs_sent s"
  by (induction rule: cstep.induct)
     (auto simp: open_claim_def deliver_msg_def Setup_def ConsumeClaim_recv_def
        ConsumeClaim_send_def ConsumeClaim_mark_def ConsumeClaim_done_def Cleanup_close_def
        Cleanup_wait_def dbWorker_recv_def dbWorker_tick_def dbWorker_done_def apply_round_def
        chan_simps cinv_def inv_chan_def
        split: if_splits option.splits list.splits sum.splits claim_pc.splits send_result.splits
          worker.splits recv_result.splits prod.splits)

lemma run_after_close:
  "(cstep ins)\<^sup>*\<^sup>* s t \<Longrightarrow> cinv s \<Longrightarrow> 0 < cs_closes s \<Longrightarrow> 0 < cs_closes t \<and> cs_sent t = cs_sent s"
proof (induction rule: rtranclp_induct)
  case (step t u)
  then have "cinv t" using consumer.run_keeps by blast
  with step show ?case using cstep_after_close by metis
qed simp

end
