(* ===== verification/ConsumerThms.thy ===== *)
theory ConsumerThms
  imports ConsumerRuns
begin

text \<open>
  The properties of the Kafka consumer, over every interleaving of its goroutines, and the runs in
  which it does not do what its comments promise.
\<close>

section \<open>A concrete setting for the witnesses\<close>

definition empty_table :: table where
  "empty_table = \<lparr>tb_rows = [], tb_outages = []\<rparr>"

definition one_danmaku :: DanmakuMessage where
  "one_danmaku = zero_danmaku\<lparr>dm_UserID := 7, dm_Content := ''hi''\<rparr>"

definition one_wire :: string where
  "one_wire =
     (let quote = [CHR 0x22];
          key = (\<lambda>k. quote @ k @ quote @ '':'')
      in ''{'' @ key ''type'' @ ''101,'' @ key ''data'' @ ''{'' @ key ''user_id'' @ ''7,'' @
         key ''content'' @ quote @ ''hi'' @ quote @ ''}}'')"

lemma parse_one_wire: "parseMessage one_wire = Inr (Some one_danmaku)"
  by code_simp

lemma demo_reach:
  "(cstep table_insert)\<^sup>*\<^sup>* (NewDanmakuHandler empty_table 2)
     (sent_state empty_table 2 one_wire (Some one_danmaku))"
  by (rule reach_sent [OF _ parse_one_wire]) simp

section \<open>Safety\<close>

text \<open>
  C3. In every reachable state of the consumer, what the claims have put on the channel is what the
  worker has flushed, batch by batch, followed by its buffer and the channel: nothing is lost,
  duplicated or reordered between Kafka and the flushes.
\<close>

theorem consumer_conserves:
  assumes "(cstep ins)\<^sup>*\<^sup>* (NewDanmakuHandler db n) s"
  shows "cs_sent s = concat (map fst (cs_flushed s)) @ worker_buf (cs_worker s) @ ch_buf (cs_msgChan s)"
  using consumer_reaches [OF assms] by (simp add: cinv_def inv_conserve_def)

theorem consumer_conserves_witness:
  "cs_sent (sent_state empty_table 2 one_wire (Some one_danmaku)) = [Some one_danmaku] \<and>
   ch_buf (cs_msgChan (sent_state empty_table 2 one_wire (Some one_danmaku))) = [Some one_danmaku]"
  using consumer_conserves [OF demo_reach]
  by (simp add: run_states)

text \<open>
  C4. Marks follow delivery: what a claim has marked in a session is a gapless prefix of what it was
  delivered, at most one message is between the marks and the unread ones, and every marked message
  that parses has been put on the channel, in the order of the marks.
\<close>

theorem marks_in_order:
  assumes "(cstep ins)\<^sup>*\<^sup>* (NewDanmakuHandler db n) s" and "cs_pc s p \<noteq> CIdle"
  shows "(\<exists>mid. length mid \<le> 1 \<and> cs_delivered s p = cs_marked s p @ mid @ cs_claims s p) \<and>
    subseq (accepted (cs_marked s p)) (cs_sent s)"
proof -
  have inv: "claim_inv (cs_pc s p) (cs_delivered s p) (cs_marked s p) (cs_claims s p) (cs_handed s p)"
    and sent: "subseq (cs_handed s p) (cs_sent s)"
    using consumer_reaches [OF assms(1)] inv_claims_at by (auto simp: cinv_def inv_handed_def)
  then have "subseq (accepted (cs_marked s p)) (cs_handed s p)"
    by (auto simp: claim_inv_def split: claim_pc.splits)
  moreover have "\<exists>mid. length mid \<le> 1 \<and> cs_delivered s p = cs_marked s p @ mid @ cs_claims s p"
    using inv assms(2)
    by (auto simp: claim_inv_def intro: exI [of _ "[]"] exI [of _ "[_]"] split: claim_pc.splits)
  ultimately show ?thesis using sent subseq_order.order_trans by blast
qed

theorem marks_in_order_witness:
  "\<exists>mid. length mid \<le> 1 \<and>
     cs_delivered (sent_state empty_table 2 one_wire (Some one_danmaku)) 0 = mid"
  using marks_in_order [OF demo_reach, of 0] by (simp add: run_states)

text \<open>
  C5. With atomic inserts the database holds exactly the batches that were saved, in order, once
  each, and what it gained is a subsequence of what the claims put on the channel: no danmaku is
  stored twice by retries, none out of order, none that was not consumed.
\<close>

theorem stored_rows:
  assumes "atomic_insert ins rows" and "(cstep ins)\<^sup>*\<^sup>* (NewDanmakuHandler db n) s"
  shows "rows (cs_db s) = rows db @ saved (cs_flushed s) \<and> subseq (saved (cs_flushed s)) (cs_sent s)"
proof -
  have "subseq (saved (cs_flushed s)) (concat (map fst (cs_flushed s)))" by (rule saved_subseq)
  moreover have "\<exists>r. cs_sent s = concat (map fst (cs_flushed s)) @ r"
    using consumer_reaches [OF assms(2)] by (simp add: cinv_def inv_conserve_def)
  ultimately have "subseq (saved (cs_flushed s)) (cs_sent s)" by auto
  then show ?thesis
    using durable_store.run_rows [OF durable_store.intro [OF assms(1)] assms(2)] by simp
qed

theorem stored_rows_witness:
  "tb_rows (cs_db (settled_state table_insert \<lparr>tb_rows = [None], tb_outages = [True]\<rparr> 1 one_wire
     (Some one_danmaku))) = [None, Some one_danmaku]"
proof -
  let ?db = "\<lparr>tb_rows = [None], tb_outages = [True]\<rparr>"
  have "flushBuffer table_insert (\<lambda>_. False) [Some one_danmaku] ?db =
    (\<lparr>tb_rows = [None, Some one_danmaku], tb_outages = []\<rparr>, FlushSaved)"
    by (simp add: flushBuffer_def MaxDBRetries_def eval_nat_numeral CreateInBatches_def table_insert_def)
  note st = settled_state_flush [OF _ this, of 1]
  have "(cstep table_insert)\<^sup>*\<^sup>* (NewDanmakuHandler ?db 1)
      (settled_state table_insert ?db 1 one_wire (Some one_danmaku))"
    by (rule reach_settled [OF _ parse_one_wire]) simp
  from stored_rows [OF table_atomic this] st show ?thesis by (simp add: saved_def)
qed

text \<open>
  C12. The fate of a batch. A flush saves it by the first attempt that succeeds, gives it up at the
  back-off during which the context is cancelled, or drops it after \<open>MaxDBRetries\<close> failures; no
  attempt is made beyond those, and an empty batch never reaches the database.
\<close>

theorem flush_fate:
  "\<exists>db' out. flushBuffer ins cancelled b db = (db', out) \<and> flush_result ins cancelled b db db' out \<and>
     (out = FlushEmpty \<longleftrightarrow> b = [])"
proof -
  obtain db' out where f: "flushBuffer ins cancelled b db = (db', out)" by fastforce
  have "flush_loop ins cancelled b k db \<noteq> (db', FlushEmpty)" for k db
    by (induction k arbitrary: db) (auto split: prod.splits option.splits)
  with f have "out = FlushEmpty \<longleftrightarrow> b = []" by (cases b) (auto simp: flushBuffer_def)
  with f flushBuffer_result [OF f] show ?thesis by blast
qed

text \<open>
  On a database with atomic inserts a flush stores its batch exactly once when it reports it
  saved, and not at all otherwise, whatever attempts failed before.
\<close>

lemma flush_stores_once:
  assumes "atomic_insert ins rows" and "flushBuffer ins cancelled b db = (db', out)"
  shows "rows db' = rows db @ (if out = FlushSaved then b else [])"
  using assms by (rule flushBuffer_rows)

lemma flush_stores_once_example:
  "let db' = fst (flushBuffer table_insert (\<lambda>_. False) [Some one_danmaku]
       \<lparr>tb_rows = [None], tb_outages = [True, True]\<rparr>)
   in tb_rows db' = [None, Some one_danmaku]"
proof -
  have "flushBuffer table_insert (\<lambda>_. False) [Some one_danmaku] \<lparr>tb_rows = [None], tb_outages = [True, True]\<rparr> =
    (\<lparr>tb_rows = [None, Some one_danmaku], tb_outages = []\<rparr>, FlushSaved)"
    by (simp add: flushBuffer_def MaxDBRetries_def eval_nat_numeral CreateInBatches_def table_insert_def)
  from flush_stores_once [OF table_atomic this] this show ?thesis by simp
qed

text \<open>
  C18. Backpressure and batching bounds, in every reachable state: the channel never holds more than
  \<open>ChannelBufferSize\<close> entries, the worker's buffer stays below the batch size, and no flushed batch
  is larger than it (a batch size below one acts as one).
\<close>

theorem consumer_bounds:
  assumes "(cstep ins)\<^sup>*\<^sup>* (NewDanmakuHandler db n) s"
  shows "length (ch_buf (cs_msgChan s)) \<le> 2000 \<and> int (length (worker_buf (cs_worker s))) < max n 1 \<and>
    list_all (\<lambda>b. int (length b) \<le> max n 1) (map fst (cs_flushed s))"
proof -
  have "cs_batchSize s = n"
    using assms by (induction rule: rtranclp_induct)
      (simp_all add: cstep_batchSize, simp add: NewDanmakuHandler_def)
  then show ?thesis
    using consumer_reaches [OF assms]
    by (auto simp: cinv_def inv_chan_def inv_batch_def batch_limit_def ChannelBufferSize_def list_all_iff)
qed

theorem consumer_bounds_witness:
  "length (ch_buf (cs_msgChan (sent_state empty_table 2 one_wire (Some one_danmaku)))) \<le> 2000"
  using consumer_bounds [OF demo_reach] by simp

text \<open>
  C15. On a database whose inserts are atomic the consumer implements a batching queue, event by
  event. Whatever a run has sent on the channel (\<open>Accepted\<close>) and flushed with whatever outcome
  (\<open>Settled\<close>), the abstract queue can do the same in the same order: it appends what is accepted,
  each settled batch is exactly the front of the queue and at most the batch size, and a saved one
  is appended to the rows. What the queue then holds is what the worker's buffer and the channel
  hold, and its rows are the rows of the database. So the worker can neither lose, repeat nor
  reorder a danmaku between the channel and the database, retries included.
\<close>

theorem consumer_refines_queue:
  assumes "atomic_insert ins rows" and "trace (consumer_step ins) (NewDanmakuHandler db n) es s"
  shows "exec (queue_step n) es \<lparr>bq_waiting = [], bq_rows = rows db\<rparr> =
      Some \<lparr>bq_waiting = worker_buf (cs_worker s) @ ch_buf (cs_msgChan s), bq_rows = rows (cs_db s)\<rparr> \<and>
    accepted_of es = cs_sent s \<and> settled_of es = cs_flushed s"
proof -
  have "durable_store ins rows" using assms(1) by (simp add: durable_store_def)
  from durable_store.batched [OF this assms(2)] trace_history [OF assms(2)] show ?thesis
    by (simp add: queue_of_def NewDanmakuHandler_def)
qed

theorem consumer_refines_queue_witness:
  "\<exists>es. trace (consumer_step table_insert) (NewDanmakuHandler empty_table 2) es
       (sent_state empty_table 2 one_wire (Some one_danmaku)) \<and>
     accepted_of es = [Some one_danmaku] \<and>
     exec (queue_step 2) es \<lparr>bq_waiting = [], bq_rows = []\<rparr> =
       Some \<lparr>bq_waiting = [Some one_danmaku], bq_rows = []\<rparr>"
proof -
  obtain es where es: "trace (consumer_step table_insert) (NewDanmakuHandler empty_table 2) es
      (sent_state empty_table 2 one_wire (Some one_danmaku))"
    using run_shows [OF demo_reach] by blast
  from consumer_refines_queue [OF table_atomic es] have "accepted_of es = [Some one_danmaku] \<and>
      exec (queue_step 2) es \<lparr>bq_waiting = [], bq_rows = []\<rparr> =
        Some \<lparr>bq_waiting = [Some one_danmaku], bq_rows = []\<rparr>"
    by (simp add: run_states empty_table_def)
  with es show ?thesis by blast
qed

section \<open>Shutting down\<close>

text \<open>
  C20. A clean shutdown is always possible: from every reachable state in which \<open>Cleanup\<close> waits for a
  worker that still runs, the worker can drain the closed channel and \<open>Cleanup\<close> return, with every
  danmaku ever accepted flushed.
\<close>

theorem cleanup_drains:
  assumes "(cstep ins)\<^sup>*\<^sup>* (NewDanmakuHandler db n) s" and "\<not> cs_panicked s"
    and "cs_phase s = Cleaning" and "cs_worker s = WRunning b"
  shows "\<exists>t. (cstep ins)\<^sup>*\<^sup>* s t \<and> cs_phase t = Outside \<and> \<not> cs_panicked t \<and>
    cs_sent t = cs_sent s \<and> concat (map fst (cs_flushed t)) = cs_sent s"
proof -
  have "draining s" using assms consumer_reaches [OF assms(1)] by (simp add: draining_def)
  then obtain u where "(cstep ins)\<^sup>*\<^sup>* s u" "draining u" "ch_buf (cs_msgChan u) = []" "cs_sent u = cs_sent s"
    using drain_all by blast
  moreover from this obtain t where "(cstep ins)\<^sup>*\<^sup>* u t" "cs_phase t = Outside" "\<not> cs_panicked t"
    "cs_sent t = cs_sent u" "concat (map fst (cs_flushed t)) = cs_sent t"
    using drain_exit by blast
  ultimately show ?thesis by (metis rtranclp_trans)
qed

theorem cleanup_drains_witness:
  "\<exists>t. (cstep table_insert)\<^sup>*\<^sup>* (closing_state empty_table 2 one_wire (Some one_danmaku)) t \<and>
     cs_phase t = Outside \<and> concat (map fst (cs_flushed t)) = [Some one_danmaku]"
proof -
  have "(cstep table_insert)\<^sup>*\<^sup>* (NewDanmakuHandler empty_table 2)
      (closing_state empty_table 2 one_wire (Some one_danmaku))"
    by (rule reach_closing [OF _ parse_one_wire]) simp
  from cleanup_drains [OF this] show ?thesis by (auto simp: closing_state_def run_states)
qed

text \<open>
  C32. It is not guaranteed: for every message that parses there is a run in which it is marked, the
  session ends with \<open>Cleanup\<close> having waited for the worker, and its danmaku is neither flushed nor
  reported dropped. The worker may take \<open>ctx.Done()\<close> while the channel still holds messages.
\<close>

theorem cancelled_session_loses:
  assumes "parseMessage msg = Inr d" and "0 \<le> n"
  shows "\<exists>s. (cstep ins)\<^sup>*\<^sup>* (NewDanmakuHandler db n) s \<and> cs_phase s = Outside \<and> \<not> cs_panicked s \<and>
    cs_marked s 0 = [msg] \<and> cs_sent s = [d] \<and> cs_flushed s = [] \<and> cs_db s = db"
  using reach_lost [OF assms(2,1)]
  by (intro exI [of _ "lost_state db n msg d"]) (simp add: lost_state_def closing_state_def run_states)

theorem cancelled_session_loses_witness:
  "\<exists>s. (cstep table_insert)\<^sup>*\<^sup>* (NewDanmakuHandler empty_table 2) s \<and> cs_marked s 0 = [one_wire] \<and>
     cs_flushed s = []"
  using cancelled_session_loses [OF parse_one_wire, of 2 table_insert empty_table] by auto

section \<open>Joining a second session\<close>

text \<open>
  C35. \<open>Cleanup\<close> closes the handler's only channel for good: from the first close on, no claim of any
  later session gets a danmaku through.
\<close>

theorem no_send_after_cleanup:
  assumes "(cstep ins)\<^sup>*\<^sup>* (NewDanmakuHandler db n) s" and "0 < cs_closes s" and "(cstep ins)\<^sup>*\<^sup>* s t"
  shows "ch_closed (cs_msgChan t) \<and> cs_sent t = cs_sent s"
proof -
  have "cinv t" using consumer_reaches [OF rtranclp_trans [OF assms(1,3)]] .
  moreover have "0 < cs_closes t \<and> cs_sent t = cs_sent s"
    using run_after_close [OF assms(3) consumer_reaches [OF assms(1)] assms(2)] .
  ultimately show ?thesis by (simp add: cinv_def inv_chan_def)
qed

theorem no_send_after_cleanup_witness:
  "ch_closed (cs_msgChan (rejoined_state empty_table 2))"
proof -
  have "(cstep table_insert)\<^sup>*\<^sup>* (NewDanmakuHandler empty_table 2) (rejoined_state empty_table 2)"
    by (rule reach_rejoined) simp
  from no_send_after_cleanup [OF this _ rtranclp.rtrancl_refl] show ?thesis
    by (simp add: rejoined_state_def run_states)
qed

text \<open>
  C33. A rebalance crashes the process. Once \<open>Cleanup\<close> has closed the channel, every send a claim tries
  on it panics, in whatever state; and any message that parses, delivered first in a second session,
  leads there: a run that ended its first session without a panic and closed the channel once reaches
  a state of the second in which that message is the only one delivered and the claim is at its send,
  and the send is a step to the panic.
\<close>

theorem rejoin_panics:
  assumes "parseMessage msg = Inr d" and "0 \<le> n"
  shows "(\<forall>s p m e. (cstep ins)\<^sup>*\<^sup>* (NewDanmakuHandler db n) s \<and> 0 < cs_closes s \<and> cs_pc s p = CSending m e \<longrightarrow>
      ConsumeClaim_send p s = Some (s\<lparr>cs_panicked := True\<rparr>)) \<and>
    (\<exists>s. (cstep ins)\<^sup>*\<^sup>* (NewDanmakuHandler db n) s \<and> \<not> cs_panicked s \<and> cs_phase s = InSession \<and>
      cs_closes s = 1 \<and> cs_delivered s 0 = [msg] \<and> cs_pc s 0 = CSending msg d \<and>
      ConsumeClaim_send 0 s = Some (s\<lparr>cs_panicked := True\<rparr>) \<and> cstep ins s (s\<lparr>cs_panicked := True\<rparr>))"
proof
  show "\<forall>s p m e. (cstep ins)\<^sup>*\<^sup>* (NewDanmakuHandler db n) s \<and> 0 < cs_closes s \<and> cs_pc s p = CSending m e \<longrightarrow>
      ConsumeClaim_send p s = Some (s\<lparr>cs_panicked := True\<rparr>)"
    using send_after_close consumer_reaches by metis
  let ?s = "offered 0 msg d (rejoined_state db n)"
  have run: "(cstep ins)\<^sup>*\<^sup>* (NewDanmakuHandler db n) ?s" by (rule reach_second_offer [OF assms(2,1)])
  have f: "\<not> cs_panicked ?s" "cs_phase ?s = InSession" "cs_closes ?s = 1" "cs_delivered ?s 0 = [msg]"
    "cs_pc ?s 0 = CSending msg d"
    by (simp_all add: offered_def rejoined_state_def deliver_msg_def open_claim_def run_states)
  have send: "ConsumeClaim_send 0 ?s = Some (?s\<lparr>cs_panicked := True\<rparr>)"
    using f by (intro send_after_close [OF consumer_reaches [OF run]]) simp_all
  then have "cstep ins ?s (?s\<lparr>cs_panicked := True\<rparr>)" using f(1) by (intro claim_send)
  with run f send show "\<exists>s. (cstep ins)\<^sup>*\<^sup>* (NewDanmakuHandler db n) s \<and> \<not> cs_panicked s \<and> cs_phase s = InSession \<and>
      cs_closes s = 1 \<and> cs_delivered s 0 = [msg] \<and> cs_pc s 0 = CSending msg d \<and>
      ConsumeClaim_send 0 s = Some (s\<lparr>cs_panicked := True\<rparr>) \<and> cstep ins s (s\<lparr>cs_panicked := True\<rparr>)" by blast
qed

theorem rejoin_panics_witness:
  "\<exists>s. (cstep table_insert)\<^sup>*\<^sup>* (NewDanmakuHandler empty_table 2) s \<and> \<not> cs_panicked s \<and>
     cs_pc s 0 = CSending one_wire (Some one_danmaku) \<and>
     ConsumeClaim_send 0 s = Some (s\<lparr>cs_panicked := True\<rparr>)"
proof -
  have "0 \<le> (2 :: int)" by simp
  from rejoin_panics [OF parse_one_wire this, of table_insert empty_table] show ?thesis by blast
qed

section \<open>Packets that are not danmaku\<close>

text \<open>
  C34. A packet of another type is not skipped: \<open>parseMessage\<close> returns a nil pointer and no error,
  \<open>ConsumeClaim\<close> sends the pointer on, and a flush of a batch with the nil pointer in it follows.
\<close>

theorem skipped_packet_flushed:
  assumes "unmarshal_WsPacket v = (p, None)" and "wp_Type p \<noteq> TypeDanmaku"
  shows "parseMessage v = Inr None \<and>
    (\<exists>s out. (cstep ins)\<^sup>*\<^sup>* (NewDanmakuHandler db 1) s \<and> cs_flushed s = [([None], out)])"
proof -
  have parse: "parseMessage v = Inr None" using assms by (simp add: parseMessage_def)
  obtain db' out where "flushBuffer ins (\<lambda>_. False) [None] db = (db', out)" by fastforce
  then have "cs_flushed (settled_state ins db 1 v None) = [([None], out)]"
    using settled_state_flush [of 1 ins None db db' out v] by simp
  then show ?thesis using parse reach_settled [OF _ parse, of 1] by fastforce
qed

theorem skipped_packet_flushed_witness:
  "parseMessage ''{}'' = Inr None"
proof -
  have "unmarshal_WsPacket ''{}'' = (zero_packet, None)" by code_simp
  from skipped_packet_flushed [OF this, of table_insert empty_table] show ?thesis
    by (simp add: zero_packet_def TypeDanmaku_def)
qed

end
