(* ===== verification/Client.thy ===== *)
theory Client
  imports Message GoChan
begin

text \<open>
  \<open>internal/ws/client.go\<close>, \<open>internal/ws/dispatcher.go\<close> and \<open>internal/api/chat_handler.go\<close>: one websocket
  connection as the server holds it, its two pumps round by round, the registry of message handlers,
  and the validation of a connection request. The websocket itself is not code of this repository;
  what a read or a write of it returns is an argument.
\<close>

section \<open>Client pointers\<close>

text \<open>The server keys its rooms by \<open>*Client\<close>, so identity is the address.\<close>

datatype client_ptr = ClientPtr nat

primrec addr :: "client_ptr \<Rightarrow> nat" where
  "addr (ClientPtr n) = n"

instantiation client_ptr :: linorder
begin

definition less_eq_client_ptr :: "client_ptr \<Rightarrow> client_ptr \<Rightarrow> bool" where
  "less_eq_client_ptr p q \<longleftrightarrow> addr p \<le> addr q"

definition less_client_ptr :: "client_ptr \<Rightarrow> client_ptr \<Rightarrow> bool" where
  "less_client_ptr p q \<longleftrightarrow> addr p < addr q"

instance
proof
  fix p q :: client_ptr
  show "p \<le> q \<Longrightarrow> q \<le> p \<Longrightarrow> p = q"
    by (cases p; cases q) (simp add: less_eq_client_ptr_def)
qed (auto simp: less_eq_client_ptr_def less_client_ptr_def)

end

section \<open>The client\<close>

definition SendChanSize :: nat where "SendChanSize = 4096"

text \<open>
  Of the socket the model keeps whether the server has closed it and the text messages written
  to it; of \<open>done\<close>, which carries nothing, whether it is closed; of \<open>once\<close>, whether it has run.
\<close>

record client =
  cl_UserID :: u64
  cl_Username :: string
  cl_RoomID :: string
  cl_Send :: "string gochan"
  cl_done_closed :: bool
  cl_once :: bool
  cl_socket_closed :: bool
  cl_written :: "string list"

definition NewClient :: "u64 \<Rightarrow> string \<Rightarrow> string \<Rightarrow> client" where
  "NewClient uid name room =
     \<lparr>cl_UserID = uid, cl_Username = name, cl_RoomID = room, cl_Send = make_chan SendChanSize,
      cl_done_closed = False, cl_once = False, cl_socket_closed = False, cl_written = []\<rparr>"

text \<open>\<open>Close\<close>; \<open>None\<close> is the panic of closing a closed channel.\<close>

definition Close :: "client \<Rightarrow> client option" where
  "Close c =
     (if cl_once c then Some c
      else if cl_done_closed c then None
      else Some (c\<lparr>cl_once := True, cl_done_closed := True, cl_socket_closed := True\<rparr>))"

text \<open>\<open>safeSend\<close> of the manager: a full buffer drops the message, a closed one would panic.\<close>

definition safeSend :: "client \<Rightarrow> string \<Rightarrow> client option" where
  "safeSend c payload =
     (case send_chan payload (cl_Send c) of
        Sent ch \<Rightarrow> Some (c\<lparr>cl_Send := ch\<rparr>)
      | SendBlocks \<Rightarrow> Some c
      | SendPanics \<Rightarrow> None)"

text \<open>
  One round of \<open>WritePump\<close> for a case of its \<open>select\<close>; the flag of the result says whether the pump
  goes on. Every return closes the socket.
\<close>

definition close_socket :: "client \<Rightarrow> client" where
  "close_socket c = c\<lparr>cl_socket_closed := True\<rparr>"

definition WritePump_message :: "bool \<Rightarrow> client \<Rightarrow> (client \<times> bool) option" where
  "WritePump_message write_ok c =
     (case recv_chan (cl_Send c) of
        Received message ch \<Rightarrow>
          if write_ok then Some (c\<lparr>cl_Send := ch, cl_written := cl_written c @ [message]\<rparr>, True)
          else Some (close_socket (c\<lparr>cl_Send := ch\<rparr>), False)
      | RecvClosed \<Rightarrow> Some (close_socket c, False)
      | RecvBlocks \<Rightarrow> None)"

definition WritePump_done :: "client \<Rightarrow> (client \<times> bool) option" where
  "WritePump_done c = (if cl_done_closed c then Some (close_socket c, False) else None)"

section \<open>The dispatcher\<close>

text \<open>
  A handler runs for a client on the manager's state (of a type \<open>'m\<close>), at a time. Beside its effect
  on that state it may end with a send on the \<open>Broadcast\<close> channel, where its goroutine can block, so the
  packet is part of the result.
\<close>

type_synonym 'm MessageHandler = "gotime \<Rightarrow> client \<Rightarrow> 'm \<Rightarrow> string \<Rightarrow> 'm \<times> WsPacket option"

type_synonym 'm registry = "int \<Rightarrow> 'm MessageHandler option"

definition RegisterAction :: "'m registry \<Rightarrow> int \<Rightarrow> 'm MessageHandler \<Rightarrow> 'm registry" where
  "RegisterAction actionRegistry msgType handler = actionRegistry(msgType := Some handler)"

definition Dispatch ::
  "'m registry \<Rightarrow> gotime \<Rightarrow> client \<Rightarrow> 'm \<Rightarrow> int \<Rightarrow> string \<Rightarrow> 'm \<times> WsPacket option" where
  "Dispatch actionRegistry now c m msgType data =
     (case actionRegistry msgType of
        Some handler \<Rightarrow> handler now c m data
      | None \<Rightarrow> (m, None))"

text \<open>A round of \<open>ReadPump\<close> with a message: a text that is no packet is skipped.\<close>

definition ReadPump_message ::
  "'m registry \<Rightarrow> gotime \<Rightarrow> client \<Rightarrow> 'm \<Rightarrow> string \<Rightarrow> 'm \<times> WsPacket option" where
  "ReadPump_message actionRegistry now c m messageBytes =
     (case unmarshal_WsPacket messageBytes of
        (_, Some err) \<Rightarrow> (m, None)
      | (packet, None) \<Rightarrow>
          Dispatch actionRegistry now c m (wp_Type packet) (raw_bytes (wp_Data packet)))"

section \<open>Connecting\<close>

text \<open>\<open>uid\<close>, \<open>name\<close> and \<open>room\<close> of the request's query, absent ones empty.\<close>

record connect_query =
  cq_uid :: string
  cq_name :: string
  cq_room :: string

datatype connect_result = BadRequest string | UpgradeFailed | Connected client

definition ConnectWebSocket :: "connect_query \<Rightarrow> bool \<Rightarrow> connect_result" where
  "ConnectWebSocket q upgrade_ok =
     (if cq_uid q = [] \<or> cq_room q = [] then BadRequest ''Missing uid or room''
      else (case ParseUint (cq_uid q) of
              Inl err \<Rightarrow> BadRequest ''Invalid uid format, must be numeric''
            | Inr uid \<Rightarrow>
                if \<not> upgrade_ok then UpgradeFailed
                else Connected (NewClient (of_nat uid) (cq_name q) (cq_room q))))"

section \<open>Facts of one client\<close>

text \<open>
  What holds of every client the server has made: the send channel is never closed and keeps its
  bound, and \<open>done\<close> is closed exactly when \<open>once\<close> has run.
\<close>

definition client_ok :: "client \<Rightarrow> bool" where
  "client_ok c \<longleftrightarrow>
     \<not> ch_closed (cl_Send c) \<and> ch_cap (cl_Send c) = SendChanSize \<and>
     length (ch_buf (cl_Send c)) \<le> SendChanSize \<and> (cl_done_closed c \<longleftrightarrow> cl_once c)"

definition same_user :: "client \<Rightarrow> client \<Rightarrow> bool" where
  "same_user c c' \<longleftrightarrow> cl_UserID c' = cl_UserID c \<and> cl_Username c' = cl_Username c \<and> cl_RoomID c' = cl_RoomID c"

lemma same_userI [intro]: "same_user c c"
  by (simp add: same_user_def)

lemma NewClient_ok [simp]: "client_ok (NewClient uid name room)"
  by (simp add: client_ok_def NewClient_def)

lemma Close_ok:
  assumes "client_ok c"
  obtains c' where "Close c = Some c'" and "client_ok c'" and "cl_done_closed c'" and "same_user c c'"
    and "cl_Send c' = cl_Send c" and "cl_written c' = cl_written c"
proof -
  have "\<exists>c'. Close c = Some c' \<and> client_ok c' \<and> cl_done_closed c' \<and> same_user c c' \<and>
      cl_Send c' = cl_Send c \<and> cl_written c' = cl_written c"
    using assms by (auto simp: Close_def client_ok_def same_user_def)
  with that show thesis by blast
qed

lemma safeSend_ok:
  assumes "client_ok c"
  obtains c' where "safeSend c p = Some c'" and "client_ok c'" and "same_user c c'"
    and "cl_done_closed c' = cl_done_closed c" and "cl_written c' = cl_written c"
    and "ch_buf (cl_Send c') = ch_buf (cl_Send c) @ [p] \<or>
      c' = c \<and> length (ch_buf (cl_Send c)) = SendChanSize"
proof -
  have "\<exists>c'. safeSend c p = Some c' \<and> client_ok c' \<and> same_user c c' \<and>
      cl_done_closed c' = cl_done_closed c \<and> cl_written c' = cl_written c \<and>
      (ch_buf (cl_Send c') = ch_buf (cl_Send c) @ [p] \<or>
       c' = c \<and> length (ch_buf (cl_Send c)) = SendChanSize)"
    using assms by (auto simp: safeSend_def client_ok_def same_user_def send_chan_def)
  with that show thesis by blast
qed

lemma WritePump_message_ok:
  assumes "client_ok c" and "WritePump_message w c = Some (c', on)"
  shows "client_ok c' \<and> same_user c c' \<and> cl_done_closed c' = cl_done_closed c \<and>
    set (cl_written c' @ ch_buf (cl_Send c')) \<subseteq> set (cl_written c @ ch_buf (cl_Send c)) \<and>
    (on \<longrightarrow> cl_written c' @ ch_buf (cl_Send c') = cl_written c @ ch_buf (cl_Send c))"
  using assms
  by (auto simp: WritePump_message_def client_ok_def same_user_def close_socket_def chan_simps
      split: recv_result.splits if_splits)

lemma WritePump_done_ok:
  assumes "client_ok c" and "WritePump_done c = Some (c', on)"
  shows "client_ok c' \<and> same_user c c' \<and> cl_done_closed c' = cl_done_closed c \<and>
    cl_written c' = cl_written c \<and> cl_Send c' = cl_Send c"
  using assms
  by (auto simp: WritePump_done_def client_ok_def same_user_def close_socket_def split: if_splits)

lemma close_socket_ok [simp]:
  "client_ok (close_socket c) = client_ok c" "same_user c (close_socket c)"
  "cl_done_closed (close_socket c) = cl_done_closed c" "cl_Send (close_socket c) = cl_Send c"
  "cl_written (close_socket c) = cl_written c"
  by (simp_all add: close_socket_def client_ok_def same_user_def)

lemma Connected_NewClient:
  "ConnectWebSocket q ok = Connected c \<longleftrightarrow>
     ok \<and> cq_room q \<noteq> [] \<and>
     (\<exists>n. ParseUint (cq_uid q) = Inr n \<and> c = NewClient (of_nat n) (cq_name q) (cq_room q))"
  by (auto simp: ConnectWebSocket_def ParseUint_def split: sum.splits)

end
