(* ===== verification/JobPool.thy ===== *)
theory JobPool
  imports Client "HOL-Library.Multiset"
begin

text \<open>
  How \<open>internal/ws/manager.go\<close> fans a message out: the pool of reusable slices, the job channel, and
  the workers. Slices share backing arrays, so the model has a store of arrays, and a slice is an
  address in it; a worker reads the array again for every client. The manager recycles an array as
  soon as a worker is done with it; that no array is ever in use twice is what the refinement to
  plain lists rests on.
\<close>

section \<open>State\<close>

definition InitClientPoolCap :: nat where "InitClientPoolCap = 500"
definition BroadcastJobChanSize :: nat where "BroadcastJobChanSize = 1000"
definition WorkerCount :: nat where "WorkerCount = 100"

text \<open>The slice of a job is the first \<open>bj_len\<close> entries of the array at \<open>bj_arr\<close>.\<close>

record BroadcastJob =
  bj_arr :: nat
  bj_len :: nat
  bj_Payload :: string

text \<open>
  \<open>jp_arrays\<close> is the store (an array's length is the capacity of its slices), \<open>jp_next\<close> the next fresh
  address, \<open>jp_pool\<close> the slices in the pool. Of each worker \<open>jp_work\<close> holds the job it is at and the
  index it has come to.
\<close>

record jobpool =
  jp_arrays :: "nat \<Rightarrow> client_ptr option list"
  jp_next :: nat
  jp_pool :: "nat list"
  jp_chan :: "BroadcastJob gochan"
  jp_work :: "(BroadcastJob \<times> nat) option list"

definition new_pool :: jobpool where
  "new_pool =
     \<lparr>jp_arrays = (\<lambda>_. []), jp_next = 0, jp_pool = [], jp_chan = make_chan BroadcastJobChanSize,
      jp_work = replicate WorkerCount None\<rparr>"

section \<open>Operations\<close>

text \<open>
  \<open>sync.Pool\<close> may give any slice it holds, or make a new one (it may have dropped all it held);
  \<open>choice\<close> says which. What a call of \<open>New\<close> makes is fresh.
\<close>

definition alloc_array :: "client_ptr option list \<Rightarrow> jobpool \<Rightarrow> nat \<times> jobpool" where
  "alloc_array xs jp =
     (jp_next jp, jp\<lparr>jp_arrays := (jp_arrays jp)(jp_next jp := xs), jp_next := Suc (jp_next jp)\<rparr>)"

definition pool_get :: "nat option \<Rightarrow> jobpool \<Rightarrow> nat \<times> jobpool" where
  "pool_get choice jp =
     (case choice of
        Some i \<Rightarrow>
          if i < length (jp_pool jp)
          then (jp_pool jp ! i, jp\<lparr>jp_pool := take i (jp_pool jp) @ drop (Suc i) (jp_pool jp)\<rparr>)
          else alloc_array (replicate InitClientPoolCap None) jp
      | None \<Rightarrow> alloc_array (replicate InitClientPoolCap None) jp)"

definition pool_put :: "nat \<Rightarrow> jobpool \<Rightarrow> jobpool" where
  "pool_put a jp = jp\<lparr>jp_pool := jp_pool jp @ [a]\<rparr>"

text \<open>
  The loop of appends to a slice reset to length 0: it overwrites the front of the array while it
  has room, and moves to a new array (of a capacity \<open>grow\<close> the run time chooses) when it has not.
\<close>

definition fill_slice :: "nat \<Rightarrow> client_ptr list \<Rightarrow> nat \<Rightarrow> jobpool \<Rightarrow> nat \<times> jobpool" where
  "fill_slice grow xs a jp =
     (if length xs \<le> length (jp_arrays jp a)
      then (a, jp\<lparr>jp_arrays := (jp_arrays jp)(a := map Some xs @ drop (length xs) (jp_arrays jp a))\<rparr>)
      else alloc_array (map Some xs @ replicate (grow - length xs) None) jp)"

text \<open>The non-blocking dispatch: a full queue drops the job and recycles its slice.\<close>

definition dispatch_job :: "nat option \<Rightarrow> nat \<Rightarrow> client_ptr list \<Rightarrow> string \<Rightarrow> jobpool \<Rightarrow> jobpool" where
  "dispatch_job choice grow targets payload jp =
     (case pool_get choice jp of (a0, jp1) \<Rightarrow>
       (case fill_slice grow targets a0 jp1 of (a, jp2) \<Rightarrow>
         (case send_chan \<lparr>bj_arr = a, bj_len = length targets, bj_Payload = payload\<rparr> (jp_chan jp2) of
            Sent ch \<Rightarrow> jp2\<lparr>jp_chan := ch\<rparr>
          | _ \<Rightarrow> pool_put a jp2)))"

text \<open>\<open>broadcastWorker\<close>: take a job, send to one client after the other, give the slice back.\<close>

definition worker_take :: "nat \<Rightarrow> jobpool \<Rightarrow> jobpool option" where
  "worker_take w jp =
     (if w < length (jp_work jp) \<and> jp_work jp ! w = None then
        (case recv_chan (jp_chan jp) of
           Received job ch \<Rightarrow> Some (jp\<lparr>jp_chan := ch, jp_work := (jp_work jp)[w := Some (job, 0)]\<rparr>)
         | _ \<Rightarrow> None)
      else None)"

text \<open>The client and payload of the next \<open>safeSend\<close>; \<open>None\<close> as a client is a nil pointer.\<close>

definition worker_next :: "nat \<Rightarrow> jobpool \<Rightarrow> (client_ptr option \<times> string \<times> jobpool) option" where
  "worker_next w jp =
     (if w < length (jp_work jp) then
        (case jp_work jp ! w of
           Some (job, i) \<Rightarrow>
             if i < bj_len job
             then Some (jp_arrays jp (bj_arr job) ! i, bj_Payload job,
                        jp\<lparr>jp_work := (jp_work jp)[w := Some (job, Suc i)]\<rparr>)
             else None
         | None \<Rightarrow> None)
      else None)"

definition worker_finish :: "nat \<Rightarrow> jobpool \<Rightarrow> jobpool option" where
  "worker_finish w jp =
     (if w < length (jp_work jp) then
        (case jp_work jp ! w of
           Some (job, i) \<Rightarrow>
             if i < bj_len job then None
             else Some (pool_put (bj_arr job) (jp\<lparr>jp_work := (jp_work jp)[w := None]\<rparr>))
         | None \<Rightarrow> None)
      else None)"

section \<open>The abstract fan-out\<close>

text \<open>
  What the component promises: a bounded queue of pairs of a list of clients and a payload, and
  per worker the clients it still has to send to. No arrays, no recycling.
\<close>

record fanout =
  fo_queue :: "(client_ptr list \<times> string) list"
  fo_work :: "(client_ptr list \<times> string) option list"

definition fo_dispatch :: "client_ptr list \<Rightarrow> string \<Rightarrow> fanout \<Rightarrow> fanout" where
  "fo_dispatch xs p f =
     (if length (fo_queue f) < BroadcastJobChanSize then f\<lparr>fo_queue := fo_queue f @ [(xs, p)]\<rparr> else f)"

definition fo_take :: "nat \<Rightarrow> fanout \<Rightarrow> fanout option" where
  "fo_take w f =
     (case fo_queue f of
        job # rest \<Rightarrow>
          if w < length (fo_work f) \<and> fo_work f ! w = None
          then Some (f\<lparr>fo_queue := rest, fo_work := (fo_work f)[w := Some job]\<rparr>) else None
      | [] \<Rightarrow> None)"

definition fo_next :: "nat \<Rightarrow> fanout \<Rightarrow> (client_ptr option \<times> string \<times> fanout) option" where
  "fo_next w f =
     (if w < length (fo_work f) then
        (case fo_work f ! w of
           Some (x # xs, p) \<Rightarrow> Some (Some x, p, f\<lparr>fo_work := (fo_work f)[w := Some (xs, p)]\<rparr>)
         | _ \<Rightarrow> None)
      else None)"

definition fo_finish :: "nat \<Rightarrow> fanout \<Rightarrow> fanout option" where
  "fo_finish w f =
     (if w < length (fo_work f) then
        (case fo_work f ! w of
           Some ([], p) \<Rightarrow> Some (f\<lparr>fo_work := (fo_work f)[w := None]\<rparr>)
         | _ \<Rightarrow> None)
      else None)"

section \<open>Abstraction and invariant\<close>

definition targets_of :: "jobpool \<Rightarrow> BroadcastJob \<Rightarrow> client_ptr list" where
  "targets_of jp job = map the (take (bj_len job) (jp_arrays jp (bj_arr job)))"

definition job_view :: "jobpool \<Rightarrow> BroadcastJob \<Rightarrow> client_ptr list \<times> string" where
  "job_view jp job = (targets_of jp job, bj_Payload job)"

definition work_view :: "jobpool \<Rightarrow> BroadcastJob \<times> nat \<Rightarrow> client_ptr list \<times> string" where
  "work_view jp w = (drop (snd w) (targets_of jp (fst w)), bj_Payload (fst w))"

definition fanout_of :: "jobpool \<Rightarrow> fanout" where
  "fanout_of jp =
     \<lparr>fo_queue = map (job_view jp) (ch_buf (jp_chan jp)),
      fo_work = map (map_option (work_view jp)) (jp_work jp)\<rparr>"

definition work_jobs :: "(BroadcastJob \<times> nat) option list \<Rightarrow> BroadcastJob list" where
  "work_jobs ws = concat (map (\<lambda>w. case w of None \<Rightarrow> [] | Some (j, _) \<Rightarrow> [j]) ws)"

definition live_jobs :: "jobpool \<Rightarrow> BroadcastJob list" where
  "live_jobs jp = ch_buf (jp_chan jp) @ work_jobs (jp_work jp)"

text \<open>The arrays in use or in the pool: each once, and none of them fresh.\<close>

definition held :: "jobpool \<Rightarrow> nat multiset" where
  "held jp = mset (jp_pool jp) + mset (map bj_arr (live_jobs jp))"

definition full_slice :: "client_ptr option list \<Rightarrow> nat \<Rightarrow> bool" where
  "full_slice arr n \<longleftrightarrow> n \<le> length arr \<and> None \<notin> set (take n arr)"

definition jp_inv :: "jobpool \<Rightarrow> bool" where
  "jp_inv jp \<longleftrightarrow>
     (\<forall>a. count (held jp) a \<le> 1) \<and> (\<forall>a \<in># held jp. a < jp_next jp) \<and>
     (\<forall>j \<in> set (live_jobs jp). full_slice (jp_arrays jp (bj_arr j)) (bj_len j)) \<and>
     (\<forall>j i. Some (j, i) \<in> set (jp_work jp) \<longrightarrow> i \<le> bj_len j) \<and>
     length (jp_work jp) = WorkerCount \<and>
     \<not> ch_closed (jp_chan jp) \<and> ch_cap (jp_chan jp) = BroadcastJobChanSize \<and>
     length (ch_buf (jp_chan jp)) \<le> BroadcastJobChanSize"

section \<open>Facts\<close>

lemma jp_inv_new: "jp_inv new_pool"
  by (simp add: jp_inv_def new_pool_def held_def live_jobs_def work_jobs_def)

lemma work_jobs_simps [simp]:
  "work_jobs [] = []" "work_jobs (None # ws) = work_jobs ws"
  "work_jobs (Some (j, i) # ws) = j # work_jobs ws"
  "work_jobs (us @ ws) = work_jobs us @ work_jobs ws"
  by (simp_all add: work_jobs_def)

lemma work_jobs_set: "j \<in> set (work_jobs ws) \<longleftrightarrow> (\<exists>i. Some (j, i) \<in> set ws)"
  by (induction ws) (auto simp: work_jobs_def split: option.splits)

lemma work_jobs_update:
  assumes "w < length ws"
  shows "mset (work_jobs (ws[w := v])) + mset (work_jobs [ws ! w]) =
    mset (work_jobs ws) + mset (work_jobs [v])"
proof -
  let ?f = "\<lambda>x. work_jobs [x]"
  have all: "work_jobs ws = work_jobs (take w ws) @ ?f (ws ! w) @ work_jobs (drop (Suc w) ws)"
    using id_take_nth_drop [OF assms] by (metis append_Cons append_Nil work_jobs_simps(4))
  have "work_jobs (ws[w := v]) = work_jobs (take w ws) @ ?f v @ work_jobs (drop (Suc w) ws)"
    unfolding upd_conv_take_nth_drop [OF assms]
    by (metis append_Cons append_Nil work_jobs_simps(4))
  then show ?thesis by (subst all) simp
qed

lemma live_held: "j \<in> set (live_jobs jp) \<Longrightarrow> bj_arr j \<in># held jp"
  by (simp add: held_def)

text \<open>The views depend only on the arrays of live jobs.\<close>

lemma fanout_of_cong:
  assumes "jp_chan jp' = jp_chan jp" and "jp_work jp' = jp_work jp"
    and "\<And>j. j \<in> set (live_jobs jp) \<Longrightarrow> jp_arrays jp' (bj_arr j) = jp_arrays jp (bj_arr j)"
  shows "fanout_of jp' = fanout_of jp"
proof -
  have tg: "targets_of jp' j = targets_of jp j" if "j \<in> set (live_jobs jp)" for j
    using assms(3) [OF that] by (simp add: targets_of_def)
  have "map (job_view jp') (ch_buf (jp_chan jp)) = map (job_view jp) (ch_buf (jp_chan jp))"
    by (simp add: job_view_def tg live_jobs_def)
  moreover have "work_view jp' w = work_view jp w" if "Some w \<in> set (jp_work jp)" for w
  proof -
    have "fst w \<in> set (live_jobs jp)"
      using that by (cases w) (auto simp: live_jobs_def work_jobs_set)
    from tg [OF this] show ?thesis by (simp add: work_view_def)
  qed
  then have "map (map_option (work_view jp')) (jp_work jp) = map (map_option (work_view jp)) (jp_work jp)"
    by (auto intro!: option.map_cong)
  ultimately show ?thesis using assms(1,2) by (simp add: fanout_of_def)
qed

section \<open>An array of one's own\<close>

text \<open>An array that the goroutine holds alone: not fresh, in no job, not in the pool.\<close>

definition owned :: "nat \<Rightarrow> jobpool \<Rightarrow> bool" where
  "owned a jp \<longleftrightarrow> jp_inv jp \<and> a \<notin># held jp \<and> a < jp_next jp"

lemma alloc_array_owned:
  assumes "jp_inv jp" and "alloc_array xs jp = (a, jp')"
  shows "owned a jp' \<and> fanout_of jp' = fanout_of jp \<and> jp_arrays jp' a = xs"
proof -
  have a: "a = jp_next jp"
    and jp': "jp' = jp\<lparr>jp_arrays := (jp_arrays jp)(jp_next jp := xs), jp_next := Suc (jp_next jp)\<rparr>"
    using assms(2) by (auto simp: alloc_array_def)
  have held: "held jp' = held jp" and live: "live_jobs jp' = live_jobs jp"
    by (simp_all add: jp' held_def live_jobs_def)
  have fresh: "jp_next jp \<notin># held jp" using assms(1) by (auto simp: jp_inv_def)
  then have other: "jp_arrays jp' (bj_arr j) = jp_arrays jp (bj_arr j)" if "j \<in> set (live_jobs jp)" for j
    using live_held [OF that] by (auto simp: jp')
  have "jp_inv jp'"
    unfolding jp_inv_def held live
  proof (intro conjI)
    show "\<forall>a \<in># held jp. a < jp_next jp'" using assms(1) by (auto simp: jp_inv_def jp')
    show "\<forall>j \<in> set (live_jobs jp). full_slice (jp_arrays jp' (bj_arr j)) (bj_len j)"
      using assms(1) other by (simp add: jp_inv_def)
  qed (use assms(1) in \<open>simp_all add: jp_inv_def jp'\<close>)
  moreover have "fanout_of jp' = fanout_of jp"
    by (rule fanout_of_cong) (use other in \<open>simp_all add: jp'\<close>)
  moreover have "jp_next jp < jp_next jp'" "jp_arrays jp' (jp_next jp) = xs" by (simp_all add: jp')
  ultimately show ?thesis using fresh by (simp add: owned_def held a)
qed

lemma mset_remove_nth:
  "i < length xs \<Longrightarrow> mset xs = add_mset (xs ! i) (mset (take i xs @ drop (Suc i) xs))"
  by (subst id_take_nth_drop) simp_all

lemma pool_get_owned:
  assumes "jp_inv jp" and "pool_get choice jp = (a, jp')"
  shows "owned a jp' \<and> fanout_of jp' = fanout_of jp"
proof (cases "\<exists>i. choice = Some i \<and> i < length (jp_pool jp)")
  case True
  then obtain i where i: "choice = Some i" "i < length (jp_pool jp)" by blast
  have a: "a = jp_pool jp ! i"
    and jp': "jp' = jp\<lparr>jp_pool := take i (jp_pool jp) @ drop (Suc i) (jp_pool jp)\<rparr>"
    using assms(2) i by (simp_all add: pool_get_def)
  have live: "live_jobs jp' = live_jobs jp" by (simp add: jp' live_jobs_def)
  have held: "held jp = add_mset a (held jp')"
    using mset_remove_nth [OF i(2)] by (simp add: held_def live a) (simp add: jp')
  have inv: "\<forall>b. count (held jp) b \<le> 1" "\<forall>b \<in># held jp. b < jp_next jp"
    using assms(1) by (simp_all add: jp_inv_def)
  have less: "count (held jp') b \<le> 1" for b
    using inv(1) [rule_format, of b] unfolding held by (simp split: if_splits)
  have "count (held jp') a = 0" using inv(1) [rule_format, of a] unfolding held by simp
  then have not_held: "a \<notin># held jp'" by (simp add: not_in_iff)
  have "jp_inv jp'"
    using assms(1) less inv(2) unfolding jp_inv_def live held by (simp add: jp')
  then have "owned a jp'"
    using not_held inv(2) unfolding owned_def held by (simp add: jp')
  moreover have "fanout_of jp' = fanout_of jp" by (rule fanout_of_cong) (simp_all add: jp')
  ultimately show ?thesis by simp
next
  case False
  then have "alloc_array (replicate InitClientPoolCap None) jp = (a, jp')"
    using assms(2) by (auto simp: pool_get_def split: option.splits)
  with assms(1) show ?thesis using alloc_array_owned by blast
qed

lemma full_slice_front: "full_slice (map Some xs @ ys) (length xs)"
  by (auto simp: full_slice_def)

lemma fill_slice_owned:
  assumes "owned a jp" and "fill_slice grow xs a jp = (b, jp')"
  shows "owned b jp' \<and> fanout_of jp' = fanout_of jp \<and> (\<exists>ys. jp_arrays jp' b = map Some xs @ ys)"
proof (cases "length xs \<le> length (jp_arrays jp a)")
  case True
  have b: "b = a"
    and jp': "jp' = jp\<lparr>jp_arrays := (jp_arrays jp)(a := map Some xs @ drop (length xs) (jp_arrays jp a))\<rparr>"
    using assms(2) True by (auto simp: fill_slice_def)
  have held: "held jp' = held jp" and live: "live_jobs jp' = live_jobs jp"
    by (simp_all add: jp' held_def live_jobs_def)
  have other: "jp_arrays jp' (bj_arr j) = jp_arrays jp (bj_arr j)" if "j \<in> set (live_jobs jp)" for j
    using live_held [OF that] assms(1) by (auto simp: jp' owned_def)
  have "jp_inv jp'"
    unfolding jp_inv_def held live
  proof (intro conjI)
    show "\<forall>j \<in> set (live_jobs jp). full_slice (jp_arrays jp' (bj_arr j)) (bj_len j)"
      using assms(1) other by (simp add: owned_def jp_inv_def)
  qed (use assms(1) in \<open>simp_all add: owned_def jp_inv_def jp'\<close>)
  moreover have "fanout_of jp' = fanout_of jp"
    by (rule fanout_of_cong) (use other in \<open>simp_all add: jp'\<close>)
  moreover have "jp_next jp' = jp_next jp" "\<exists>ys. jp_arrays jp' a = map Some xs @ ys"
    by (simp_all add: jp')
  ultimately show ?thesis using assms(1) by (simp add: owned_def held b)
next
  case False
  then have al: "alloc_array (map Some xs @ replicate (grow - length xs) None) jp = (b, jp')"
    using assms(2) by (simp add: fill_slice_def)
  have "jp_inv jp" using assms(1) by (simp add: owned_def)
  from alloc_array_owned [OF this al] show ?thesis by auto
qed

lemma pool_put_inv:
  assumes "owned a jp"
  shows "jp_inv (pool_put a jp) \<and> fanout_of (pool_put a jp) = fanout_of jp"
proof -
  have live: "live_jobs (pool_put a jp) = live_jobs jp" by (simp add: pool_put_def live_jobs_def)
  have held: "held (pool_put a jp) = add_mset a (held jp)"
    by (simp add: held_def live) (simp add: pool_put_def)
  have "count (held jp) a = 0" using assms by (simp add: owned_def not_in_iff)
  then have "count (add_mset a (held jp)) b \<le> 1" for b
    using assms by (cases "a = b") (simp_all add: owned_def jp_inv_def)
  then have "jp_inv (pool_put a jp)"
    using assms unfolding jp_inv_def live held by (simp add: owned_def jp_inv_def) (simp add: pool_put_def)
  moreover have "fanout_of (pool_put a jp) = fanout_of jp"
    by (rule fanout_of_cong) (simp_all add: pool_put_def)
  ultimately show ?thesis by simp
qed

section \<open>The operations implement the abstract fan-out\<close>

lemma send_job:
  assumes "owned a jp" and arr: "jp_arrays jp a = map Some xs @ ys"
    and sent: "send_chan \<lparr>bj_arr = a, bj_len = length xs, bj_Payload = p\<rparr> (jp_chan jp) = Sent ch"
  shows "jp_inv (jp\<lparr>jp_chan := ch\<rparr>) \<and>
    fanout_of (jp\<lparr>jp_chan := ch\<rparr>) =
      (fanout_of jp)\<lparr>fo_queue := fo_queue (fanout_of jp) @ [(xs, p)]\<rparr>"
proof -
  let ?j = "\<lparr>bj_arr = a, bj_len = length xs, bj_Payload = p\<rparr>"
  let ?jp = "jp\<lparr>jp_chan := ch\<rparr>"
  have buf: "ch_buf ch = ch_buf (jp_chan jp) @ [?j]" using sent by (simp add: chan_simps)
  have ch: "\<not> ch_closed ch" "ch_cap ch = ch_cap (jp_chan jp)" "length (ch_buf ch) \<le> ch_cap ch"
    using sent chan.snd_within [OF sent] by (auto simp: chan_simps)
  have live: "set (live_jobs ?jp) = insert ?j (set (live_jobs jp))"
    by (auto simp: live_jobs_def buf)
  have held: "held ?jp = add_mset a (held jp)"
    by (simp add: held_def live_jobs_def buf)
  have "count (held jp) a = 0" using assms(1) by (simp add: owned_def not_in_iff)
  then have "count (add_mset a (held jp)) b \<le> 1" for b
    using assms(1) by (cases "a = b") (simp_all add: owned_def jp_inv_def)
  moreover have "full_slice (jp_arrays jp a) (length xs)" by (simp add: arr full_slice_front)
  ultimately have "jp_inv ?jp"
    using assms(1) ch unfolding jp_inv_def live held by (simp add: owned_def jp_inv_def)
  moreover have "targets_of jp ?j = xs" by (simp add: targets_of_def arr o_def)
  moreover have "job_view ?jp = job_view jp" "work_view ?jp = work_view jp"
    by (simp_all add: fun_eq_iff job_view_def work_view_def targets_of_def)
  ultimately have "jp_inv ?jp"
    "fanout_of ?jp = (fanout_of jp)\<lparr>fo_queue := fo_queue (fanout_of jp) @ [(xs, p)]\<rparr>"
    by (simp_all add: fanout_of_def buf) (simp add: job_view_def)
  then show ?thesis by simp
qed

lemma dispatch_job_refines:
  assumes "jp_inv jp"
  shows "jp_inv (dispatch_job choice grow xs p jp) \<and>
    fanout_of (dispatch_job choice grow xs p jp) = fo_dispatch xs p (fanout_of jp)"
proof -
  obtain a0 jp1 where g: "pool_get choice jp = (a0, jp1)" by fastforce
  obtain a jp2 where f: "fill_slice grow xs a0 jp1 = (a, jp2)" by fastforce
  have o1: "owned a0 jp1" "fanout_of jp1 = fanout_of jp" using pool_get_owned [OF assms g] by auto
  then obtain ys where o2: "owned a jp2" "fanout_of jp2 = fanout_of jp" "jp_arrays jp2 a = map Some xs @ ys"
    using fill_slice_owned [OF o1(1) f] by auto
  let ?j = "\<lparr>bj_arr = a, bj_len = length xs, bj_Payload = p\<rparr>"
  have inv: "jp_inv jp2" using o2(1) by (simp add: owned_def)
  have q: "length (fo_queue (fanout_of jp)) = length (ch_buf (jp_chan jp2))"
    unfolding o2(2) [symmetric] by (simp add: fanout_of_def)
  show ?thesis
  proof (cases "send_chan ?j (jp_chan jp2)")
    case (Sent ch)
    then have "length (ch_buf (jp_chan jp2)) < BroadcastJobChanSize"
      using inv by (simp add: chan_simps jp_inv_def)
    then show ?thesis
      using send_job [OF o2(1,3) Sent] g f Sent o2(2) q by (simp add: dispatch_job_def fo_dispatch_def)
  next
    case SendBlocks
    then have "\<not> length (ch_buf (jp_chan jp2)) < BroadcastJobChanSize"
      using inv by (simp add: chan_simps jp_inv_def)
    then show ?thesis
      using pool_put_inv [OF o2(1)] g f SendBlocks o2(2) q by (simp add: dispatch_job_def fo_dispatch_def)
  next
    case SendPanics
    then show ?thesis using inv by (simp add: chan_simps jp_inv_def)
  qed
qed

lemma worker_take_refines:
  assumes "jp_inv jp"
  shows "worker_take w jp = Some jp' \<Longrightarrow>
    jp_inv jp' \<and> fo_take w (fanout_of jp) = Some (fanout_of jp')"
proof -
  assume "worker_take w jp = Some jp'"
  then obtain j ch where w: "w < length (jp_work jp)" "jp_work jp ! w = None"
    and rv: "recv_chan (jp_chan jp) = Received j ch"
    and jp': "jp' = jp\<lparr>jp_chan := ch, jp_work := (jp_work jp)[w := Some (j, 0)]\<rparr>"
    by (auto simp: worker_take_def split: if_splits recv_result.splits)
  have buf: "ch_buf (jp_chan jp) = j # ch_buf ch" using chan.rcv_items [OF rv] .
  have ch: "ch_cap ch = ch_cap (jp_chan jp)" "ch_closed ch = ch_closed (jp_chan jp)"
    using chan.rcv_bound [OF rv] recv_keeps_closed [OF rv] by simp_all
  have "mset (work_jobs ((jp_work jp)[w := Some (j, 0)])) = mset (work_jobs (jp_work jp)) + {#j#}"
    using work_jobs_update [OF w(1), of "Some (j, 0)"] w(2) by simp
  then have m: "mset (live_jobs jp') = mset (live_jobs jp)"
    by (simp add: live_jobs_def jp' buf)
  then have live: "set (live_jobs jp') = set (live_jobs jp)" by (rule mset_eq_setD)
  have held: "held jp' = held jp" using m by (simp add: held_def mset_map) (simp add: jp')
  have "Some (k, i) \<in> set (jp_work jp') \<Longrightarrow> i \<le> bj_len k" for k i
    using assms set_update_subset_insert [of "jp_work jp" w "Some (j, 0)"]
    by (auto simp: jp_inv_def jp')
  then have "jp_inv jp'"
    using assms ch unfolding jp_inv_def live held by (simp add: jp' buf)
  moreover have "targets_of jp' = targets_of jp" by (rule ext) (simp add: targets_of_def jp')
  then have "fo_take w (fanout_of jp) = Some (fanout_of jp')"
    using w buf by (simp add: fo_take_def fanout_of_def job_view_def [abs_def] work_view_def [abs_def] jp'
        map_update)
  ultimately show ?thesis by simp
qed

lemma same_work_inv:
  assumes "jp_inv jp" and "mset (work_jobs ws) = mset (work_jobs (jp_work jp))"
    and "length ws = length (jp_work jp)" and "\<forall>j i. Some (j, i) \<in> set ws \<longrightarrow> i \<le> bj_len j"
  shows "jp_inv (jp\<lparr>jp_work := ws\<rparr>)"
proof -
  have m: "mset (live_jobs (jp\<lparr>jp_work := ws\<rparr>)) = mset (live_jobs jp)"
    using assms(2) by (simp add: live_jobs_def)
  then have live: "set (live_jobs (jp\<lparr>jp_work := ws\<rparr>)) = set (live_jobs jp)" by (rule mset_eq_setD)
  have held: "held (jp\<lparr>jp_work := ws\<rparr>) = held jp" using m by (simp add: held_def mset_map)
  show ?thesis
    using assms(1,3,4) unfolding jp_inv_def live held by simp
qed

lemma worker_next_refines:
  assumes inv: "jp_inv jp" and nxt: "worker_next w jp = Some (c, p, jp')"
  shows "jp_inv jp' \<and> fo_next w (fanout_of jp) = Some (c, p, fanout_of jp') \<and> c \<noteq> None"
proof -
  obtain j i where w: "w < length (jp_work jp)" "jp_work jp ! w = Some (j, i)" "i < bj_len j"
    and c: "c = jp_arrays jp (bj_arr j) ! i" and p: "p = bj_Payload j"
    and jp': "jp' = jp\<lparr>jp_work := (jp_work jp)[w := Some (j, Suc i)]\<rparr>"
    using nxt by (auto simp: worker_next_def split: if_splits option.splits prod.splits)
  have mem: "Some (j, i) \<in> set (jp_work jp)" using w nth_mem by metis
  then have "j \<in> set (live_jobs jp)" by (auto simp: live_jobs_def work_jobs_set)
  then have full: "full_slice (jp_arrays jp (bj_arr j)) (bj_len j)" using inv by (simp add: jp_inv_def)
  then have len: "length (targets_of jp j) = bj_len j" by (simp add: targets_of_def full_slice_def)
  have "jp_arrays jp (bj_arr j) ! i \<in> set (take (bj_len j) (jp_arrays jp (bj_arr j)))"
    using full w(3) by (auto simp: full_slice_def in_set_conv_nth intro: exI [of _ i])
  then have c_some: "c \<noteq> None" using full unfolding c full_slice_def by metis
  then have head: "c = Some (targets_of jp j ! i)"
    using full w(3) by (simp add: c targets_of_def full_slice_def)
  have dr: "drop i (targets_of jp j) = targets_of jp j ! i # drop (Suc i) (targets_of jp j)"
    using w(3) len by (simp add: Cons_nth_drop_Suc)
  have "mset (work_jobs ((jp_work jp)[w := Some (j, Suc i)])) = mset (work_jobs (jp_work jp))"
    using work_jobs_update [OF w(1), of "Some (j, Suc i)"] w(2) by simp
  moreover have "Some (k, m) \<in> set ((jp_work jp)[w := Some (j, Suc i)]) \<Longrightarrow> m \<le> bj_len k" for k m
    using inv w(3) set_update_subset_insert [of "jp_work jp" w "Some (j, Suc i)"]
    by (auto simp: jp_inv_def)
  ultimately have "jp_inv jp'"
    unfolding jp' using inv by (intro same_work_inv) auto
  moreover have "job_view jp' = job_view jp" "work_view jp' = work_view jp"
    by (simp_all add: fun_eq_iff job_view_def work_view_def targets_of_def jp')
  then have "fo_next w (fanout_of jp) = Some (c, p, fanout_of jp')"
    using w dr head
    by (simp add: fo_next_def fanout_of_def work_view_def p jp' map_update)
  ultimately show ?thesis using c_some by simp
qed

lemma worker_finish_refines:
  assumes inv: "jp_inv jp" and fin: "worker_finish w jp = Some jp'"
  shows "jp_inv jp' \<and> fo_finish w (fanout_of jp) = Some (fanout_of jp')"
proof -
  obtain j i where w: "w < length (jp_work jp)" "jp_work jp ! w = Some (j, i)" "\<not> i < bj_len j"
    and jp': "jp' = pool_put (bj_arr j) (jp\<lparr>jp_work := (jp_work jp)[w := None]\<rparr>)"
    using fin by (auto simp: worker_finish_def split: if_splits option.splits prod.splits)
  let ?jp = "jp\<lparr>jp_work := (jp_work jp)[w := None]\<rparr>"
  have mem: "Some (j, i) \<in> set (jp_work jp)" using w nth_mem by metis
  then have "j \<in> set (live_jobs jp)" by (auto simp: live_jobs_def work_jobs_set)
  then have full: "full_slice (jp_arrays jp (bj_arr j)) (bj_len j)" and small: "bj_arr j < jp_next jp"
    using inv live_held by (auto simp: jp_inv_def)
  have jobs: "mset (work_jobs (jp_work jp)) = add_mset j (mset (work_jobs ((jp_work jp)[w := None])))"
    using work_jobs_update [OF w(1), of None] w(2) by simp
  then have m: "mset (live_jobs jp) = add_mset j (mset (live_jobs ?jp))" by (simp add: live_jobs_def)
  then have live: "set (live_jobs jp) = insert j (set (live_jobs ?jp))"
    by (metis set_mset_add_mset_insert set_mset_mset)
  have held: "held jp = add_mset (bj_arr j) (held ?jp)"
    unfolding held_def mset_map m by simp
  have cnt: "count (held jp) b \<le> 1" for b using inv by (simp add: jp_inv_def)
  have "count (held ?jp) b \<le> 1" for b using cnt [of b] unfolding held by (simp split: if_splits)
  moreover have "count (held ?jp) (bj_arr j) = 0" using cnt [of "bj_arr j"] unfolding held by simp
  then have out: "bj_arr j \<notin># held ?jp" by (simp add: not_in_iff)
  moreover have "Some (k, n) \<in> set ((jp_work jp)[w := None]) \<Longrightarrow> n \<le> bj_len k" for k n
    using inv set_update_subset_insert [of "jp_work jp" w None] by (auto simp: jp_inv_def)
  ultimately have "jp_inv ?jp"
    using inv unfolding jp_inv_def live held by simp
  with out small have own: "owned (bj_arr j) ?jp" by (simp add: owned_def)
  have "targets_of ?jp = targets_of jp" by (rule ext) (simp add: targets_of_def)
  then have "job_view ?jp = job_view jp" "work_view ?jp = work_view jp"
    by (simp_all add: fun_eq_iff job_view_def work_view_def)
  moreover have "drop i (targets_of jp j) = []"
    using w(3) full by (simp add: targets_of_def full_slice_def)
  ultimately have "fo_finish w (fanout_of jp) = Some (fanout_of ?jp)"
    using w by (simp add: fo_finish_def fanout_of_def work_view_def map_update)
  then show ?thesis using pool_put_inv [OF own] by (simp add: jp')
qed

section \<open>The code can do what the abstract fan-out can\<close>

lemma worker_take_enabled:
  assumes "jp_inv jp" and "fo_take w (fanout_of jp) = Some f"
  shows "\<exists>jp'. worker_take w jp = Some jp' \<and> fanout_of jp' = f"
proof -
  have "worker_take w jp \<noteq> None"
    using assms(2)
    by (auto simp: fo_take_def fanout_of_def worker_take_def recv_chan_def split: list.splits if_splits)
  then show ?thesis using worker_take_refines [OF assms(1)] assms(2) by fastforce
qed

lemma worker_next_enabled:
  assumes "jp_inv jp" and "fo_next w (fanout_of jp) = Some (c, p, f)"
  shows "\<exists>jp'. worker_next w jp = Some (c, p, jp') \<and> fanout_of jp' = f"
proof -
  have w: "w < length (jp_work jp)" using assms(2) by (simp add: fo_next_def fanout_of_def split: if_splits)
  obtain j i where ji: "jp_work jp ! w = Some (j, i)" and "drop i (targets_of jp j) \<noteq> []"
    using assms(2) w
    by (auto simp: fo_next_def fanout_of_def work_view_def simp del: drop_eq_Nil
        split: option.splits list.splits)
  moreover have "length (targets_of jp j) \<le> bj_len j" by (simp add: targets_of_def)
  ultimately have "i < bj_len j" by simp
  then have "worker_next w jp \<noteq> None" using w ji by (simp add: worker_next_def)
  then show ?thesis using worker_next_refines [OF assms(1)] assms(2) by fastforce
qed

lemma worker_finish_enabled:
  assumes "jp_inv jp" and "fo_finish w (fanout_of jp) = Some f"
  shows "\<exists>jp'. worker_finish w jp = Some jp' \<and> fanout_of jp' = f"
proof -
  have w: "w < length (jp_work jp)" using assms(2) by (simp add: fo_finish_def fanout_of_def split: if_splits)
  obtain j i where ji: "jp_work jp ! w = Some (j, i)" and dr: "drop i (targets_of jp j) = []"
    using assms(2) w by (auto simp: fo_finish_def fanout_of_def work_view_def split: option.splits list.splits)
  have "Some (j, i) \<in> set (jp_work jp)" using w ji nth_mem by metis
  then have "j \<in> set (live_jobs jp)" by (auto simp: live_jobs_def work_jobs_set)
  then have "length (targets_of jp j) = bj_len j"
    using assms(1) by (simp add: jp_inv_def targets_of_def full_slice_def)
  then have "\<not> i < bj_len j" using dr by simp
  then have "worker_finish w jp \<noteq> None" using w ji by (simp add: worker_finish_def)
  then show ?thesis using worker_finish_refines [OF assms(1)] assms(2) by fastforce
qed

section \<open>Every run implements it\<close>

text \<open>
  The events of the fan-out: a message handed over for a list of clients, a worker that takes the
  oldest job, a \<open>safeSend\<close> of it to a client, a worker that is done with its job.
\<close>

datatype fan_event =
    Dispatched "client_ptr list" string
  | Taken nat
  | SentTo nat "client_ptr option" string
  | Finished nat

fun fo_step :: "fan_event \<Rightarrow> fanout \<Rightarrow> fanout option" where
  "fo_step (Dispatched xs p) f = Some (fo_dispatch xs p f)"
| "fo_step (Taken w) f = fo_take w f"
| "fo_step (SentTo w c p) f =
     (case fo_next w f of
        Some (c', p', f') \<Rightarrow> if c' = c \<and> p' = p then Some f' else None
      | None \<Rightarrow> None)"
| "fo_step (Finished w) f = fo_finish w f"

inductive pstep :: "jobpool \<Rightarrow> fan_event list \<Rightarrow> jobpool \<Rightarrow> bool" where
  dispatches: "pstep jp [Dispatched xs p] (dispatch_job choice grow xs p jp)"
| takes: "worker_take w jp = Some jp' \<Longrightarrow> pstep jp [Taken w] jp'"
| sends: "worker_next w jp = Some (c, p, jp') \<Longrightarrow> pstep jp [SentTo w c p] jp'"
| finishes: "worker_finish w jp = Some jp' \<Longrightarrow> pstep jp [Finished w] jp'"

lemma pstep_refines:
  "pstep jp es jp' \<Longrightarrow> jp_inv jp \<Longrightarrow>
   jp_inv jp' \<and> exec fo_step es (fanout_of jp) = Some (fanout_of jp')"
proof (induction rule: pstep.induct)
  case (dispatches jp xs p choice grow)
  then show ?case using dispatch_job_refines by simp
next
  case (takes w jp jp')
  then show ?case using worker_take_refines [of jp w jp'] by simp
next
  case (sends w jp c p jp')
  then show ?case using worker_next_refines [of jp w c p jp'] by simp
next
  case (finishes w jp jp')
  then show ?case using worker_finish_refines [of jp w jp'] by simp
qed

lemma pstep_offered:
  assumes "jp_inv jp" and "fo_step e (fanout_of jp) = Some f"
  shows "\<exists>jp'. pstep jp [e] jp' \<and> fanout_of jp' = f"
proof (cases e)
  case (Dispatched xs p)
  then show ?thesis
    using assms dispatch_job_refines [OF assms(1), of None 0 xs p] dispatches [of jp xs p None 0] by auto
next
  case (Taken w)
  then show ?thesis using assms worker_take_enabled takes by fastforce
next
  case (SentTo w c p)
  then have "fo_next w (fanout_of jp) = Some (c, p, f)"
    using assms(2) by (auto split: option.splits if_splits)
  then show ?thesis using assms(1) SentTo worker_next_enabled sends by metis
next
  case (Finished w)
  then show ?thesis using assms worker_finish_enabled finishes by fastforce
qed

interpretation pooling: offers pstep jp_inv fo_step fanout_of
  by unfold_locales (use pstep_refines pstep_offered in blast)+

end
