(* ===== verification/Redis.thy ===== *)
theory Redis
  imports Decimal
begin

text \<open>
  \<open>internal/infra/redis.go\<close>: the keys, and the operations of the server on Redis. The client
  library and the Redis server are not code of this repository: \<open>redis_api\<close> collects the commands
  the code calls, on a state of any type, and the locale \<open>redis_store\<close> states what Redis documents
  of them. Timeouts are among the errors a command may return.
\<close>

section \<open>Keys\<close>

definition KeyRoomPubSub :: "string \<Rightarrow> string" where
  "KeyRoomPubSub room = ''room:'' @ room @ '':pubsub''"

definition KeyRoomLikes :: "string \<Rightarrow> string" where
  "KeyRoomLikes room = ''room:'' @ room @ '':likes''"

definition KeyRoomServerOnline :: "string \<Rightarrow> string \<Rightarrow> string" where
  "KeyRoomServerOnline room server = ''room:'' @ room @ '':online:'' @ server"

definition KeyServerOfRoom :: "string \<Rightarrow> string" where
  "KeyServerOfRoom room = ''room:'' @ room @ '':servers''"

section \<open>Commands\<close>

datatype redis_error = RedisNil | RedisFailed

datatype redis_cmd = CmdSet string string nat | CmdSAdd string string

record 'r redis_api =
  rd_publish :: "'r \<Rightarrow> string \<Rightarrow> string \<Rightarrow> 'r \<times> redis_error option"
  rd_incr_by :: "'r \<Rightarrow> string \<Rightarrow> int \<Rightarrow> 'r \<times> redis_error option"
  rd_exec :: "'r \<Rightarrow> redis_cmd list \<Rightarrow> 'r \<times> redis_error option"
  rd_smembers :: "'r \<Rightarrow> string \<Rightarrow> redis_error + string list"
  rd_mget :: "'r \<Rightarrow> string list \<Rightarrow> redis_error + string option list"
  rd_get :: "'r \<Rightarrow> string \<Rightarrow> redis_error + string"
  rd_srem :: "'r \<Rightarrow> string \<Rightarrow> string \<Rightarrow> 'r \<times> redis_error option"

section \<open>Operations\<close>

text \<open>An error of a write is logged and otherwise ignored.\<close>

definition PublishToRoom :: "'r redis_api \<Rightarrow> 'r \<Rightarrow> string \<Rightarrow> string \<Rightarrow> 'r" where
  "PublishToRoom api rdb room payload = fst (rd_publish api rdb (KeyRoomPubSub room) payload)"

text \<open>\<open>int64(count)\<close> reinterprets the word.\<close>

definition IncrRoomLikes :: "'r redis_api \<Rightarrow> 'r \<Rightarrow> string \<Rightarrow> u64 \<Rightarrow> 'r" where
  "IncrRoomLikes api rdb room count = fst (rd_incr_by api rdb (KeyRoomLikes room) (sint count))"

definition UpdateServerOnline ::
  "'r redis_api \<Rightarrow> 'r \<Rightarrow> string \<Rightarrow> string \<Rightarrow> int \<Rightarrow> nat \<Rightarrow> 'r" where
  "UpdateServerOnline api rdb room server count ttl =
     fst (rd_exec api rdb
       [CmdSet (KeyRoomServerOnline room server) (show_int count) ttl,
        CmdSAdd (KeyServerOfRoom room) server])"

text \<open>
  The sum over the values of the servers' keys; the servers whose key has expired are collected for
  the asynchronous \<open>SRem\<close>. A value that is no decimal number is skipped.
\<close>

fun sum_online :: "(string \<times> string option) list \<Rightarrow> u64 \<Rightarrow> u64 \<times> string list" where
  "sum_online [] acc = (acc, [])"
| "sum_online ((server, None) # vs) acc = (case sum_online vs acc of (t, gone) \<Rightarrow> (t, server # gone))"
| "sum_online ((server, Some s) # vs) acc =
     (case ParseUint s of
        Inr i \<Rightarrow> sum_online vs (acc + of_nat i)
      | Inl _ \<Rightarrow> sum_online vs acc)"

definition GetTotalOnline :: "'r redis_api \<Rightarrow> 'r \<Rightarrow> string \<Rightarrow> u64 \<times> string list" where
  "GetTotalOnline api rdb room =
     (case rd_smembers api rdb (KeyServerOfRoom room) of
        Inl _ \<Rightarrow> (0, [])
      | Inr servers \<Rightarrow>
          if length servers = 0 then (0, [])
          else (case rd_mget api rdb (map (KeyRoomServerOnline room) servers) of
                  Inl _ \<Rightarrow> (0, [])
                | Inr vals \<Rightarrow> sum_online (zip servers vals) 0))"

text \<open>The result of \<open>ParseUint\<close> is used even when it reports an error.\<close>

definition GetRoomLikes :: "'r redis_api \<Rightarrow> 'r \<Rightarrow> string \<Rightarrow> u64" where
  "GetRoomLikes api rdb room =
     (case rd_get api rdb (KeyRoomLikes room) of
        Inl _ \<Rightarrow> 0
      | Inr val \<Rightarrow> uint_result (ParseUint val))"

section \<open>Keys never collide\<close>

text \<open>A server's name is a host name and a number, so it has no colon; a room may have any.\<close>

lemma after_last_colon:
  "r @ CHR '':'' # s = r' @ CHR '':'' # s' \<Longrightarrow> CHR '':'' \<notin> set s \<Longrightarrow> CHR '':'' \<notin> set s' \<Longrightarrow> r = r' \<and> s = s'"
  by (auto simp: append_eq_append_conv2 append_eq_Cons_conv Cons_eq_append_conv)

lemma server_key_inject:
  assumes "KeyRoomServerOnline r s = KeyRoomServerOnline r' s'"
    and "CHR '':'' \<notin> set s" and "CHR '':'' \<notin> set s'"
  shows "r = r' \<and> s = s'"
proof -
  have "(r @ '':online'') @ CHR '':'' # s = (r' @ '':online'') @ CHR '':'' # s'"
    using assms(1) by (simp add: KeyRoomServerOnline_def)
  from after_last_colon [OF this assms(2,3)] show ?thesis by simp
qed

lemma room_keys_inject [simp]:
  "KeyRoomPubSub r = KeyRoomPubSub r' \<longleftrightarrow> r = r'"
  "KeyRoomLikes r = KeyRoomLikes r' \<longleftrightarrow> r = r'"
  "KeyServerOfRoom r = KeyServerOfRoom r' \<longleftrightarrow> r = r'"
  by (simp_all add: KeyRoomPubSub_def KeyRoomLikes_def KeyServerOfRoom_def)

lemma last_part: "KeyRoomLikes r = u @ CHR '':'' # s \<Longrightarrow> CHR '':'' \<notin> set s \<Longrightarrow> s = ''likes''"
  "KeyServerOfRoom r = u @ CHR '':'' # s \<Longrightarrow> CHR '':'' \<notin> set s \<Longrightarrow> s = ''servers''"
  using after_last_colon [of "''room:'' @ r" "''likes''" u s]
    after_last_colon [of "''room:'' @ r" "''servers''" u s]
  by (simp_all add: KeyRoomLikes_def KeyServerOfRoom_def)

lemma kinds_differ:
  "KeyRoomLikes r \<noteq> KeyServerOfRoom r'"
  "CHR '':'' \<notin> set s \<Longrightarrow> s \<noteq> ''likes'' \<Longrightarrow> KeyRoomLikes r \<noteq> KeyRoomServerOnline r' s"
  "CHR '':'' \<notin> set s \<Longrightarrow> s \<noteq> ''servers'' \<Longrightarrow> KeyServerOfRoom r \<noteq> KeyRoomServerOnline r' s"
proof -
  show "KeyRoomLikes r \<noteq> KeyServerOfRoom r'"
    using last_part(1) [of r "''room:'' @ r'" "''servers''"] by (auto simp: KeyServerOfRoom_def)
  show "CHR '':'' \<notin> set s \<Longrightarrow> s \<noteq> ''likes'' \<Longrightarrow> KeyRoomLikes r \<noteq> KeyRoomServerOnline r' s"
    using last_part(1) [of r "''room:'' @ r' @ '':online''" s] by (auto simp: KeyRoomServerOnline_def)
  show "CHR '':'' \<notin> set s \<Longrightarrow> s \<noteq> ''servers'' \<Longrightarrow> KeyServerOfRoom r \<noteq> KeyRoomServerOnline r' s"
    using last_part(2) [of r "''room:'' @ r' @ '':online''" s] by (auto simp: KeyRoomServerOnline_def)
qed

text \<open>What the code assumes of a server's name.\<close>

definition server_ok :: "string \<Rightarrow> bool" where
  "server_ok s \<longleftrightarrow> CHR '':'' \<notin> set s \<and> s \<noteq> ''likes'' \<and> s \<noteq> ''servers''"

section \<open>What Redis promises\<close>

definition counter :: "string option \<Rightarrow> int option" where
  "counter v = (case v of None \<Rightarrow> Some 0 | Some s \<Rightarrow> (case ParseInt s of Inr i \<Rightarrow> Some i | Inl _ \<Rightarrow> None))"

text \<open>What a server's key contributes.\<close>

definition online_of :: "('r \<Rightarrow> string \<Rightarrow> string option) \<Rightarrow> 'r \<Rightarrow> string \<Rightarrow> string \<Rightarrow> u64" where
  "online_of strs r room server =
     (case strs r (KeyRoomServerOnline room server) of
        None \<Rightarrow> 0
      | Some s \<Rightarrow> (case ParseUint s of Inr i \<Rightarrow> of_nat i | Inl _ \<Rightarrow> 0))"

text \<open>
  \<open>strs\<close> and \<open>members\<close> read the string keys and the sets off a state. A pipeline that reports no error
  has run its commands, \<open>SMEMBERS\<close> lists each member once, \<open>MGET\<close> returns one value per key, \<open>INCRBY\<close>
  adds to a counter (an absent key counts as 0) unless that leaves the 64 bit range.
\<close>

locale redis_store =
  fixes api :: "'r redis_api"
    and strs :: "'r \<Rightarrow> string \<Rightarrow> string option"
    and members :: "'r \<Rightarrow> string \<Rightarrow> string set"
  assumes exec_done: "rd_exec api r [CmdSet k v ttl, CmdSAdd sk m] = (r', None) \<Longrightarrow> k \<noteq> sk \<Longrightarrow>
      strs r' = (strs r)(k := Some v) \<and> members r' = (members r)(sk := insert m (members r sk))"
    and smembers_set: "rd_smembers api r k = Inr ms \<Longrightarrow> distinct ms \<and> set ms = members r k"
    and mget_each: "rd_mget api r ks = Inr vs \<Longrightarrow> vs = map (strs r) ks"
    and incr_adds: "rd_incr_by api r k d = (r', None) \<Longrightarrow>
      \<exists>i. counter (strs r k) = Some i \<and> - (2 ^ 63) \<le> i + d \<and> i + d < 2 ^ 63 \<and>
          strs r' = (strs r)(k := Some (show_int (i + d)))"
    and get_reads: "rd_get api r k = Inr v \<Longrightarrow> strs r k = Some v"
    and get_nil: "rd_get api r k = Inl RedisNil \<Longrightarrow> strs r k = None"
begin

lemma sum_online_sum:
  "sum_online (map (\<lambda>x. (x, strs r (KeyRoomServerOnline room x))) xs) t =
     (t + sum_list (map (online_of strs r room) xs),
      filter (\<lambda>x. strs r (KeyRoomServerOnline room x) = None) xs)"
  by (induction xs arbitrary: t) (auto simp: online_of_def split: option.splits sum.splits)

lemma total_online:
  assumes "rd_smembers api r (KeyServerOfRoom room) = Inr ms"
    and "rd_mget api r (map (KeyRoomServerOnline room) ms) = Inr vs"
  shows "fst (GetTotalOnline api r room) = (\<Sum>x \<in> members r (KeyServerOfRoom room). online_of strs r room x)"
    and "set (snd (GetTotalOnline api r room)) =
      {x \<in> members r (KeyServerOfRoom room). strs r (KeyRoomServerOnline room x) = None}"
proof -
  have ms: "distinct ms" "set ms = members r (KeyServerOfRoom room)" using smembers_set [OF assms(1)] by auto
  have "zip ms vs = map (\<lambda>x. (x, strs r (KeyRoomServerOnline room x))) ms"
    using mget_each [OF assms(2)] by (simp add: zip_map2 zip_same_conv_map)
  then have g: "GetTotalOnline api r room = (sum_list (map (online_of strs r room) ms),
      filter (\<lambda>x. strs r (KeyRoomServerOnline room x) = None) ms)"
    using assms by (cases "ms = []") (auto simp: GetTotalOnline_def sum_online_sum)
  show "fst (GetTotalOnline api r room) = (\<Sum>x \<in> members r (KeyServerOfRoom room). online_of strs r room x)"
    using ms by (simp add: g sum_list_distinct_conv_sum_set)
  show "set (snd (GetTotalOnline api r room)) =
      {x \<in> members r (KeyServerOfRoom room). strs r (KeyRoomServerOnline room x) = None}"
    using ms by (auto simp: g)
qed

text \<open>After this server's report the total is its count and what the other servers had reported.\<close>

lemma reported_total:
  assumes "server_ok server" and "0 \<le> count"
    and "snd (rd_exec api r [CmdSet (KeyRoomServerOnline room server) (show_int count) ttl,
      CmdSAdd (KeyServerOfRoom room) server]) = None"
    and r': "r' = UpdateServerOnline api r room server count ttl"
    and "rd_smembers api r' (KeyServerOfRoom room) = Inr ms"
    and "rd_mget api r' (map (KeyRoomServerOnline room) ms) = Inr vs"
    and "count \<le> int u64_max"
  shows "fst (GetTotalOnline api r' room) =
    of_int count + (\<Sum>x \<in> members r (KeyServerOfRoom room) - {server}. online_of strs r room x)"
proof -
  have "KeyRoomServerOnline room server \<noteq> KeyServerOfRoom room"
    using assms(1) kinds_differ(3) unfolding server_ok_def by metis
  then have st: "strs r' = (strs r)(KeyRoomServerOnline room server := Some (show_int count))"
    and mb: "members r' = (members r)(KeyServerOfRoom room := insert server (members r (KeyServerOfRoom room)))"
    using assms(3) exec_done [of r "KeyRoomServerOnline room server" "show_int count" ttl
        "KeyServerOfRoom room" server r']
    by (simp_all add: r' UpdateServerOnline_def prod_eq_iff)
  have fin: "finite (members r' (KeyServerOfRoom room))"
    using smembers_set [OF assms(5)] by (metis List.finite_set)
  have own: "online_of strs r' room server = of_int count"
    using assms(2,7) by (simp add: online_of_def st show_int_def nat_le_iff flip: of_nat_nat)
  have other: "online_of strs r' room x = online_of strs r room x" if "x \<noteq> server" for x
    using that by (simp add: online_of_def st KeyRoomServerOnline_def)
  have "fst (GetTotalOnline api r' room) =
      (\<Sum>x \<in> insert server (members r (KeyServerOfRoom room)). online_of strs r' room x)"
    using total_online(1) [OF assms(5,6)] by (simp add: mb)
  also have "\<dots> = online_of strs r' room server +
      (\<Sum>x \<in> members r (KeyServerOfRoom room) - {server}. online_of strs r' room x)"
    using fin by (simp add: mb sum.insert_remove)
  also have "(\<Sum>x \<in> members r (KeyServerOfRoom room) - {server}. online_of strs r' room x) =
      (\<Sum>x \<in> members r (KeyServerOfRoom room) - {server}. online_of strs r room x)"
    by (rule sum.cong) (simp_all add: other)
  finally show ?thesis by (simp add: own)
qed

text \<open>What \<open>INCRBY\<close> stores.\<close>

lemma likes_stored:
  assumes "counter (strs r (KeyRoomLikes room)) = Some v"
    and "snd (rd_incr_by api r (KeyRoomLikes room) (sint count)) = None"
  shows "strs (IncrRoomLikes api r room count) =
      (strs r)(KeyRoomLikes room := Some (show_int (v + sint count))) \<and>
    - (2 ^ 63) \<le> v + sint count \<and> v + sint count < 2 ^ 63"
  using assms incr_adds [of r "KeyRoomLikes room" "sint count" "IncrRoomLikes api r room count"]
  by (auto simp: IncrRoomLikes_def prod_eq_iff)

text \<open>What the server reads back of the likes after adding to them.\<close>

lemma likes_after:
  assumes "counter (strs r (KeyRoomLikes room)) = Some v"
    and "snd (rd_incr_by api r (KeyRoomLikes room) (sint count)) = None"
    and "r' = IncrRoomLikes api r room count"
    and "rd_get api r' (KeyRoomLikes room) = Inr val"
  shows "GetRoomLikes api r' room = (if 0 \<le> v + sint count then of_int (v + sint count) else 0)"
proof -
  have "strs r' = (strs r)(KeyRoomLikes room := Some (show_int (v + sint count)))"
    and lim: "v + sint count < 2 ^ 63"
    using likes_stored [OF assms(1,2)] by (simp_all add: assms(3))
  then have val: "val = show_int (v + sint count)"
    using get_reads [OF assms(4)] by simp
  show ?thesis
  proof (cases "0 \<le> v + sint count")
    case True
    then have "ParseUint val = Inr (nat (v + sint count))"
      using lim by (simp add: val show_int_def nat_le_iff)
    moreover have "(of_nat (nat (v + sint count)) :: u64) = of_int (v + sint count)"
      using True by (rule of_nat_nat)
    ultimately show ?thesis
      using assms(4) True by (simp add: GetRoomLikes_def uint_result_def)
  next
    case False
    then show ?thesis
      using assms(4) by (simp add: GetRoomLikes_def val show_int_def ParseUint_def uint_result_def)
  qed
qed

end

section \<open>An in-memory store\<close>

text \<open>
  String keys, sets, what was published on each channel, and whether the server is down. Nothing
  expires in it.
\<close>

record rstore =
  rs_strs :: "string \<Rightarrow> string option"
  rs_sets :: "string \<Rightarrow> string list"
  rs_published :: "(string \<times> string) list"
  rs_down :: bool

definition mem_run :: "redis_cmd \<Rightarrow> rstore \<Rightarrow> rstore" where
  "mem_run c r =
     (case c of
        CmdSet k v ttl \<Rightarrow> r\<lparr>rs_strs := (rs_strs r)(k := Some v)\<rparr>
      | CmdSAdd k m \<Rightarrow> r\<lparr>rs_sets := (rs_sets r)(k := List.insert m (rs_sets r k))\<rparr>)"

definition mem_api :: "rstore redis_api" where
  "mem_api =
     \<lparr>rd_publish = (\<lambda>r ch p. if rs_down r then (r, Some RedisFailed)
        else (r\<lparr>rs_published := rs_published r @ [(ch, p)]\<rparr>, None)),
      rd_incr_by = (\<lambda>r k d. if rs_down r then (r, Some RedisFailed)
        else (case counter (rs_strs r k) of
                Some i \<Rightarrow>
                  if - (2 ^ 63) \<le> i + d \<and> i + d < 2 ^ 63
                  then (r\<lparr>rs_strs := (rs_strs r)(k := Some (show_int (i + d)))\<rparr>, None)
                  else (r, Some RedisFailed)
              | None \<Rightarrow> (r, Some RedisFailed))),
      rd_exec = (\<lambda>r cs. if rs_down r then (r, Some RedisFailed) else (fold mem_run cs r, None)),
      rd_smembers = (\<lambda>r k. if rs_down r then Inl RedisFailed else Inr (remdups (rs_sets r k))),
      rd_mget = (\<lambda>r ks. if rs_down r then Inl RedisFailed else Inr (map (rs_strs r) ks)),
      rd_get = (\<lambda>r k. if rs_down r then Inl RedisFailed
        else (case rs_strs r k of None \<Rightarrow> Inl RedisNil | Some v \<Rightarrow> Inr v)),
      rd_srem = (\<lambda>r k m. if rs_down r then (r, Some RedisFailed)
        else (r\<lparr>rs_sets := (rs_sets r)(k := removeAll m (rs_sets r k))\<rparr>, None))\<rparr>"

interpretation mem: redis_store mem_api rs_strs "\<lambda>r k. set (rs_sets r k)"
  by unfold_locales
     (auto simp: mem_api_def mem_run_def fun_eq_iff split: if_splits option.splits)

end
