(* ===== verification/Manager.thy ===== *)
theory Manager
  imports JobPool Redis
begin

text \<open>
  \<open>internal/ws/manager.go\<close> and \<open>internal/ws/router.go\<close>: the state of one server process and the
  operations on it, one definition per method, or per part of a method between two points where
  other goroutines can come in. \<^theory_text>\<open>ManagerSys\<close> interleaves them.
\<close>

section \<open>State\<close>

definition BroadcastChanSize :: nat where "BroadcastChanSize = 1024"
definition DanmakuSaveTopic :: string where "DanmakuSaveTopic = ''danmaku_save_topic''"

text \<open>Where the goroutine of a connection stands: waiting for the manager's loop, or reading.\<close>

datatype conn_pc = ConnNone | ConnRegister | ConnRead | ConnSend WsPacket | ConnUnregister | ConnEnded

text \<open>
  A \<open>subscribeToRoom\<close> goroutine: its room, whether its context is cancelled, the messages in the
  channel go-redis gives it, whether it has returned.
\<close>

record subscription =
  sb_RoomID :: string
  sb_cancelled :: bool
  sb_inbox :: "string list"
  sb_returned :: bool

text \<open>
  A \<open>broadcastStats\<close> goroutine: not yet run, after the swap of the likes, at the head of its loop,
  after the report of a room, after the read of the room's online total, ended.
\<close>

datatype stats_pc =
    StStart
  | StSwapped "string \<Rightarrow> u64 option"
  | StLoop "string \<Rightarrow> u64 option" "(string \<times> int) list"
  | StReported "string \<Rightarrow> u64 option" string "(string \<times> int) list"
  | StTotal "string \<Rightarrow> u64 option" string u64 "(string \<times> int) list"
  | StEnded

text \<open>
  The first eight fields are the manager's (\<open>Register\<close> and \<open>Unregister\<close> are unbuffered, so they hold
  nothing; \<open>sv_jobs\<close> is \<open>clientPool\<close>, \<open>broadcastJobChan\<close> and its workers; \<open>sv_Kafka\<close> is what was put
  on the producer's input). Then the clients and the goroutines: of a writer whether it runs, and the
  started \<open>go infra.IncrRoomLikes\<close> and \<open>go rdb.SRem\<close> calls. \<open>sv_inflight\<close> is what Redis has accepted
  for a channel and not yet handed to the subscribers, \<open>sv_published\<close> all it ever accepted.
\<close>

record 'r server =
  sv_ServerID :: string
  sv_Broadcast :: "WsPacket gochan"
  sv_Rooms :: "string \<Rightarrow> client_ptr set option"
  sv_cancelSub :: "string \<Rightarrow> nat option"
  sv_jobs :: jobpool
  sv_localLikes :: "string \<Rightarrow> u64 option"
  sv_RedisClient :: 'r
  sv_Kafka :: "(string \<times> string) list"
  sv_clients :: "client_ptr \<Rightarrow> client"
  sv_conn :: "client_ptr \<Rightarrow> conn_pc"
  sv_writer :: "client_ptr \<Rightarrow> bool"
  sv_subs :: "subscription list"
  sv_stats :: "stats_pc list"
  sv_incr :: "(string \<times> u64) list"
  sv_srem :: "(string \<times> string) list"
  sv_inflight :: "(string \<times> string) list"
  sv_published :: "(string \<times> string) list"
  sv_panicked :: bool

definition ServerID_of :: "string \<Rightarrow> nat \<Rightarrow> string" where
  "ServerID_of hostname n = hostname @ ''-'' @ show_nat n"

definition NewManager :: "string \<Rightarrow> nat \<Rightarrow> 'r \<Rightarrow> 'r server" where
  "NewManager hostname n rdb =
     \<lparr>sv_ServerID = ServerID_of hostname n, sv_Broadcast = make_chan BroadcastChanSize,
      sv_Rooms = (\<lambda>_. None), sv_cancelSub = (\<lambda>_. None), sv_jobs = new_pool,
      sv_localLikes = (\<lambda>_. None), sv_RedisClient = rdb, sv_Kafka = [],
      sv_clients = (\<lambda>_. NewClient 0 [] []), sv_conn = (\<lambda>_. ConnNone), sv_writer = (\<lambda>_. False),
      sv_subs = [], sv_stats = [], sv_incr = [], sv_srem = [], sv_inflight = [],
      sv_published = [], sv_panicked = False\<rparr>"

section \<open>Message handlers\<close>

definition danmaku_handler :: "'r server MessageHandler" where
  "danmaku_handler now c m data =
     (case unmarshal_DanmakuMessage data of
        (_, Some err) \<Rightarrow> (m, None)
      | (inputMsg, None) \<Rightarrow>
          (let fullMsg = zero_danmaku\<lparr>dm_RoomID := cl_RoomID c, dm_UserID := cl_UserID c,
                 dm_Content := dm_Content inputMsg, dm_SendTime := now\<rparr>;
               dataBytes = marshal_DanmakuMessage fullMsg
           in (m, Some \<lparr>wp_Type = TypeDanmaku, wp_RoomID = cl_RoomID c, wp_Data = dataBytes\<rparr>)))"

definition likes_of :: "(string \<Rightarrow> u64 option) \<Rightarrow> string \<Rightarrow> u64" where
  "likes_of l room = (case l room of None \<Rightarrow> 0 | Some n \<Rightarrow> n)"

definition like_handler :: "'r server MessageHandler" where
  "like_handler now c m data =
     (let likes = (case unmarshal_Like data of
                     (l, Some err) \<Rightarrow> l\<lparr>lk_Count := 1\<rparr>
                   | (l, None) \<Rightarrow> l);
          cnt = (if lk_Count likes \<le> 0 then 1 else lk_Count likes);
          room = cl_RoomID c
      in (m\<lparr>sv_localLikes := (sv_localLikes m)(room := Some (likes_of (sv_localLikes m) room + cnt))\<rparr>,
          None))"

definition RegisterActionHandlers :: "'r server registry" where
  "RegisterActionHandlers =
     RegisterAction (RegisterAction (\<lambda>_. None) TypeDanmaku danmaku_handler) ActionLike like_handler"

section \<open>Rooms\<close>

definition handleRegister :: "client_ptr \<Rightarrow> 'r server \<Rightarrow> 'r server" where
  "handleRegister p s =
     (let room = cl_RoomID (sv_clients s p);
          s1 = (case sv_Rooms s room of
                  Some _ \<Rightarrow> s
                | None \<Rightarrow>
                    s\<lparr>sv_Rooms := (sv_Rooms s)(room := Some {}),
                      sv_cancelSub := (sv_cancelSub s)(room := Some (length (sv_subs s))),
                      sv_subs := sv_subs s @
                        [\<lparr>sb_RoomID = room, sb_cancelled = False, sb_inbox = [], sb_returned = False\<rparr>]\<rparr>)
      in s1\<lparr>sv_Rooms := (sv_Rooms s1)(room := map_option (insert p) (sv_Rooms s1 room))\<rparr>)"

definition cancel_sub :: "nat \<Rightarrow> 'r server \<Rightarrow> 'r server" where
  "cancel_sub i s = s\<lparr>sv_subs := (sv_subs s)[i := (sv_subs s ! i)\<lparr>sb_cancelled := True\<rparr>]\<rparr>"

definition handleUnregister :: "client_ptr \<Rightarrow> 'r server \<Rightarrow> 'r server" where
  "handleUnregister p s =
     (let room = cl_RoomID (sv_clients s p)
      in case sv_Rooms s room of
           None \<Rightarrow> s
         | Some clients \<Rightarrow>
             if p \<notin> clients then s
             else
               (let clients' = clients - {p};
                    s1 = s\<lparr>sv_Rooms := (sv_Rooms s)(room := Some clients')\<rparr>
                in case Close (sv_clients s p) of
                     None \<Rightarrow> s1\<lparr>sv_panicked := True\<rparr>
                   | Some c \<Rightarrow>
                       (let s2 = s1\<lparr>sv_clients := (sv_clients s)(p := c)\<rparr>
                        in if clients' \<noteq> {} then s2
                           else
                             (let s3 = s2\<lparr>sv_Rooms := (sv_Rooms s2)(room := None)\<rparr>
                              in case sv_cancelSub s room of
                                   None \<Rightarrow> s3
                                 | Some i \<Rightarrow>
                                     (cancel_sub i s3)\<lparr>sv_cancelSub := (sv_cancelSub s)(room := None)\<rparr>))))"

section \<open>Broadcasting\<close>

text \<open>
  What the run time decides in \<open>broadcastToLocalClients\<close>: which slice the pool gives, the capacity of a
  grown one, and the order in which \<open>range\<close> visits the set.
\<close>

record picks =
  pk_pool :: "nat option"
  pk_grow :: nat
  pk_order :: "client_ptr list"

definition enumerates :: "picks \<Rightarrow> string \<Rightarrow> 'r server \<Rightarrow> bool" where
  "enumerates k room s \<longleftrightarrow>
     (case sv_Rooms s room of
        None \<Rightarrow> True
      | Some clients \<Rightarrow> distinct (pk_order k) \<and> set (pk_order k) = clients)"

definition broadcastToLocalClients :: "picks \<Rightarrow> string \<Rightarrow> string \<Rightarrow> 'r server \<Rightarrow> 'r server" where
  "broadcastToLocalClients k roomID payload s =
     (case sv_Rooms s roomID of
        None \<Rightarrow> s
      | Some clients \<Rightarrow>
          s\<lparr>sv_jobs := dispatch_job (pk_pool k) (pk_grow k) (pk_order k) payload (sv_jobs s)\<rparr>)"

text \<open>
  \<open>PushToInput\<close> and \<open>PublishToRoom\<close>. A publication that Redis accepts is in flight to the
  subscribers of its channel, on this server and on others.
\<close>

definition PushToInput :: "string \<Rightarrow> string \<Rightarrow> 'r server \<Rightarrow> 'r server" where
  "PushToInput topic payload s = s\<lparr>sv_Kafka := sv_Kafka s @ [(topic, payload)]\<rparr>"

definition redis_accepts :: "string \<Rightarrow> string \<Rightarrow> 'r server \<Rightarrow> 'r server" where
  "redis_accepts key payload s =
     s\<lparr>sv_inflight := sv_inflight s @ [(key, payload)], sv_published := sv_published s @ [(key, payload)]\<rparr>"

definition processDanmaku :: "'r redis_api \<Rightarrow> string \<Rightarrow> string \<Rightarrow> 'r server \<Rightarrow> 'r server" where
  "processDanmaku api roomID data s =
     (let s1 = PushToInput DanmakuSaveTopic data s;
          rdb = sv_RedisClient s1;
          s2 = s1\<lparr>sv_RedisClient := PublishToRoom api rdb roomID data\<rparr>
      in if snd (rd_publish api rdb (KeyRoomPubSub roomID) data) = None
         then redis_accepts (KeyRoomPubSub roomID) data s2 else s2)"

definition handleBroadcast :: "'r redis_api \<Rightarrow> picks \<Rightarrow> WsPacket \<Rightarrow> 'r server \<Rightarrow> 'r server" where
  "handleBroadcast api k packet s =
     (case marshal_WsPacket packet of
        None \<Rightarrow> s
      | Some payload \<Rightarrow>
          if wp_Type packet = TypeDanmaku then processDanmaku api (wp_RoomID packet) payload s
          else if wp_Type packet = ActionLike then s
          else if wp_Type packet = TypeStats then broadcastToLocalClients k (wp_RoomID packet) payload s
          else s)"

section \<open>Statistics\<close>

definition reportTTL :: nat where "reportTTL = 3 * 2 + 1"

definition set_stats :: "nat \<Rightarrow> stats_pc \<Rightarrow> 'r server \<Rightarrow> 'r server" where
  "set_stats i pc s = s\<lparr>sv_stats := (sv_stats s)[i := pc]\<rparr>"

definition broadcastStats_swap :: "nat \<Rightarrow> 'r server \<Rightarrow> 'r server option" where
  "broadcastStats_swap i s =
     (if i < length (sv_stats s) \<and> sv_stats s ! i = StStart
      then Some (set_stats i (StSwapped (sv_localLikes s)) (s\<lparr>sv_localLikes := (\<lambda>_. None)\<rparr>))
      else None)"

text \<open>\<open>rooms\<close> is the order in which \<open>range\<close> visits the rooms.\<close>

definition room_counts :: "'r server \<Rightarrow> string list \<Rightarrow> (string \<times> int) list" where
  "room_counts s rooms =
     map (\<lambda>r. (r, int (case sv_Rooms s r of None \<Rightarrow> 0 | Some cs \<Rightarrow> card cs))) rooms"

definition broadcastStats_snapshot :: "string list \<Rightarrow> nat \<Rightarrow> 'r server \<Rightarrow> 'r server option" where
  "broadcastStats_snapshot rooms i s =
     (if i < length (sv_stats s) then
        (case sv_stats s ! i of
           StSwapped likes \<Rightarrow> Some (set_stats i (StLoop likes (room_counts s rooms)) s)
         | _ \<Rightarrow> None)
      else None)"

definition broadcastStats_report :: "'r redis_api \<Rightarrow> nat \<Rightarrow> 'r server \<Rightarrow> 'r server option" where
  "broadcastStats_report api i s =
     (if i < length (sv_stats s) then
        (case sv_stats s ! i of
           StLoop likes [] \<Rightarrow> Some (set_stats i StEnded s)
         | StLoop likes ((roomID, cnt) # rest) \<Rightarrow>
             (let s1 = s\<lparr>sv_RedisClient :=
                    UpdateServerOnline api (sv_RedisClient s) roomID (sv_ServerID s) cnt reportTTL\<rparr>;
                  s2 = (case likes roomID of
                          Some likesDelta \<Rightarrow>
                            if 0 < likesDelta then s1\<lparr>sv_incr := sv_incr s1 @ [(roomID, likesDelta)]\<rparr>
                            else s1
                        | None \<Rightarrow> s1)
              in Some (set_stats i (StReported likes roomID rest) s2))
         | _ \<Rightarrow> None)
      else None)"

definition broadcastStats_total :: "'r redis_api \<Rightarrow> nat \<Rightarrow> 'r server \<Rightarrow> 'r server option" where
  "broadcastStats_total api i s =
     (if i < length (sv_stats s) then
        (case sv_stats s ! i of
           StReported likes roomID rest \<Rightarrow>
             (case GetTotalOnline api (sv_RedisClient s) roomID of
                (totalOnline, gone) \<Rightarrow>
                  Some (set_stats i (StTotal likes roomID totalOnline rest)
                    (s\<lparr>sv_srem := sv_srem s @ map (\<lambda>x. (KeyServerOfRoom roomID, x)) gone\<rparr>)))
         | _ \<Rightarrow> None)
      else None)"

definition stats_packet :: "string \<Rightarrow> StatsData \<Rightarrow> WsPacket" where
  "stats_packet roomID stats =
     \<lparr>wp_Type = TypeStats, wp_RoomID = roomID, wp_Data = Some (marshal_StatsData stats)\<rparr>"

definition broadcastStats_publish :: "'r redis_api \<Rightarrow> picks \<Rightarrow> nat \<Rightarrow> 'r server \<Rightarrow> 'r server option" where
  "broadcastStats_publish api k i s =
     (if i < length (sv_stats s) then
        (case sv_stats s ! i of
           StTotal likes roomID totalOnline rest \<Rightarrow>
             (let totalLikes = GetRoomLikes api (sv_RedisClient s) roomID;
                  packet = stats_packet roomID \<lparr>sd_Online = totalOnline, sd_Likes = totalLikes\<rparr>;
                  s1 = set_stats i (StLoop likes rest) s
              in case marshal_WsPacket packet of
                   None \<Rightarrow> Some s1
                 | Some payload \<Rightarrow> Some (broadcastToLocalClients k roomID payload s1))
         | _ \<Rightarrow> None)
      else None)"

section \<open>Subscriptions\<close>

text \<open>The two cases of the \<open>select\<close> in \<open>subscribeToRoom\<close>, and the closed channel.\<close>

definition set_sub :: "nat \<Rightarrow> subscription \<Rightarrow> 'r server \<Rightarrow> 'r server" where
  "set_sub i sb s = s\<lparr>sv_subs := (sv_subs s)[i := sb]\<rparr>"

definition subscribe_message :: "picks \<Rightarrow> nat \<Rightarrow> 'r server \<Rightarrow> 'r server option" where
  "subscribe_message k i s =
     (if i < length (sv_subs s) \<and> \<not> sb_returned (sv_subs s ! i) then
        (case sb_inbox (sv_subs s ! i) of
           msg # rest \<Rightarrow>
             Some (broadcastToLocalClients k (sb_RoomID (sv_subs s ! i)) msg
               (set_sub i ((sv_subs s ! i)\<lparr>sb_inbox := rest\<rparr>) s))
         | [] \<Rightarrow> None)
      else None)"

definition subscribe_done :: "nat \<Rightarrow> 'r server \<Rightarrow> 'r server option" where
  "subscribe_done i s =
     (if i < length (sv_subs s) \<and> \<not> sb_returned (sv_subs s ! i) \<and> sb_cancelled (sv_subs s ! i)
      then Some (set_sub i ((sv_subs s ! i)\<lparr>sb_returned := True\<rparr>) s) else None)"

definition subscribe_closed :: "nat \<Rightarrow> 'r server \<Rightarrow> 'r server option" where
  "subscribe_closed i s =
     (if i < length (sv_subs s) \<and> \<not> sb_returned (sv_subs s ! i)
      then Some (set_sub i ((sv_subs s ! i)\<lparr>sb_returned := True\<rparr>) s) else None)"

section \<open>Workers\<close>

text \<open>One round of the inner loop of \<open>broadcastWorker\<close>; a nil client or a closed channel panics.\<close>

definition worker_send :: "nat \<Rightarrow> 'r server \<Rightarrow> 'r server option" where
  "worker_send w s =
     (case worker_next w (sv_jobs s) of
        None \<Rightarrow> None
      | Some (None, payload, jp) \<Rightarrow> Some (s\<lparr>sv_jobs := jp, sv_panicked := True\<rparr>)
      | Some (Some p, payload, jp) \<Rightarrow>
          (case safeSend (sv_clients s p) payload of
             Some c \<Rightarrow> Some (s\<lparr>sv_jobs := jp, sv_clients := (sv_clients s)(p := c)\<rparr>)
           | None \<Rightarrow> Some (s\<lparr>sv_jobs := jp, sv_panicked := True\<rparr>)))"

definition worker_begin :: "nat \<Rightarrow> 'r server \<Rightarrow> 'r server option" where
  "worker_begin w s = map_option (\<lambda>jp. s\<lparr>sv_jobs := jp\<rparr>) (worker_take w (sv_jobs s))"

definition worker_end :: "nat \<Rightarrow> 'r server \<Rightarrow> 'r server option" where
  "worker_end w s = map_option (\<lambda>jp. s\<lparr>sv_jobs := jp\<rparr>) (worker_finish w (sv_jobs s))"

end
