(* ===== verification/ManagerSys.thy ===== *)
theory ManagerSys
  imports Manager
begin

text \<open>
  One server process as a transition system: the manager's loop, the pumps of the connections, the
  workers, the subscription and statistics goroutines, and what goes on around them (new requests,
  Redis, the other servers).
\<close>

section \<open>The environment\<close>

text \<open>Redis hands a publication to every subscription of its channel that is still read.\<close>

definition deliver_sub :: "string \<Rightarrow> string \<Rightarrow> subscription \<Rightarrow> subscription" where
  "deliver_sub key payload sb =
     (if \<not> sb_returned sb \<and> KeyRoomPubSub (sb_RoomID sb) = key
      then sb\<lparr>sb_inbox := sb_inbox sb @ [payload]\<rparr> else sb)"

definition fan_out :: "'r server \<Rightarrow> 'r server option" where
  "fan_out s =
     (case sv_inflight s of
        [] \<Rightarrow> None
      | (key, payload) # rest \<Rightarrow>
          Some (s\<lparr>sv_inflight := rest, sv_subs := map (deliver_sub key payload) (sv_subs s)\<rparr>))"

definition set_conn :: "client_ptr \<Rightarrow> conn_pc \<Rightarrow> 'r server \<Rightarrow> 'r server" where
  "set_conn p pc s = s\<lparr>sv_conn := (sv_conn s)(p := pc)\<rparr>"

definition set_client :: "client_ptr \<Rightarrow> client \<Rightarrow> 'r server \<Rightarrow> 'r server" where
  "set_client p c s = s\<lparr>sv_clients := (sv_clients s)(p := c)\<rparr>"

definition set_writer :: "client_ptr \<Rightarrow> bool \<Rightarrow> 'r server \<Rightarrow> 'r server" where
  "set_writer p b s = s\<lparr>sv_writer := (sv_writer s)(p := b)\<rparr>"

section \<open>The goroutine of a connection\<close>

definition conn_register :: "client_ptr \<Rightarrow> 'r server \<Rightarrow> 'r server" where
  "conn_register p s = set_writer p True (set_conn p ConnRead (handleRegister p s))"

definition conn_read :: "gotime \<Rightarrow> string \<Rightarrow> client_ptr \<Rightarrow> 'r server \<Rightarrow> 'r server" where
  "conn_read now msg p s =
     (case ReadPump_message RegisterActionHandlers now (sv_clients s p) s msg of
        (s', None) \<Rightarrow> s'
      | (s', Some packet) \<Rightarrow> set_conn p (ConnSend packet) s')"

definition conn_send :: "client_ptr \<Rightarrow> 'r server \<Rightarrow> 'r server option" where
  "conn_send p s =
     (case sv_conn s p of
        ConnSend packet \<Rightarrow>
          (case send_chan packet (sv_Broadcast s) of
             Sent ch \<Rightarrow> Some (set_conn p ConnRead (s\<lparr>sv_Broadcast := ch\<rparr>))
           | SendBlocks \<Rightarrow> None
           | SendPanics \<Rightarrow> Some (s\<lparr>sv_panicked := True\<rparr>))
      | _ \<Rightarrow> None)"

definition conn_unregister :: "client_ptr \<Rightarrow> 'r server \<Rightarrow> 'r server" where
  "conn_unregister p s =
     (let s1 = handleUnregister p s
      in set_conn p ConnEnded (set_client p (close_socket (sv_clients s1 p)) s1))"

section \<open>Interleaving\<close>

text \<open>
  The first six rules are a connection's life, then the manager's loop with a broadcast and a tick,
  the statistics goroutines, the small asynchronous calls, Redis and the other servers, the
  subscriptions, the workers, the writers. \<open>time.Now\<close> gives a time of the calendar. \<open>SRem\<close> runs with a context that the caller cancels when it
  returns, so it may come to nothing.
\<close>

inductive saction :: "'r redis_api \<Rightarrow> 'r server \<Rightarrow> 'r server \<Rightarrow> bool" for api where
  conn_opens: "sv_conn s p = ConnNone \<Longrightarrow> ConnectWebSocket q ok = Connected c \<Longrightarrow>
    saction api s (set_conn p ConnRegister (set_client p c s))"
| conn_registers: "sv_conn s p = ConnRegister \<Longrightarrow> saction api s (conn_register p s)"
| conn_reads: "sv_conn s p = ConnRead \<Longrightarrow> valid_time now \<Longrightarrow> saction api s (conn_read now msg p s)"
| conn_sends: "conn_send p s = Some t \<Longrightarrow> saction api s t"
| conn_fails: "sv_conn s p = ConnRead \<Longrightarrow> saction api s (set_conn p ConnUnregister s)"
| conn_unregisters: "sv_conn s p = ConnUnregister \<Longrightarrow> saction api s (conn_unregister p s)"
| broadcasts: "recv_chan (sv_Broadcast s) = Received packet ch \<Longrightarrow> enumerates k (wp_RoomID packet) s \<Longrightarrow>
    saction api s (handleBroadcast api k packet (s\<lparr>sv_Broadcast := ch\<rparr>))"
| ticks: "saction api s (s\<lparr>sv_stats := sv_stats s @ [StStart]\<rparr>)"
| stats_swaps: "broadcastStats_swap i s = Some t \<Longrightarrow> saction api s t"
| stats_snapshots: "distinct rooms \<Longrightarrow> set rooms = dom (sv_Rooms s) \<Longrightarrow>
    broadcastStats_snapshot rooms i s = Some t \<Longrightarrow> saction api s t"
| stats_reports: "broadcastStats_report api i s = Some t \<Longrightarrow> saction api s t"
| stats_totals: "broadcastStats_total api i s = Some t \<Longrightarrow> saction api s t"
| stats_publishes: "(\<And>likes r n rest. sv_stats s ! i = StTotal likes r n rest \<Longrightarrow> enumerates k r s) \<Longrightarrow>
    broadcastStats_publish api k i s = Some t \<Longrightarrow> saction api s t"
| incr_runs: "sv_incr s = xs @ (room, n) # ys \<Longrightarrow>
    saction api s (s\<lparr>sv_incr := xs @ ys, sv_RedisClient := IncrRoomLikes api (sv_RedisClient s) room n\<rparr>)"
| srem_runs: "sv_srem s = xs @ (key, m) # ys \<Longrightarrow>
    saction api s (s\<lparr>sv_srem := xs @ ys, sv_RedisClient := fst (rd_srem api (sv_RedisClient s) key m)\<rparr>)"
| srem_cancelled: "sv_srem s = xs @ (key, m) # ys \<Longrightarrow> saction api s (s\<lparr>sv_srem := xs @ ys\<rparr>)"
| redis_changes: "saction api s (s\<lparr>sv_RedisClient := rdb\<rparr>)"
| other_publishes: "saction api s (redis_accepts key payload s)"
| fans_out: "fan_out s = Some t \<Longrightarrow> saction api s t"
| inbox_drops: "i < length (sv_subs s) \<Longrightarrow> sb_inbox (sv_subs s ! i) = xs @ m # ys \<Longrightarrow>
    saction api s (set_sub i ((sv_subs s ! i)\<lparr>sb_inbox := xs @ ys\<rparr>) s)"
| sub_messages: "(i < length (sv_subs s) \<Longrightarrow> enumerates k (sb_RoomID (sv_subs s ! i)) s) \<Longrightarrow>
    subscribe_message k i s = Some t \<Longrightarrow> saction api s t"
| sub_ends: "subscribe_done i s = Some t \<Longrightarrow> saction api s t"
| sub_closes: "subscribe_closed i s = Some t \<Longrightarrow> saction api s t"
| worker_begins: "worker_begin w s = Some t \<Longrightarrow> saction api s t"
| worker_sends: "worker_send w s = Some t \<Longrightarrow> saction api s t"
| worker_ends: "worker_end w s = Some t \<Longrightarrow> saction api s t"
| writer_messages: "sv_writer s p \<Longrightarrow> WritePump_message write_ok (sv_clients s p) = Some (c, on) \<Longrightarrow>
    saction api s (set_writer p on (set_client p c s))"
| writer_stops: "sv_writer s p \<Longrightarrow> WritePump_done (sv_clients s p) = Some (c, on) \<Longrightarrow>
    saction api s (set_writer p on (set_client p c s))"

definition sstep :: "'r redis_api \<Rightarrow> 'r server \<Rightarrow> 'r server \<Rightarrow> bool" where
  "sstep api s t \<longleftrightarrow> \<not> sv_panicked s \<and> saction api s t"

section \<open>The invariant\<close>

text \<open>The connections the manager knows of: registered and not yet unregistered.\<close>

definition active :: "conn_pc \<Rightarrow> bool" where
  "active pc \<longleftrightarrow> pc = ConnRead \<or> pc = ConnUnregister \<or> (\<exists>packet. pc = ConnSend packet)"

definition members_of :: "(client_ptr \<Rightarrow> conn_pc) \<Rightarrow> (client_ptr \<Rightarrow> client) \<Rightarrow> string \<Rightarrow> client_ptr set" where
  "members_of conn clients room = {p. active (conn p) \<and> cl_RoomID (clients p) = room}"

text \<open>The rooms are exactly the non-empty sets of active connections.\<close>

definition inv_rooms ::
  "(client_ptr \<Rightarrow> conn_pc) \<Rightarrow> (client_ptr \<Rightarrow> client) \<Rightarrow> (string \<Rightarrow> client_ptr set option) \<Rightarrow> bool" where
  "inv_rooms conn clients rooms \<longleftrightarrow>
     finite {p. active (conn p)} \<and>
     (\<forall>r. rooms r = (if members_of conn clients r = {} then None else Some (members_of conn clients r)))"

text \<open>
  A cancel function is kept for exactly the rooms there are; it is that of a subscription to the
  room, and every other subscription has been cancelled.
\<close>

definition inv_subs ::
  "(string \<Rightarrow> client_ptr set option) \<Rightarrow> (string \<Rightarrow> nat option) \<Rightarrow> subscription list \<Rightarrow> bool" where
  "inv_subs rooms cancelSub subs \<longleftrightarrow>
     (\<forall>r. rooms r = None \<longleftrightarrow> cancelSub r = None) \<and>
     (\<forall>r i. cancelSub r = Some i \<longrightarrow> i < length subs \<and> sb_RoomID (subs ! i) = r) \<and>
     (\<forall>i < length subs. sb_cancelled (subs ! i) \<longleftrightarrow> cancelSub (sb_RoomID (subs ! i)) \<noteq> Some i)"

definition inv_clients :: "(client_ptr \<Rightarrow> conn_pc) \<Rightarrow> (client_ptr \<Rightarrow> client) \<Rightarrow> bool" where
  "inv_clients conn clients \<longleftrightarrow>
     (\<forall>p. client_ok (clients p) \<and> (cl_done_closed (clients p) \<longleftrightarrow> conn p = ConnEnded))"

definition inv_queue :: "WsPacket gochan \<Rightarrow> bool" where
  "inv_queue ch \<longleftrightarrow>
     \<not> ch_closed ch \<and> ch_cap ch = BroadcastChanSize \<and> length (ch_buf ch) \<le> BroadcastChanSize"

text \<open>The part of the invariant that keeps the process running.\<close>

definition sinv :: "'r server \<Rightarrow> bool" where
  "sinv s \<longleftrightarrow>
     inv_rooms (sv_conn s) (sv_clients s) (sv_Rooms s) \<and>
     inv_subs (sv_Rooms s) (sv_cancelSub s) (sv_subs s) \<and>
     inv_clients (sv_conn s) (sv_clients s) \<and>
     inv_queue (sv_Broadcast s) \<and> jp_inv (sv_jobs s) \<and> \<not> sv_panicked s"

end
