(* ===== verification/ManagerInv.thy ===== *)
theory ManagerInv
  imports ManagerSys Decoded
begin

text \<open>
  Every step of the server keeps its invariant: the rooms are exactly the active connections, there
  is exactly one live subscription per room, no channel a goroutine sends on is ever closed, and the
  process does not panic.
\<close>

section \<open>Frame facts\<close>

lemma members_of_conn [simp]:
  "active x = active (conn p) \<Longrightarrow> members_of (conn(p := x)) clients r = members_of conn clients r"
  by (auto simp: members_of_def)

lemma members_of_client [simp]:
  "cl_RoomID c = cl_RoomID (clients p) \<or> \<not> active (conn p) \<Longrightarrow>
   members_of conn (clients(p := c)) r = members_of conn clients r"
  by (auto simp: members_of_def)

lemma active_conn [simp]:
  "active x = active (conn p) \<Longrightarrow> {q. active ((conn(p := x)) q)} = {q. active (conn q)}"
  by auto

lemma active_simps [simp]:
  "active ConnRead" "active ConnUnregister" "active (ConnSend packet)"
  "\<not> active ConnNone" "\<not> active ConnRegister" "\<not> active ConnEnded"
  by (simp_all add: active_def)

lemma inv_rooms_conn: "inv_rooms conn clients rooms \<Longrightarrow> active x = active (conn p) \<Longrightarrow>
    inv_rooms (conn(p := x)) clients rooms"
  unfolding inv_rooms_def by (metis active_conn members_of_conn)

lemma inv_rooms_client: "inv_rooms conn clients rooms \<Longrightarrow>
    cl_RoomID c = cl_RoomID (clients p) \<or> \<not> active (conn p) \<Longrightarrow> inv_rooms conn (clients(p := c)) rooms"
  by (simp add: inv_rooms_def)

lemma inv_clients_conn: "inv_clients conn clients \<Longrightarrow> x \<noteq> ConnEnded \<Longrightarrow> conn p \<noteq> ConnEnded \<Longrightarrow>
    inv_clients (conn(p := x)) clients"
  by (simp add: inv_clients_def)

lemma inv_clients_upd: "inv_clients conn clients \<Longrightarrow> client_ok c \<Longrightarrow>
    cl_done_closed c = cl_done_closed (clients p) \<Longrightarrow> inv_clients conn (clients(p := c))"
  by (simp add: inv_clients_def)

lemma sinv_simps:
  "sinv (s\<lparr>sv_localLikes := l\<rparr>) = sinv s" "sinv (s\<lparr>sv_RedisClient := r\<rparr>) = sinv s"
  "sinv (s\<lparr>sv_Kafka := kf\<rparr>) = sinv s" "sinv (s\<lparr>sv_writer := wr\<rparr>) = sinv s"
  "sinv (s\<lparr>sv_stats := st\<rparr>) = sinv s" "sinv (s\<lparr>sv_incr := ic\<rparr>) = sinv s"
  "sinv (s\<lparr>sv_srem := sr\<rparr>) = sinv s" "sinv (s\<lparr>sv_inflight := fl\<rparr>) = sinv s"
  "sinv (s\<lparr>sv_published := pb\<rparr>) = sinv s"
  by (simp_all add: sinv_def)

section \<open>Rooms\<close>

lemma inv_subs_new:
  assumes "inv_subs rooms cs subs" and "rooms r = None" and "sb_RoomID sb = r" and "\<not> sb_cancelled sb"
  shows "inv_subs (rooms(r := Some X)) (cs(r := Some (length subs))) (subs @ [sb])"
  using assms unfolding inv_subs_def by (auto simp: nth_append less_Suc_eq)

lemma inv_subs_keep:
  "inv_subs rooms cs subs \<Longrightarrow> rooms r \<noteq> None \<Longrightarrow> inv_subs (rooms(r := Some X)) cs subs"
  unfolding inv_subs_def by (auto split: if_splits)

lemma inv_subs_cancel:
  assumes "inv_subs rooms cs subs" and "cs r = Some i"
  shows "inv_subs (rooms(r := None)) (cs(r := None)) (subs[i := (subs ! i)\<lparr>sb_cancelled := True\<rparr>])"
  using assms unfolding inv_subs_def by (auto simp: nth_list_update)

lemma inv_subs_inbox:
  assumes "inv_subs rooms cs subs"
    and "sb_RoomID sb = sb_RoomID (subs ! i)" and "sb_cancelled sb = sb_cancelled (subs ! i)"
  shows "inv_subs rooms cs (subs[i := sb])"
proof -
  have "sb_RoomID (subs[i := sb] ! j) = sb_RoomID (subs ! j)"
    "sb_cancelled (subs[i := sb] ! j) = sb_cancelled (subs ! j)" for j
    using assms(2,3)
    by (metis list_update_beyond not_le nth_list_update_eq nth_list_update_neq)+
  then show ?thesis using assms(1) by (simp add: inv_subs_def)
qed

lemma inv_subs_deliver:
  "inv_subs rooms cs subs \<Longrightarrow> inv_subs rooms cs (map (deliver_sub key m) subs)"
  unfolding inv_subs_def by (auto simp: deliver_sub_def)

lemma sinv_conn_register:
  assumes inv: "sinv s" and pc: "sv_conn s p = ConnRegister"
  shows "sinv (conn_register p s)"
proof -
  let ?room = "cl_RoomID (sv_clients s p)"
  let ?conn = "(sv_conn s)(p := ConnRead)"
  have rooms: "\<And>r. sv_Rooms s r =
      (if members_of (sv_conn s) (sv_clients s) r = {} then None
       else Some (members_of (sv_conn s) (sv_clients s) r))"
    and fin: "finite {q. active (sv_conn s q)}"
    using inv by (auto simp: sinv_def inv_rooms_def)
  have mem: "members_of ?conn (sv_clients s) r =
      (if r = ?room then insert p (members_of (sv_conn s) (sv_clients s) r)
       else members_of (sv_conn s) (sv_clients s) r)" for r
    using pc by (auto simp: members_of_def)
  have act: "{q. active (?conn q)} = insert p {q. active (sv_conn s q)}" by auto
  have conn: "inv_clients ?conn (sv_clients s)"
    using inv pc by (intro inv_clients_conn) (simp_all add: sinv_def)
  have subs: "inv_subs (sv_Rooms s) (sv_cancelSub s) (sv_subs s)" using inv by (simp add: sinv_def)
  show ?thesis
  proof (cases "sv_Rooms s ?room")
    case None
    then have empty: "members_of (sv_conn s) (sv_clients s) ?room = {}"
      using rooms [of ?room] by (simp split: if_splits)
    have "inv_rooms ?conn (sv_clients s) ((sv_Rooms s)(?room := Some {p}))"
      unfolding inv_rooms_def act using fin rooms empty by (auto simp: mem)
    moreover have "inv_subs ((sv_Rooms s)(?room := Some {p})) ((sv_cancelSub s)(?room := Some (length (sv_subs s))))
        (sv_subs s @ [\<lparr>sb_RoomID = ?room, sb_cancelled = False, sb_inbox = [], sb_returned = False\<rparr>])"
      by (rule inv_subs_new [OF subs None]) simp_all
    ultimately show ?thesis
      using inv conn None
      by (simp add: sinv_def conn_register_def handleRegister_def Let_def set_conn_def set_writer_def)
  next
    case (Some X)
    then have X: "X = members_of (sv_conn s) (sv_clients s) ?room"
      using rooms [of ?room] by (simp split: if_splits)
    have "inv_rooms ?conn (sv_clients s) ((sv_Rooms s)(?room := Some (insert p X)))"
      unfolding inv_rooms_def act using fin rooms X by (auto simp: mem)
    moreover have "inv_subs ((sv_Rooms s)(?room := Some (insert p X))) (sv_cancelSub s) (sv_subs s)"
      using subs Some by (intro inv_subs_keep) simp_all
    ultimately show ?thesis
      using inv conn Some
      by (simp add: sinv_def conn_register_def handleRegister_def Let_def set_conn_def set_writer_def)
  qed
qed

lemma sinv_conn_unregister:
  assumes inv: "sinv s" and pc: "sv_conn s p = ConnUnregister"
  shows "sinv (conn_unregister p s)"
proof -
  let ?room = "cl_RoomID (sv_clients s p)"
  let ?conn = "(sv_conn s)(p := ConnEnded)"
  let ?M = "members_of (sv_conn s) (sv_clients s) ?room"
  have rooms: "\<And>r. sv_Rooms s r =
      (if members_of (sv_conn s) (sv_clients s) r = {} then None
       else Some (members_of (sv_conn s) (sv_clients s) r))"
    and fin: "finite {q. active (sv_conn s q)}"
    using inv by (auto simp: sinv_def inv_rooms_def)
  have "p \<in> ?M" using pc by (simp add: members_of_def)
  then have R: "sv_Rooms s ?room = Some ?M" and pM: "p \<in> ?M" using rooms [of ?room] by auto
  have "client_ok (sv_clients s p)" using inv by (simp add: sinv_def inv_clients_def)
  then obtain c where c: "Close (sv_clients s p) = Some c" "client_ok c" "cl_done_closed c"
    "same_user (sv_clients s p) c" by (rule Close_ok)
  let ?c = "close_socket c"
  let ?clients = "(sv_clients s)(p := ?c)"
  have room: "cl_RoomID ?c = ?room" using c(4) by (simp add: same_user_def close_socket_def)
  have mem: "members_of ?conn ?clients r =
      (if r = ?room then ?M - {p} else members_of (sv_conn s) (sv_clients s) r)" for r
    using room by (auto simp: members_of_def)
  have "{q. active (?conn q)} \<subseteq> {q. active (sv_conn s q)}" by auto
  then have fin': "finite {q. active (?conn q)}" using fin finite_subset by blast
  have clients: "inv_clients ?conn ?clients"
    using inv c by (simp add: sinv_def inv_clients_def)
  have subs: "inv_subs (sv_Rooms s) (sv_cancelSub s) (sv_subs s)" using inv by (simp add: sinv_def)
  show ?thesis
  proof (cases "?M - {p} = {}")
    case True
    obtain i where i: "sv_cancelSub s ?room = Some i"
      using subs R by (metis inv_subs_def not_None_eq)
    have "inv_rooms ?conn ?clients ((sv_Rooms s)(?room := None))"
      unfolding inv_rooms_def mem using fin' rooms True by auto
    moreover have "inv_subs ((sv_Rooms s)(?room := None)) ((sv_cancelSub s)(?room := None))
        ((sv_subs s)[i := (sv_subs s ! i)\<lparr>sb_cancelled := True\<rparr>])"
      using inv_subs_cancel [OF subs i] .
    ultimately show ?thesis
      using inv clients R pM c(1) i True
      by (simp add: sinv_def conn_unregister_def handleUnregister_def Let_def set_conn_def
          set_client_def cancel_sub_def)
  next
    case False
    have "inv_rooms ?conn ?clients ((sv_Rooms s)(?room := Some (?M - {p})))"
      unfolding inv_rooms_def mem using fin' rooms False by auto
    moreover have "inv_subs ((sv_Rooms s)(?room := Some (?M - {p}))) (sv_cancelSub s) (sv_subs s)"
      using subs R by (intro inv_subs_keep) simp_all
    ultimately show ?thesis
      using inv clients R pM c(1) False
      by (simp add: sinv_def conn_unregister_def handleUnregister_def Let_def set_conn_def set_client_def)
  qed
qed

section \<open>The other steps\<close>

lemma handler_effect:
  assumes "ReadPump_message RegisterActionHandlers now c s msg = (t, out)"
  shows "(\<exists>l. t = s\<lparr>sv_localLikes := l\<rparr>) \<and>
    (out = None \<or> (\<exists>content. valid_utf8 content \<and> out = Some \<lparr>wp_Type = TypeDanmaku, wp_RoomID = cl_RoomID c,
       wp_Data = marshal_DanmakuMessage (zero_danmaku\<lparr>dm_RoomID := cl_RoomID c,
         dm_UserID := cl_UserID c, dm_Content := content, dm_SendTime := now\<rparr>)\<rparr>))"
proof -
  have same: "\<exists>l. u = u\<lparr>sv_localLikes := l\<rparr>" for u :: "'a server"
    by (rule exI [of _ "sv_localLikes u"]) simp
  have utf: "valid_utf8 (dm_Content m)" if "unmarshal_DanmakuMessage v = (m, None)" for v m
    using danmaku_decoded [of v] that by (simp add: danmaku_decoded_def)
  show ?thesis
    using assms
    by (auto dest: utf simp: same ReadPump_message_def Dispatch_def RegisterActionHandlers_def RegisterAction_def
        danmaku_handler_def like_handler_def Let_def split: prod.splits option.splits if_splits)
qed

lemma sinv_set_conn: "sinv s \<Longrightarrow> active x = active (sv_conn s p) \<Longrightarrow> x \<noteq> ConnEnded \<Longrightarrow>
    sv_conn s p \<noteq> ConnEnded \<Longrightarrow> sinv (set_conn p x s)"
  by (simp add: sinv_def set_conn_def inv_rooms_conn inv_clients_conn)

lemma sinv_set_client: "sinv s \<Longrightarrow> client_ok c \<Longrightarrow> same_user (sv_clients s p) c \<Longrightarrow>
    cl_done_closed c = cl_done_closed (sv_clients s p) \<Longrightarrow> sinv (set_client p c s)"
  by (simp add: sinv_def set_client_def inv_rooms_client inv_clients_upd same_user_def)

lemma sinv_set_writer [simp]: "sinv (set_writer p b s) = sinv s"
  by (simp add: set_writer_def sinv_simps)

lemma sinv_jobs: "sinv s \<Longrightarrow> jp_inv jp \<Longrightarrow> sinv (s\<lparr>sv_jobs := jp\<rparr>)"
  by (simp add: sinv_def)

lemma sinv_conn_opens:
  assumes "sinv s" and "sv_conn s p = ConnNone" and "ConnectWebSocket q ok = Connected c"
  shows "sinv (set_conn p ConnRegister (set_client p c s))"
proof -
  obtain uid name room where "c = NewClient uid name room" using assms(3) Connected_NewClient by blast
  then have "client_ok c" "\<not> cl_done_closed c" by (simp, simp add: NewClient_def)
  moreover have "inv_rooms (sv_conn s) ((sv_clients s)(p := c)) (sv_Rooms s)"
    using assms(1,2) by (intro inv_rooms_client) (simp_all add: sinv_def)
  then have "inv_rooms ((sv_conn s)(p := ConnRegister)) ((sv_clients s)(p := c)) (sv_Rooms s)"
    using assms(2) by (intro inv_rooms_conn) simp_all
  ultimately show ?thesis
    using assms(1,2) by (simp add: sinv_def set_conn_def set_client_def inv_clients_def)
qed

lemma sinv_conn_read:
  assumes "sinv s" and "sv_conn s p = ConnRead"
  shows "sinv (conn_read now msg p s)"
proof -
  obtain t out where r: "ReadPump_message RegisterActionHandlers now (sv_clients s p) s msg = (t, out)"
    by fastforce
  then obtain l where t: "t = s\<lparr>sv_localLikes := l\<rparr>" using handler_effect by blast
  then have "sinv t" "sv_conn t p = ConnRead" using assms by (simp_all add: sinv_simps)
  then show ?thesis
    using r by (auto simp: conn_read_def intro: sinv_set_conn split: option.splits)
qed

lemma sinv_conn_send:
  assumes "sinv s" and "conn_send p s = Some t"
  shows "sinv t"
proof -
  obtain packet where pc: "sv_conn s p = ConnSend packet"
    using assms(2) by (auto simp: conn_send_def split: conn_pc.splits)
  show ?thesis
  proof (cases "send_chan packet (sv_Broadcast s)")
    case (Sent ch)
    then have "inv_queue ch"
      using assms(1) chan.snd_within [OF Sent] by (auto simp: sinv_def inv_queue_def chan_simps)
    then have "sinv (s\<lparr>sv_Broadcast := ch\<rparr>)" using assms(1) by (simp add: sinv_def)
    then show ?thesis using assms(2) pc Sent by (auto simp: conn_send_def intro!: sinv_set_conn)
  next
    case SendPanics
    then show ?thesis using assms(1) by (simp add: chan_simps sinv_def inv_queue_def)
  qed (use assms(2) pc in \<open>simp add: conn_send_def\<close>)
qed

lemma sinv_broadcastToLocalClients: "sinv s \<Longrightarrow> sinv (broadcastToLocalClients k r m s)"
  using dispatch_job_refines
  by (auto simp: broadcastToLocalClients_def sinv_def split: option.splits)

lemma sinv_processDanmaku: "sinv s \<Longrightarrow> sinv (processDanmaku api r m s)"
  by (simp add: processDanmaku_def PushToInput_def redis_accepts_def Let_def sinv_def)

lemma sinv_handleBroadcast: "sinv s \<Longrightarrow> sinv (handleBroadcast api k packet s)"
  by (auto simp: handleBroadcast_def intro: sinv_processDanmaku sinv_broadcastToLocalClients
      split: option.splits)

lemma sinv_broadcasts:
  assumes "sinv s" and "recv_chan (sv_Broadcast s) = Received packet ch"
  shows "sinv (handleBroadcast api k packet (s\<lparr>sv_Broadcast := ch\<rparr>))"
proof -
  have "inv_queue ch"
    using assms chan.rcv_within [OF assms(2)] by (auto simp: sinv_def inv_queue_def chan_simps)
  then have "sinv (s\<lparr>sv_Broadcast := ch\<rparr>)" using assms(1) by (simp add: sinv_def)
  then show ?thesis by (rule sinv_handleBroadcast)
qed

lemma set_stats_sinv [simp]: "sinv (set_stats i pc s) = sinv s"
  by (simp add: set_stats_def sinv_simps)

lemma sinv_stats:
  "sinv s \<Longrightarrow> broadcastStats_swap i s = Some t \<Longrightarrow> sinv t"
  "sinv s \<Longrightarrow> broadcastStats_snapshot rooms i s = Some t \<Longrightarrow> sinv t"
  "sinv s \<Longrightarrow> broadcastStats_report api i s = Some t \<Longrightarrow> sinv t"
  "sinv s \<Longrightarrow> broadcastStats_total api i s = Some t \<Longrightarrow> sinv t"
  "sinv s \<Longrightarrow> broadcastStats_publish api k i s = Some t \<Longrightarrow> sinv t"
  by (auto simp: broadcastStats_swap_def broadcastStats_snapshot_def broadcastStats_report_def
      broadcastStats_total_def broadcastStats_publish_def Let_def sinv_simps
      intro!: sinv_broadcastToLocalClients
      split: if_splits stats_pc.splits list.splits option.splits prod.splits)

lemma sinv_set_sub:
  "sinv s \<Longrightarrow> sb_RoomID sb = sb_RoomID (sv_subs s ! i) \<Longrightarrow>
   sb_cancelled sb = sb_cancelled (sv_subs s ! i) \<Longrightarrow> sinv (set_sub i sb s)"
  by (simp add: sinv_def set_sub_def inv_subs_inbox)

lemma sinv_subscribe:
  "sinv s \<Longrightarrow> subscribe_message k i s = Some t \<Longrightarrow> sinv t"
  "sinv s \<Longrightarrow> subscribe_done i s = Some t \<Longrightarrow> sinv t"
  "sinv s \<Longrightarrow> subscribe_closed i s = Some t \<Longrightarrow> sinv t"
  by (auto simp: subscribe_message_def subscribe_done_def subscribe_closed_def
      intro!: sinv_broadcastToLocalClients sinv_set_sub split: if_splits list.splits)

lemma sinv_fan_out: "sinv s \<Longrightarrow> fan_out s = Some t \<Longrightarrow> sinv t"
  by (auto simp: fan_out_def sinv_def inv_subs_deliver split: list.splits)

lemma sinv_worker_begin: "sinv s \<Longrightarrow> worker_begin w s = Some t \<Longrightarrow> sinv t"
  using worker_take_refines by (auto simp: worker_begin_def sinv_def)

lemma sinv_worker_end: "sinv s \<Longrightarrow> worker_end w s = Some t \<Longrightarrow> sinv t"
  using worker_finish_refines by (auto simp: worker_end_def sinv_def)

lemma worker_send_effect:
  assumes "sinv s" and "worker_send w s = Some t"
  obtains p payload jp c where "worker_next w (sv_jobs s) = Some (Some p, payload, jp)" and "jp_inv jp"
    and "safeSend (sv_clients s p) payload = Some c"
    and "t = set_client p c (s\<lparr>sv_jobs := jp\<rparr>)"
proof -
  obtain x payload jp where n: "worker_next w (sv_jobs s) = Some (x, payload, jp)"
    using assms(2) by (auto simp: worker_send_def split: option.splits)
  then have "jp_inv jp" "x \<noteq> None"
    using assms(1) worker_next_refines by (auto simp: sinv_def)
  then obtain p where p: "x = Some p" by blast
  have "client_ok (sv_clients s p)" using assms(1) by (simp add: sinv_def inv_clients_def)
  then obtain c where "safeSend (sv_clients s p) payload = Some c" by (rule safeSend_ok)
  with that n p \<open>jp_inv jp\<close> assms(2) show thesis by (simp add: worker_send_def set_client_def)
qed

lemma sinv_worker_send:
  assumes "sinv s" and "worker_send w s = Some t"
  shows "sinv t"
proof -
  obtain p payload jp c where j: "jp_inv jp" and c: "safeSend (sv_clients s p) payload = Some c"
    and t: "t = set_client p c (s\<lparr>sv_jobs := jp\<rparr>)"
    using worker_send_effect [OF assms] .
  have "client_ok (sv_clients s p)" using assms(1) by (simp add: sinv_def inv_clients_def)
  then obtain c' where "safeSend (sv_clients s p) payload = Some c'" "client_ok c'"
    "same_user (sv_clients s p) c'" "cl_done_closed c' = cl_done_closed (sv_clients s p)"
    by (rule safeSend_ok)
  then show ?thesis
    using c sinv_jobs [OF assms(1) j] unfolding t by (intro sinv_set_client) simp_all
qed

lemma sinv_writer:
  assumes "sinv s"
    and "WritePump_message ok (sv_clients s p) = Some (c, on) \<or> WritePump_done (sv_clients s p) = Some (c, on)"
  shows "sinv (set_writer p on (set_client p c s))"
proof -
  have "client_ok (sv_clients s p)" using assms(1) by (simp add: sinv_def inv_clients_def)
  then have "client_ok c \<and> same_user (sv_clients s p) c \<and> cl_done_closed c = cl_done_closed (sv_clients s p)"
    using assms(2) WritePump_message_ok WritePump_done_ok by blast
  then show ?thesis using assms(1) by (simp add: sinv_set_client)
qed

lemma saction_sinv:
  assumes "saction api s t" and "sinv s"
  shows "sinv t"
  using assms
proof (cases rule: saction.cases)
  case (conn_fails p)
  then show ?thesis using assms(2) by (simp add: sinv_set_conn)
next
  case (inbox_drops i xs m ys)
  then show ?thesis using assms(2) by (simp add: sinv_set_sub)
next
  case (writer_messages p write_ok c on)
  then show ?thesis using sinv_writer [OF assms(2), of write_ok p c on] by simp
next
  case (writer_stops p c on)
  then show ?thesis using sinv_writer [OF assms(2), of True p c on] by simp
qed (simp_all add: sinv_simps redis_accepts_def sinv_conn_opens sinv_conn_register sinv_conn_read
    sinv_conn_send [OF assms(2)] sinv_conn_unregister sinv_broadcasts sinv_stats [OF assms(2)]
    sinv_fan_out [OF assms(2)] sinv_subscribe [OF assms(2)] sinv_worker_begin [OF assms(2)]
    sinv_worker_send [OF assms(2)] sinv_worker_end [OF assms(2)])

lemma sinv_init: "sinv (NewManager h n rdb)"
  by (simp add: sinv_def NewManager_def inv_rooms_def members_of_def inv_subs_def inv_clients_def
      inv_queue_def jp_inv_new) (simp add: NewClient_def)

interpretation server: stable_system "sstep api" sinv for api
  by unfold_locales (auto simp: sstep_def intro: saction_sinv)

lemma server_reaches: "(sstep api)\<^sup>*\<^sup>* (NewManager h n rdb) s \<Longrightarrow> sinv s"
  by (rule server.run_keeps [OF _ sinv_init])

end
