(* ===== verification/ManagerFlow.thy ===== *)
theory ManagerFlow
  imports ManagerInv
begin

text \<open>
  Where the messages of the server come from and where they go: a client only ever gets messages
  published to its own room or statistics of its own room, and Kafka only ever gets danmaku the
  server wrote itself, with the room and the user of the connection they came from.
\<close>

section \<open>Origins\<close>

definition origin :: "(string \<times> string) list \<Rightarrow> string \<Rightarrow> string \<Rightarrow> bool" where
  "origin published room m \<longleftrightarrow>
     (KeyRoomPubSub room, m) \<in> set published \<or>
     (\<exists>stats. marshal_WsPacket (stats_packet room stats) = Some m)"

text \<open>The packet the danmaku handler makes of a connection, a text and a time.\<close>

definition danmaku_packet :: "client \<Rightarrow> string \<Rightarrow> gotime \<Rightarrow> WsPacket" where
  "danmaku_packet c content now =
     \<lparr>wp_Type = TypeDanmaku, wp_RoomID = cl_RoomID c,
      wp_Data = marshal_DanmakuMessage (zero_danmaku\<lparr>dm_RoomID := cl_RoomID c,
        dm_UserID := cl_UserID c, dm_Content := content, dm_SendTime := now\<rparr>)\<rparr>"

definition authentic :: "(client_ptr \<Rightarrow> conn_pc) \<Rightarrow> (client_ptr \<Rightarrow> client) \<Rightarrow> WsPacket \<Rightarrow> bool" where
  "authentic conn clients packet \<longleftrightarrow>
     (\<exists>p content now. conn p \<noteq> ConnNone \<and> valid_utf8 content \<and> valid_time now \<and>
        packet = danmaku_packet (clients p) content now)"

definition job_ok ::
  "(client_ptr \<Rightarrow> conn_pc) \<Rightarrow> (client_ptr \<Rightarrow> client) \<Rightarrow> (string \<times> string) list \<Rightarrow>
   client_ptr list \<times> string \<Rightarrow> bool" where
  "job_ok conn clients published job \<longleftrightarrow>
     (\<exists>r. (\<forall>x \<in> set (fst job). conn x \<noteq> ConnNone \<and> cl_RoomID (clients x) = r) \<and>
          origin published r (snd job))"

section \<open>What is under way\<close>

definition inboxes :: "subscription list \<Rightarrow> (string \<times> string) set" where
  "inboxes subs = {(sb_RoomID sb, m) | sb m. sb \<in> set subs \<and> m \<in> set (sb_inbox sb)}"

definition fan_jobs :: "fanout \<Rightarrow> (client_ptr list \<times> string) set" where
  "fan_jobs f = set (fo_queue f) \<union> {j. Some j \<in> set (fo_work f)}"

definition outgoing :: "client \<Rightarrow> string set" where
  "outgoing c = set (cl_written c @ ch_buf (cl_Send c))"

definition packets :: "(client_ptr \<Rightarrow> conn_pc) \<Rightarrow> WsPacket gochan \<Rightarrow> WsPacket set" where
  "packets conn ch = set (ch_buf ch) \<union> {packet. \<exists>p. conn p = ConnSend packet}"

definition finv :: "'r server \<Rightarrow> bool" where
  "finv s \<longleftrightarrow>
     set (sv_inflight s) \<subseteq> set (sv_published s) \<and>
     (\<forall>(r, m) \<in> inboxes (sv_subs s). (KeyRoomPubSub r, m) \<in> set (sv_published s)) \<and>
     (\<forall>j \<in> fan_jobs (fanout_of (sv_jobs s)). job_ok (sv_conn s) (sv_clients s) (sv_published s) j) \<and>
     (\<forall>p. \<forall>m \<in> outgoing (sv_clients s p).
        sv_conn s p \<noteq> ConnNone \<and> origin (sv_published s) (cl_RoomID (sv_clients s p)) m) \<and>
     (\<forall>packet \<in> packets (sv_conn s) (sv_Broadcast s). authentic (sv_conn s) (sv_clients s) packet) \<and>
     (\<forall>(topic, v) \<in> set (sv_Kafka s). topic = DanmakuSaveTopic \<and>
        (\<exists>packet. authentic (sv_conn s) (sv_clients s) packet \<and> marshal_WsPacket packet = Some v))"

text \<open>What a step keeps of the connections, and of the publications.\<close>

definition persists :: "'r server \<Rightarrow> 'r server \<Rightarrow> bool" where
  "persists s t \<longleftrightarrow>
     (\<forall>p. sv_conn s p \<noteq> ConnNone \<longrightarrow> sv_conn t p \<noteq> ConnNone \<and> same_user (sv_clients s p) (sv_clients t p)) \<and>
     set (sv_published s) \<subseteq> set (sv_published t)"

lemma origin_mono: "origin pb r m \<Longrightarrow> set pb \<subseteq> set pb' \<Longrightarrow> origin pb' r m"
  by (auto simp: origin_def)

lemma danmaku_packet_user: "same_user c c' \<Longrightarrow> danmaku_packet c' = danmaku_packet c"
  by (simp add: fun_eq_iff danmaku_packet_def same_user_def)

lemma authentic_mono:
  "authentic (sv_conn s) (sv_clients s) packet \<Longrightarrow> persists s t \<Longrightarrow>
   authentic (sv_conn t) (sv_clients t) packet"
  unfolding authentic_def persists_def by (metis danmaku_packet_user)

lemma job_ok_mono:
  assumes "job_ok (sv_conn s) (sv_clients s) (sv_published s) (ys, m)" and "persists s t"
    and "set xs \<subseteq> set ys"
  shows "job_ok (sv_conn t) (sv_clients t) (sv_published t) (xs, m)"
proof -
  obtain r where r: "\<forall>x \<in> set ys. sv_conn s x \<noteq> ConnNone \<and> cl_RoomID (sv_clients s x) = r"
    and "origin (sv_published s) r m" using assms(1) by (auto simp: job_ok_def)
  moreover from this(2) have "origin (sv_published t) r m"
    using assms(2) by (auto simp: persists_def intro: origin_mono)
  moreover have "\<forall>x \<in> set xs. sv_conn t x \<noteq> ConnNone \<and> cl_RoomID (sv_clients t x) = r"
    using r assms(2,3) by (auto simp: persists_def same_user_def)
  ultimately show ?thesis by (auto simp: job_ok_def)
qed

text \<open>To keep the invariant a step only has to account for what is new in the state after it.\<close>

lemma finvI:
  assumes inv: "finv s" and keep: "persists s t"
    and "set (sv_inflight t) \<subseteq> set (sv_inflight s) \<union> set (sv_published t)"
    and "\<And>r m. (r, m) \<in> inboxes (sv_subs t) \<Longrightarrow>
      (r, m) \<in> inboxes (sv_subs s) \<or> (KeyRoomPubSub r, m) \<in> set (sv_published t)"
    and "\<And>xs m. (xs, m) \<in> fan_jobs (fanout_of (sv_jobs t)) \<Longrightarrow>
      (\<exists>ys. (ys, m) \<in> fan_jobs (fanout_of (sv_jobs s)) \<and> set xs \<subseteq> set ys) \<or>
      job_ok (sv_conn t) (sv_clients t) (sv_published t) (xs, m)"
    and "\<And>p m. m \<in> outgoing (sv_clients t p) \<Longrightarrow> m \<in> outgoing (sv_clients s p) \<or>
      sv_conn t p \<noteq> ConnNone \<and> origin (sv_published t) (cl_RoomID (sv_clients t p)) m"
    and "\<And>packet. packet \<in> packets (sv_conn t) (sv_Broadcast t) \<Longrightarrow>
      packet \<in> packets (sv_conn s) (sv_Broadcast s) \<or> authentic (sv_conn t) (sv_clients t) packet"
    and "\<And>topic v. (topic, v) \<in> set (sv_Kafka t) \<Longrightarrow> (topic, v) \<in> set (sv_Kafka s) \<or>
      topic = DanmakuSaveTopic \<and>
      (\<exists>packet. authentic (sv_conn s) (sv_clients s) packet \<and> marshal_WsPacket packet = Some v)"
  shows "finv t"
  unfolding finv_def
proof (intro conjI)
  have pub: "set (sv_published s) \<subseteq> set (sv_published t)" using keep by (simp add: persists_def)
  show "set (sv_inflight t) \<subseteq> set (sv_published t)" using inv assms(3) pub by (auto simp: finv_def)
  show "\<forall>(r, m) \<in> inboxes (sv_subs t). (KeyRoomPubSub r, m) \<in> set (sv_published t)"
  proof (intro ballI case_prodI2)
    fix x r m assume "x \<in> inboxes (sv_subs t)" "x = (r, m)"
    then show "(KeyRoomPubSub r, m) \<in> set (sv_published t)"
      using assms(4) [of r m] inv pub unfolding finv_def by blast
  qed
  show "\<forall>j \<in> fan_jobs (fanout_of (sv_jobs t)). job_ok (sv_conn t) (sv_clients t) (sv_published t) j"
  proof
    fix j assume "j \<in> fan_jobs (fanout_of (sv_jobs t))"
    then show "job_ok (sv_conn t) (sv_clients t) (sv_published t) j"
      using assms(5) [of "fst j" "snd j"] inv job_ok_mono [OF _ keep]
      by (cases j) (auto simp: finv_def)
  qed
  show "\<forall>p. \<forall>m \<in> outgoing (sv_clients t p).
      sv_conn t p \<noteq> ConnNone \<and> origin (sv_published t) (cl_RoomID (sv_clients t p)) m"
  proof (intro allI ballI)
    fix p m assume "m \<in> outgoing (sv_clients t p)"
    then consider "m \<in> outgoing (sv_clients s p)"
      | "sv_conn t p \<noteq> ConnNone \<and> origin (sv_published t) (cl_RoomID (sv_clients t p)) m"
      using assms(6) by blast
    then show "sv_conn t p \<noteq> ConnNone \<and> origin (sv_published t) (cl_RoomID (sv_clients t p)) m"
    proof cases
      case 1
      then have "sv_conn s p \<noteq> ConnNone" "origin (sv_published s) (cl_RoomID (sv_clients s p)) m"
        using inv by (auto simp: finv_def)
      then show ?thesis using keep by (auto simp: persists_def same_user_def intro: origin_mono)
    qed
  qed
  show "\<forall>packet \<in> packets (sv_conn t) (sv_Broadcast t). authentic (sv_conn t) (sv_clients t) packet"
    using inv assms(7) authentic_mono [OF _ keep] unfolding finv_def by blast
  show "\<forall>(topic, v) \<in> set (sv_Kafka t). topic = DanmakuSaveTopic \<and>
      (\<exists>packet. authentic (sv_conn t) (sv_clients t) packet \<and> marshal_WsPacket packet = Some v)"
  proof (intro ballI case_prodI2)
    fix x topic v assume "x \<in> set (sv_Kafka t)" "x = (topic, v)"
    then show "topic = DanmakuSaveTopic \<and>
        (\<exists>packet. authentic (sv_conn t) (sv_clients t) packet \<and> marshal_WsPacket packet = Some v)"
      using assms(8) [of topic v] inv authentic_mono [OF _ keep] unfolding finv_def by blast
  qed
qed

section \<open>Operations on the flow\<close>

lemma finv_irrelevant [simp]:
  "finv (s\<lparr>sv_localLikes := l\<rparr>) = finv s" "finv (s\<lparr>sv_RedisClient := r\<rparr>) = finv s"
  "finv (s\<lparr>sv_writer := wr\<rparr>) = finv s" "finv (s\<lparr>sv_stats := st\<rparr>) = finv s"
  "finv (s\<lparr>sv_incr := ic\<rparr>) = finv s" "finv (s\<lparr>sv_srem := sr\<rparr>) = finv s"
  "finv (s\<lparr>sv_panicked := pn\<rparr>) = finv s" "finv (set_stats i pc s) = finv s"
  "finv (set_writer p b s) = finv s"
  by (simp_all add: finv_def set_stats_def set_writer_def)

lemma persists_conn: "x \<noteq> ConnNone \<Longrightarrow> persists s (set_conn p x s)"
  by (auto simp: persists_def set_conn_def)

lemma persists_client: "same_user (sv_clients s p) c \<or> sv_conn s p = ConnNone \<Longrightarrow> persists s (set_client p c s)"
  by (auto simp: persists_def set_client_def)

lemma packets_conn: "packet \<in> packets (conn(p := x)) ch \<Longrightarrow> packet \<in> packets conn ch \<or> x = ConnSend packet"
  by (auto simp: packets_def split: if_splits)

lemma finv_set_conn:
  assumes "finv s" and "x \<noteq> ConnNone"
    and "\<And>packet. x = ConnSend packet \<Longrightarrow> authentic (sv_conn s) (sv_clients s) packet"
  shows "finv (set_conn p x s)"
proof (rule finvI [OF assms(1) persists_conn [OF assms(2)]])
  fix packet assume "packet \<in> packets (sv_conn (set_conn p x s)) (sv_Broadcast (set_conn p x s))"
  then have "packet \<in> packets (sv_conn s) (sv_Broadcast s) \<or> x = ConnSend packet"
    using packets_conn by (simp add: set_conn_def)
  then show "packet \<in> packets (sv_conn s) (sv_Broadcast s) \<or>
      authentic (sv_conn (set_conn p x s)) (sv_clients (set_conn p x s)) packet"
    using assms(3) authentic_mono [OF _ persists_conn [OF assms(2)]] by blast
qed (auto simp: set_conn_def)

lemma finv_set_client:
  assumes "finv s" and "same_user (sv_clients s p) c" and "outgoing c \<subseteq> outgoing (sv_clients s p)"
  shows "finv (set_client p c s)"
  using assms(2,3) by (intro finvI [OF assms(1) persists_client]) (auto simp: set_client_def split: if_splits)

lemma finv_conn_opens:
  assumes "finv s" and "sv_conn s p = ConnNone" and "ConnectWebSocket q ok = Connected c"
  shows "finv (set_conn p ConnRegister (set_client p c s))"
proof -
  have "outgoing c = {}" using assms(3) by (auto simp: Connected_NewClient outgoing_def NewClient_def)
  then have "finv (set_client p c s)"
    using assms(2) by (intro finvI [OF assms(1) persists_client]) (auto simp: set_client_def split: if_splits)
  then show ?thesis by (rule finv_set_conn) simp_all
qed

lemma finv_subs:
  assumes "finv s" and "inboxes subs \<subseteq> inboxes (sv_subs s)"
  shows "finv (s\<lparr>sv_subs := subs\<rparr>)"
  using assms(2) by (intro finvI [OF assms(1)]) (auto simp: persists_def)

lemma inboxes_update:
  assumes "sb_RoomID sb = sb_RoomID (subs ! i)" and "set (sb_inbox sb) \<subseteq> set (sb_inbox (subs ! i))"
  shows "inboxes (subs[i := sb]) \<subseteq> inboxes subs"
proof (cases "i < length subs")
  case True
  show ?thesis
  proof
    fix x assume "x \<in> inboxes (subs[i := sb])"
    then obtain sb' m where x: "x = (sb_RoomID sb', m)" "sb' \<in> set (subs[i := sb])" "m \<in> set (sb_inbox sb')"
      by (auto simp: inboxes_def)
    then have "sb' = sb \<or> sb' \<in> set subs" using set_update_subset_insert by fastforce
    then show "x \<in> inboxes subs"
      using x assms True nth_mem [OF True] by (auto simp: inboxes_def)
  qed
next
  case False
  then show ?thesis by (simp add: list_update_beyond)
qed

lemma finv_set_sub:
  "finv s \<Longrightarrow> sb_RoomID sb = sb_RoomID (sv_subs s ! i) \<Longrightarrow>
   set (sb_inbox sb) \<subseteq> set (sb_inbox (sv_subs s ! i)) \<Longrightarrow> finv (set_sub i sb s)"
  unfolding set_sub_def by (intro finv_subs inboxes_update)

lemma finv_rooms [simp]: "finv (s\<lparr>sv_Rooms := rm\<rparr>) = finv s" "finv (s\<lparr>sv_cancelSub := cs\<rparr>) = finv s"
  by (simp_all add: finv_def)

lemma inboxes_new [simp]:
  "inboxes (subs @ [\<lparr>sb_RoomID = r, sb_cancelled = c, sb_inbox = [], sb_returned = e\<rparr>]) = inboxes subs"
  by (auto simp: inboxes_def)

lemma finv_handleRegister: "finv s \<Longrightarrow> finv (handleRegister p s)"
  by (auto simp: handleRegister_def Let_def intro!: finv_subs split: option.splits)

lemma finv_conn_register: "finv s \<Longrightarrow> finv (conn_register p s)"
  unfolding conn_register_def by (simp, rule finv_set_conn) (simp_all add: finv_handleRegister)

lemma finv_conn_unregister:
  assumes "sinv s" and "finv s"
  shows "finv (conn_unregister p s)"
proof -
  have "client_ok (sv_clients s p)" using assms(1) by (simp add: sinv_def inv_clients_def)
  then obtain c where c: "Close (sv_clients s p) = Some c" "same_user (sv_clients s p) c"
    "cl_Send c = cl_Send (sv_clients s p)" "cl_written c = cl_written (sv_clients s p)"
    by (rule Close_ok)
  have sub: "inboxes ((sv_subs s)[i := (sv_subs s ! i)\<lparr>sb_cancelled := True\<rparr>]) \<subseteq> inboxes (sv_subs s)" for i
    by (rule inboxes_update) simp_all
  let ?t = "handleUnregister p s"
  have same: "sv_inflight ?t = sv_inflight s" "sv_published ?t = sv_published s" "sv_jobs ?t = sv_jobs s"
    "sv_conn ?t = sv_conn s" "sv_Broadcast ?t = sv_Broadcast s" "sv_Kafka ?t = sv_Kafka s"
    and subs: "inboxes (sv_subs ?t) \<subseteq> inboxes (sv_subs s)"
    and cl: "sv_clients ?t = sv_clients s \<or> sv_clients ?t = (sv_clients s)(p := c)"
    using c(1) sub
    by (auto simp: handleUnregister_def Let_def cancel_sub_def split: option.splits if_splits)
  have out: "same_user (sv_clients s q) (sv_clients ?t q)" "outgoing (sv_clients ?t q) = outgoing (sv_clients s q)" for q
    using cl c by (cases "q = p"; auto simp: outgoing_def)+
  have "finv ?t"
    using subs out by (intro finvI [OF assms(2)]) (auto simp: same persists_def)
  then have "finv (set_client p (close_socket (sv_clients ?t p)) ?t)"
    by (rule finv_set_client) (simp_all add: outgoing_def)
  then show ?thesis unfolding conn_unregister_def Let_def by (rule finv_set_conn) simp_all
qed

lemma finv_conn_read:
  assumes "finv s" and "sv_conn s p = ConnRead" and "valid_time now"
  shows "finv (conn_read now msg p s)"
proof -
  obtain t out where r: "ReadPump_message RegisterActionHandlers now (sv_clients s p) s msg = (t, out)"
    by fastforce
  from handler_effect [OF r] obtain l where t: "t = s\<lparr>sv_localLikes := l\<rparr>"
    and out: "out = None \<or> (\<exists>content. valid_utf8 content \<and>
      out = Some (danmaku_packet (sv_clients s p) content now))"
    by (auto simp: danmaku_packet_def)
  then have "finv t" using assms(1) by simp
  moreover have "authentic (sv_conn t) (sv_clients t) packet" if o: "out = Some packet" for packet
  proof -
    obtain content where "valid_utf8 content" "packet = danmaku_packet (sv_clients s p) content now"
      using out o by auto
    then show ?thesis using assms(2,3) unfolding authentic_def t by (intro exI [of _ p]) auto
  qed
  ultimately show ?thesis
    using r by (auto simp: conn_read_def intro: finv_set_conn split: option.splits)
qed

lemma finv_conn_send:
  assumes "finv s" and "conn_send p s = Some t"
  shows "finv t"
proof -
  obtain packet where pc: "sv_conn s p = ConnSend packet"
    using assms(2) by (auto simp: conn_send_def split: conn_pc.splits)
  show ?thesis
  proof (cases "send_chan packet (sv_Broadcast s)")
    case (Sent ch)
    have "packets (sv_conn s) ch = packets (sv_conn s) (sv_Broadcast s)"
      using pc chan.snd_set [OF Sent] by (auto simp: packets_def)
    then have "finv (s\<lparr>sv_Broadcast := ch\<rparr>)" using assms(1) by (simp add: finv_def)
    then show ?thesis using assms(2) pc Sent by (auto simp: conn_send_def intro!: finv_set_conn)
  next
    case SendPanics
    then show ?thesis using assms pc by (auto simp: conn_send_def)
  qed (use assms(2) pc in \<open>simp add: conn_send_def\<close>)
qed

section \<open>Broadcasting\<close>

lemma fan_jobs_dispatch: "fan_jobs (fo_dispatch xs m f) \<subseteq> insert (xs, m) (fan_jobs f)"
  by (auto simp: fan_jobs_def fo_dispatch_def)

lemma finv_jobs:
  assumes "finv s"
    and "\<And>xs m. (xs, m) \<in> fan_jobs (fanout_of jp) \<Longrightarrow>
      (\<exists>ys. (ys, m) \<in> fan_jobs (fanout_of (sv_jobs s)) \<and> set xs \<subseteq> set ys) \<or>
      job_ok (sv_conn s) (sv_clients s) (sv_published s) (xs, m)"
  shows "finv (s\<lparr>sv_jobs := jp\<rparr>)"
  using assms(2) by (intro finvI [OF assms(1)]) (auto simp: persists_def)

lemma room_members:
  assumes "sinv s" and "sv_Rooms s r = Some X" and "x \<in> X"
  shows "sv_conn s x \<noteq> ConnNone \<and> cl_RoomID (sv_clients s x) = r"
proof -
  have "X = members_of (sv_conn s) (sv_clients s) r"
    using assms(1,2) by (simp add: sinv_def inv_rooms_def split: if_splits)
  then have "active (sv_conn s x)" "cl_RoomID (sv_clients s x) = r"
    using assms(3) by (simp_all add: members_of_def)
  then show ?thesis by auto
qed

lemma finv_broadcast:
  assumes "sinv s" and "finv s" and "enumerates k r s" and "origin (sv_published s) r m"
  shows "finv (broadcastToLocalClients k r m s)"
proof (cases "sv_Rooms s r")
  case None
  then show ?thesis using assms(2) by (simp add: broadcastToLocalClients_def)
next
  case (Some X)
  then have "set (pk_order k) = X" using assms(3) by (simp add: enumerates_def)
  then have ok: "job_ok (sv_conn s) (sv_clients s) (sv_published s) (pk_order k, m)"
    using room_members [OF assms(1) Some] assms(4) by (auto simp: job_ok_def)
  let ?jp = "dispatch_job (pk_pool k) (pk_grow k) (pk_order k) m (sv_jobs s)"
  have "jp_inv (sv_jobs s)" using assms(1) by (simp add: sinv_def)
  then have f: "fanout_of ?jp = fo_dispatch (pk_order k) m (fanout_of (sv_jobs s))"
    using dispatch_job_refines by blast
  have "finv (s\<lparr>sv_jobs := ?jp\<rparr>)"
    using assms(2)
  proof (rule finv_jobs)
    fix xs n assume "(xs, n) \<in> fan_jobs (fanout_of ?jp)"
    then have "(xs, n) = (pk_order k, m) \<or> (xs, n) \<in> fan_jobs (fanout_of (sv_jobs s))"
      unfolding f using fan_jobs_dispatch by blast
    then show "(\<exists>ys. (ys, n) \<in> fan_jobs (fanout_of (sv_jobs s)) \<and> set xs \<subseteq> set ys) \<or>
        job_ok (sv_conn s) (sv_clients s) (sv_published s) (xs, n)"
      using ok by blast
  qed
  then show ?thesis using Some by (simp add: broadcastToLocalClients_def)
qed

lemma finv_redis_accepts: "finv s \<Longrightarrow> finv (redis_accepts key m s)"
  by (rule finvI [of s]) (auto simp: redis_accepts_def persists_def)

lemma finv_handleBroadcast:
  assumes "finv s" and "authentic (sv_conn s) (sv_clients s) packet"
  shows "finv (handleBroadcast api k packet s)"
proof -
  have ty: "wp_Type packet = TypeDanmaku" using assms(2) by (auto simp: authentic_def danmaku_packet_def)
  have "finv (PushToInput DanmakuSaveTopic v s)" if "marshal_WsPacket packet = Some v" for v
    using assms(2) that by (intro finvI [OF assms(1)]) (auto simp: PushToInput_def persists_def)
  then show ?thesis
    using assms(1) ty
    by (auto simp: handleBroadcast_def processDanmaku_def Let_def intro: finv_redis_accepts
        split: option.splits)
qed

lemma finv_broadcasts:
  assumes "finv s" and "recv_chan (sv_Broadcast s) = Received packet ch"
  shows "finv (handleBroadcast api k packet (s\<lparr>sv_Broadcast := ch\<rparr>))"
proof -
  have sub: "packets (sv_conn s) (sv_Broadcast s) = insert packet (packets (sv_conn s) ch)"
    using chan.rcv_set [OF assms(2)] by (auto simp: packets_def)
  then have auth: "authentic (sv_conn s) (sv_clients s) packet"
    using assms(1) by (simp add: finv_def)
  have "finv (s\<lparr>sv_Broadcast := ch\<rparr>)" using assms(1) sub by (simp add: finv_def)
  then show ?thesis using auth by (intro finv_handleBroadcast) simp_all
qed

section \<open>The other steps\<close>

lemma finv_stats:
  "finv s \<Longrightarrow> broadcastStats_swap i s = Some t \<Longrightarrow> finv t"
  "finv s \<Longrightarrow> broadcastStats_snapshot rooms i s = Some t \<Longrightarrow> finv t"
  "finv s \<Longrightarrow> broadcastStats_report api i s = Some t \<Longrightarrow> finv t"
  "finv s \<Longrightarrow> broadcastStats_total api i s = Some t \<Longrightarrow> finv t"
  by (auto simp: broadcastStats_swap_def broadcastStats_snapshot_def broadcastStats_report_def
      broadcastStats_total_def Let_def
      split: if_splits stats_pc.splits list.splits option.splits prod.splits)

lemma enumerates_cong:
  "sv_Rooms t = sv_Rooms s \<Longrightarrow> enumerates k r t = enumerates k r s"
  by (simp add: enumerates_def)

lemma finv_stats_publish:
  assumes "sinv s" and "finv s"
    and order: "\<And>likes r n rest. sv_stats s ! i = StTotal likes r n rest \<Longrightarrow> enumerates k r s"
    and "broadcastStats_publish api k i s = Some t"
  shows "finv t"
proof -
  obtain likes r n rest where pc: "sv_stats s ! i = StTotal likes r n rest"
    using assms(4) by (auto simp: broadcastStats_publish_def split: if_splits stats_pc.splits)
  let ?s = "set_stats i (StLoop likes rest) s"
  let ?p = "stats_packet r \<lparr>sd_Online = n, sd_Likes = GetRoomLikes api (sv_RedisClient s) r\<rparr>"
  show ?thesis
  proof (cases "marshal_WsPacket ?p")
    case None
    then show ?thesis
      using assms(2,4) pc by (auto simp: broadcastStats_publish_def Let_def split: if_splits)
  next
    case (Some m)
    then have t: "t = broadcastToLocalClients k r m ?s"
      using assms(4) pc by (simp add: broadcastStats_publish_def Let_def split: if_splits)
    have "origin (sv_published ?s) r m" using Some by (auto simp: origin_def)
    moreover have "enumerates k r ?s"
      using order [OF pc] by (simp add: enumerates_def set_stats_def)
    ultimately show ?thesis unfolding t using assms(1,2) by (intro finv_broadcast) simp_all
  qed
qed

lemma finv_subscribe_message:
  assumes "sinv s" and "finv s" and "i < length (sv_subs s) \<Longrightarrow> enumerates k (sb_RoomID (sv_subs s ! i)) s"
    and "subscribe_message k i s = Some t"
  shows "finv t"
proof -
  obtain m rest where i: "i < length (sv_subs s)" and box: "sb_inbox (sv_subs s ! i) = m # rest"
    and t: "t = broadcastToLocalClients k (sb_RoomID (sv_subs s ! i)) m
      (set_sub i ((sv_subs s ! i)\<lparr>sb_inbox := rest\<rparr>) s)"
    using assms(4) by (auto simp: subscribe_message_def split: if_splits list.splits)
  let ?s = "set_sub i ((sv_subs s ! i)\<lparr>sb_inbox := rest\<rparr>) s"
  have "sinv ?s" using assms(1) by (rule sinv_set_sub) simp_all
  moreover have "finv ?s" using assms(2) by (rule finv_set_sub) (auto simp: box)
  moreover have "(sb_RoomID (sv_subs s ! i), m) \<in> inboxes (sv_subs s)"
    using nth_mem [OF i] box by (auto simp: inboxes_def)
  then have "origin (sv_published ?s) (sb_RoomID (sv_subs s ! i)) m"
    using assms(2) by (auto simp: finv_def origin_def set_sub_def)
  moreover have "enumerates k (sb_RoomID (sv_subs s ! i)) ?s"
    using assms(3) [OF i] by (simp add: enumerates_def set_sub_def)
  ultimately show ?thesis unfolding t by (intro finv_broadcast)
qed

lemma finv_fan_out:
  assumes "finv s" and "fan_out s = Some t"
  shows "finv t"
proof -
  obtain key m rest where fl: "sv_inflight s = (key, m) # rest"
    and t: "t = s\<lparr>sv_inflight := rest, sv_subs := map (deliver_sub key m) (sv_subs s)\<rparr>"
    using assms(2) by (auto simp: fan_out_def split: list.splits)
  have "(r, n) \<in> inboxes (sv_subs t) \<Longrightarrow>
      (r, n) \<in> inboxes (sv_subs s) \<or> KeyRoomPubSub r = key \<and> n = m" for r n
    by (auto simp: t inboxes_def deliver_sub_def split: if_splits)
  moreover have "(key, m) \<in> set (sv_published s)" using assms(1) fl by (simp add: finv_def)
  ultimately show ?thesis
    using fl by (intro finvI [OF assms(1)]) (auto simp: t persists_def)
qed

lemma fan_jobs_worker:
  "fo_take w f = Some f' \<Longrightarrow> fan_jobs f' \<subseteq> fan_jobs f"
  "fo_finish w f = Some f' \<Longrightarrow> fan_jobs f' \<subseteq> fan_jobs f"
  using set_update_subset_insert
  by (fastforce simp: fan_jobs_def fo_take_def fo_finish_def split: list.splits if_splits option.splits prod.splits)+

lemma fan_jobs_next:
  assumes "fo_next w f = Some (x, m, f')"
  obtains p xs where "x = Some p" and "(p # xs, m) \<in> fan_jobs f"
    and "fan_jobs f' \<subseteq> insert (xs, m) (fan_jobs f)"
proof -
  obtain p xs where w: "w < length (fo_work f)" "fo_work f ! w = Some (p # xs, m)" "x = Some p"
    and f': "f' = f\<lparr>fo_work := (fo_work f)[w := Some (xs, m)]\<rparr>"
    using assms by (auto simp: fo_next_def split: if_splits option.splits prod.splits list.splits)
  have "(p # xs, m) \<in> fan_jobs f" using w nth_mem [OF w(1)] by (simp add: fan_jobs_def)
  moreover have "fan_jobs f' \<subseteq> insert (xs, m) (fan_jobs f)"
    using set_update_subset_insert [of "fo_work f" w "Some (xs, m)"] by (auto simp: fan_jobs_def f')
  ultimately show thesis using that w(3) by blast
qed

lemma finv_worker_move:
  assumes "sinv s" and "finv s"
  shows "worker_begin w s = Some t \<Longrightarrow> finv t" and "worker_end w s = Some t \<Longrightarrow> finv t"
proof -
  have jp: "jp_inv (sv_jobs s)" using assms(1) by (simp add: sinv_def)
  have sub: "finv (s\<lparr>sv_jobs := jp'\<rparr>)"
    if "fan_jobs (fanout_of jp') \<subseteq> fan_jobs (fanout_of (sv_jobs s))" for jp'
    using assms(2) that by (intro finv_jobs) blast+
  show "worker_begin w s = Some t \<Longrightarrow> finv t"
    using worker_take_refines [OF jp] fan_jobs_worker(1) sub by (fastforce simp: worker_begin_def)
  show "worker_end w s = Some t \<Longrightarrow> finv t"
    using worker_finish_refines [OF jp] fan_jobs_worker(2) sub by (fastforce simp: worker_end_def)
qed

lemma finv_worker_send:
  assumes "sinv s" and "finv s" and "worker_send w s = Some t"
  shows "finv t"
proof -
  obtain p m jp c where n: "worker_next w (sv_jobs s) = Some (Some p, m, jp)"
    and c: "safeSend (sv_clients s p) m = Some c" and t: "t = set_client p c (s\<lparr>sv_jobs := jp\<rparr>)"
    using worker_send_effect [OF assms(1,3)] .
  have "jp_inv (sv_jobs s)" using assms(1) by (simp add: sinv_def)
  then have "fo_next w (fanout_of (sv_jobs s)) = Some (Some p, m, fanout_of jp)"
    using worker_next_refines [OF _ n] by blast
  then obtain xs where old: "(p # xs, m) \<in> fan_jobs (fanout_of (sv_jobs s))"
    and new: "fan_jobs (fanout_of jp) \<subseteq> insert (xs, m) (fan_jobs (fanout_of (sv_jobs s)))"
    by (elim fan_jobs_next) simp
  have jobs: "finv (s\<lparr>sv_jobs := jp\<rparr>)" (is "finv ?u")
    using assms(2)
  proof (rule finv_jobs)
    fix ys n assume "(ys, n) \<in> fan_jobs (fanout_of jp)"
    then have "(ys, n) = (xs, m) \<or> (ys, n) \<in> fan_jobs (fanout_of (sv_jobs s))" using new by blast
    moreover have "set xs \<subseteq> set (p # xs)" by auto
    ultimately show "(\<exists>zs. (zs, n) \<in> fan_jobs (fanout_of (sv_jobs s)) \<and> set ys \<subseteq> set zs) \<or>
        job_ok (sv_conn s) (sv_clients s) (sv_published s) (ys, n)"
      using old by blast
  qed
  have "job_ok (sv_conn s) (sv_clients s) (sv_published s) (p # xs, m)"
    using assms(2) old by (simp add: finv_def)
  then have target: "sv_conn s p \<noteq> ConnNone" "origin (sv_published s) (cl_RoomID (sv_clients s p)) m"
    by (auto simp: job_ok_def)
  have "client_ok (sv_clients s p)" using assms(1) by (simp add: sinv_def inv_clients_def)
  then obtain c' where c': "safeSend (sv_clients s p) m = Some c'" "same_user (sv_clients s p) c'"
    "cl_written c' = cl_written (sv_clients s p)"
    "ch_buf (cl_Send c') = ch_buf (cl_Send (sv_clients s p)) @ [m] \<or> c' = sv_clients s p \<and>
      length (ch_buf (cl_Send (sv_clients s p))) = SendChanSize"
    by (rule safeSend_ok)
  have out: "outgoing c \<subseteq> insert m (outgoing (sv_clients s p))" and user: "same_user (sv_clients s p) c"
    using c c' by (auto simp: outgoing_def)
  have "persists ?u t" unfolding t using user by (intro persists_client) simp
  then show ?thesis
    using out target user
    by (intro finvI [OF jobs]) (auto simp: t set_client_def same_user_def split: if_splits)
qed

lemma finv_writer:
  assumes "sinv s" and "finv s"
    and "WritePump_message ok (sv_clients s p) = Some (c, on) \<or> WritePump_done (sv_clients s p) = Some (c, on)"
  shows "finv (set_writer p on (set_client p c s))"
proof -
  have "client_ok (sv_clients s p)" using assms(1) by (simp add: sinv_def inv_clients_def)
  then have "same_user (sv_clients s p) c \<and> outgoing c \<subseteq> outgoing (sv_clients s p)"
    using assms(3) WritePump_message_ok WritePump_done_ok unfolding outgoing_def by (metis order_refl)
  then show ?thesis using assms(2) by (simp add: finv_set_client)
qed

lemma saction_finv:
  assumes "saction api s t" and "sinv s" and "finv s"
  shows "finv t"
  using assms
proof (cases rule: saction.cases)
  case (conn_fails p)
  then show ?thesis using assms(3) by (simp, intro finv_set_conn) simp_all
next
  case (inbox_drops i xs m ys)
  then show ?thesis using assms(3) by (simp, intro finv_set_sub) auto
next
  case (stats_publishes i k)
  then show ?thesis using finv_stats_publish [OF assms(2,3)] by blast
next
  case (sub_messages i k)
  then show ?thesis using finv_subscribe_message [OF assms(2,3)] by blast
next
  case (sub_ends i)
  then show ?thesis
    using assms(3) by (auto simp: subscribe_done_def intro!: finv_set_sub split: if_splits)
next
  case (sub_closes i)
  then show ?thesis
    using assms(3) by (auto simp: subscribe_closed_def intro!: finv_set_sub split: if_splits)
next
  case (writer_messages p write_ok c on)
  then show ?thesis using finv_writer [OF assms(2,3), of write_ok p c on] by simp
next
  case (writer_stops p c on)
  then show ?thesis using finv_writer [OF assms(2,3), of True p c on] by simp
qed (simp_all add: finv_redis_accepts finv_conn_opens finv_conn_register finv_conn_read
    finv_conn_send [OF assms(3)] finv_conn_unregister [OF assms(2)] finv_broadcasts
    finv_stats [OF assms(3)] finv_fan_out [OF assms(3)] finv_worker_move [OF assms(2,3)]
    finv_worker_send [OF assms(2,3)])

lemma finv_init: "finv (NewManager h n rdb)"
  by (simp add: finv_def NewManager_def inboxes_def fan_jobs_def fanout_of_def new_pool_def
      outgoing_def packets_def NewClient_def)

interpretation flow: stable_system "sstep api" "\<lambda>s. sinv s \<and> finv s" for api
  by unfold_locales (auto simp: sstep_def intro: saction_sinv saction_finv)

lemma server_flow: "(sstep api)\<^sup>*\<^sup>* (NewManager h n rdb) s \<Longrightarrow> finv s"
  using flow.run_keeps [of api "NewManager h n rdb" s] by (simp add: sinv_init finv_init)

end
