(* ===== verification/ManagerRuns.thy ===== *)
theory ManagerRuns
  imports ManagerFlow Codec
begin

text \<open>
  Concrete runs of the server, which the witnesses and the possible-behaviour properties use: a
  connection that joins and leaves, a publication that reaches a client, a like that is forgotten.
\<close>

section \<open>Building runs\<close>

lemma sstep_action: "\<not> sv_panicked s \<Longrightarrow> saction api s t \<Longrightarrow> sstep api s t"
  by (simp add: sstep_def)

lemma run_action:
  assumes "(sstep api)\<^sup>*\<^sup>* s t" and "sinv t" and "saction api t u"
  shows "(sstep api)\<^sup>*\<^sup>* s u \<and> sinv u"
proof -
  have "sstep api t u" using assms(2,3) by (simp add: sstep_def sinv_def)
  then show ?thesis using assms(1) saction_sinv [OF assms(3,2)] by (meson rtranclp.rtrancl_into_rtrancl)
qed

text \<open>
  Runs in which something never changes: in every step the value \<open>f\<close> takes is that of the state
  before.
\<close>

definition keeping :: "('r server \<Rightarrow> 'x) \<Rightarrow> 'r redis_api \<Rightarrow> 'r server \<Rightarrow> 'r server \<Rightarrow> bool" where
  "keeping f api s t \<longleftrightarrow> sstep api s t \<and> f t = f s"

lemma keeping_run: "(keeping f api)\<^sup>*\<^sup>* s t \<Longrightarrow> (sstep api)\<^sup>*\<^sup>* s t"
  by (rule rtranclp_mono [THEN predicate2D, rotated]) (auto simp: keeping_def)

lemma keeping_value: "(keeping f api)\<^sup>*\<^sup>* s t \<Longrightarrow> f t = f s"
  by (induction rule: rtranclp_induct) (simp_all add: keeping_def)

lemma keeping_sinv: "(keeping f api)\<^sup>*\<^sup>* s t \<Longrightarrow> sinv s \<Longrightarrow> sinv t"
  using server.run_keeps keeping_run by blast

lemma keeping_refl: "sinv s \<Longrightarrow> (keeping f api)\<^sup>*\<^sup>* s s \<and> sinv s"
  by simp

lemma keep_action:
  assumes "(keeping f api)\<^sup>*\<^sup>* s t \<and> sinv t" and "saction api t u" and "f u = f t"
  shows "(keeping f api)\<^sup>*\<^sup>* s u \<and> sinv u"
proof -
  have "keeping f api t u" using assms by (simp add: keeping_def sstep_def sinv_def)
  then show ?thesis using assms(1) saction_sinv [OF assms(2)] by (meson rtranclp.rtrancl_into_rtrancl)
qed

text \<open>A fan-out with nothing to do.\<close>

definition idle :: fanout where
  "idle = \<lparr>fo_queue = [], fo_work = replicate WorkerCount None\<rparr>"

lemma fanout_new [simp]: "fanout_of new_pool = idle"
  by (simp add: fanout_of_def new_pool_def idle_def)

text \<open>
  With the fan-out idle, a message broadcast to a room of one client is put on the client's
  channel by the first worker, and the fan-out is idle again.
\<close>

definition add_message :: "client_ptr \<Rightarrow> string \<Rightarrow> 'r server \<Rightarrow> 'r server" where
  "add_message p m s =
     set_client p ((sv_clients s p)\<lparr>cl_Send := (cl_Send (sv_clients s p))
       \<lparr>ch_buf := ch_buf (cl_Send (sv_clients s p)) @ [m]\<rparr>\<rparr>) s"

lemma deliver_one:
  assumes inv: "sinv s" and idle: "fanout_of (sv_jobs s) = idle" and room: "sv_Rooms s r = Some {p}"
    and k: "pk_order k = [p]" and free: "length (ch_buf (cl_Send (sv_clients s p))) < SendChanSize"
  shows "\<exists>jp. fanout_of jp = idle \<and>
    (keeping sv_conn api)\<^sup>*\<^sup>* (broadcastToLocalClients k r m s) (add_message p m (s\<lparr>sv_jobs := jp\<rparr>))"
proof -
  let ?jp0 = "dispatch_job (pk_pool k) (pk_grow k) [p] m (sv_jobs s)"
  let ?s0 = "broadcastToLocalClients k r m s"
  have s0: "?s0 = s\<lparr>sv_jobs := ?jp0\<rparr>" using room k by (simp add: broadcastToLocalClients_def)
  have i0: "jp_inv ?jp0" and f0: "fanout_of ?jp0 = \<lparr>fo_queue = [([p], m)], fo_work = replicate WorkerCount None\<rparr>"
    using inv dispatch_job_refines [of "sv_jobs s" "pk_pool k" "pk_grow k" "[p]" m]
    by (simp_all add: sinv_def idle fo_dispatch_def idle_def BroadcastJobChanSize_def)
  let ?w1 = "(replicate WorkerCount None)[0 := Some ([p], m)]"
  have "fo_take 0 (fanout_of ?jp0) = Some \<lparr>fo_queue = [], fo_work = ?w1\<rparr>"
    by (simp add: f0 fo_take_def WorkerCount_def)
  then obtain jp1 where t1: "worker_take 0 ?jp0 = Some jp1" and f1: "fanout_of jp1 = \<lparr>fo_queue = [], fo_work = ?w1\<rparr>"
    using worker_take_enabled [OF i0] by blast
  have i1: "jp_inv jp1" using worker_take_refines [OF i0 t1] by simp
  let ?w2 = "(replicate WorkerCount None)[0 := Some ([], m)]"
  have "fo_next 0 (fanout_of jp1) = Some (Some p, m, \<lparr>fo_queue = [], fo_work = ?w2\<rparr>)"
    by (simp add: f1 fo_next_def WorkerCount_def)
  then obtain jp2 where t2: "worker_next 0 jp1 = Some (Some p, m, jp2)"
    and f2: "fanout_of jp2 = \<lparr>fo_queue = [], fo_work = ?w2\<rparr>"
    using worker_next_enabled [OF i1] by blast
  have i2: "jp_inv jp2" using worker_next_refines [OF i1 t2] by simp
  have "(replicate WorkerCount None)[0 := None] = (replicate WorkerCount None :: (client_ptr list \<times> string) option list)"
    by (simp add: list_update_same_conv WorkerCount_def)
  then have "fo_finish 0 (fanout_of jp2) = Some idle"
    by (simp add: f2 fo_finish_def idle_def WorkerCount_def)
  then obtain jp3 where t3: "worker_finish 0 jp2 = Some jp3" and f3: "fanout_of jp3 = idle"
    using worker_finish_enabled [OF i2] by blast
  have cl: "client_ok (sv_clients s p)" using inv by (simp add: sinv_def inv_clients_def)
  let ?c = "(sv_clients s p)\<lparr>cl_Send := (cl_Send (sv_clients s p))
       \<lparr>ch_buf := ch_buf (cl_Send (sv_clients s p)) @ [m]\<rparr>\<rparr>"
  have c: "safeSend (sv_clients s p) m = Some ?c"
    using cl free by (simp add: safeSend_def send_chan_def client_ok_def)
  have r0: "(keeping sv_conn api)\<^sup>*\<^sup>* ?s0 ?s0 \<and> sinv ?s0" using keeping_refl [OF sinv_broadcastToLocalClients [OF inv]] .
  have "saction api ?s0 (s\<lparr>sv_jobs := jp1\<rparr>)"
    using t1 by (intro worker_begins [of 0]) (simp add: s0 worker_begin_def)
  then have r1: "(keeping sv_conn api)\<^sup>*\<^sup>* ?s0 (s\<lparr>sv_jobs := jp1\<rparr>) \<and> sinv (s\<lparr>sv_jobs := jp1\<rparr>)"
    by (rule keep_action [OF r0]) (simp add: s0)
  have "saction api (s\<lparr>sv_jobs := jp1\<rparr>) (add_message p m (s\<lparr>sv_jobs := jp2\<rparr>))"
    using t2 c by (intro worker_sends [of 0]) (simp add: worker_send_def add_message_def set_client_def)
  then have r2: "(keeping sv_conn api)\<^sup>*\<^sup>* ?s0 (add_message p m (s\<lparr>sv_jobs := jp2\<rparr>)) \<and>
      sinv (add_message p m (s\<lparr>sv_jobs := jp2\<rparr>))"
    by (rule keep_action [OF r1]) (simp add: add_message_def set_client_def)
  have "saction api (add_message p m (s\<lparr>sv_jobs := jp2\<rparr>)) (add_message p m (s\<lparr>sv_jobs := jp3\<rparr>))"
    using t3 by (intro worker_ends [of 0]) (simp add: worker_end_def add_message_def set_client_def)
  then have "(keeping sv_conn api)\<^sup>*\<^sup>* ?s0 (add_message p m (s\<lparr>sv_jobs := jp3\<rparr>)) \<and>
      sinv (add_message p m (s\<lparr>sv_jobs := jp3\<rparr>))"
    by (rule keep_action [OF r2]) (simp add: add_message_def set_client_def)
  then show ?thesis using f3 by blast
qed

section \<open>A client that joins and leaves\<close>

definition joined :: "client_ptr \<Rightarrow> client \<Rightarrow> 'r server \<Rightarrow> 'r server" where
  "joined p c s = conn_register p (set_conn p ConnRegister (set_client p c s))"

definition left :: "client_ptr \<Rightarrow> 'r server \<Rightarrow> 'r server" where
  "left p s = conn_unregister p (set_conn p ConnUnregister s)"

definition query_for :: "string \<Rightarrow> connect_query" where
  "query_for r = \<lparr>cq_uid = ''7'', cq_name = [], cq_room = r\<rparr>"

lemma query_connects: "r \<noteq> [] \<Longrightarrow> ConnectWebSocket (query_for r) True = Connected (NewClient 7 [] r)"
proof -
  have "ParseUint ''7'' = Inr 7" by code_simp
  then show "r \<noteq> [] \<Longrightarrow> ConnectWebSocket (query_for r) True = Connected (NewClient 7 [] r)"
    by (simp add: ConnectWebSocket_def query_for_def)
qed

lemma run_joined:
  assumes "(sstep api)\<^sup>*\<^sup>* s t" and "sinv t" and "sv_conn t p = ConnNone" and "r \<noteq> []"
  shows "(sstep api)\<^sup>*\<^sup>* s (joined p (NewClient 7 [] r) t) \<and> sinv (joined p (NewClient 7 [] r) t)"
proof -
  let ?u = "set_conn p ConnRegister (set_client p (NewClient 7 [] r) t)"
  have "saction api t ?u" by (rule conn_opens [OF assms(3) query_connects [OF assms(4)]])
  then have "(sstep api)\<^sup>*\<^sup>* s ?u \<and> sinv ?u" by (rule run_action [OF assms(1,2)])
  moreover have "saction api ?u (joined p (NewClient 7 [] r) t)"
    unfolding joined_def by (rule conn_registers) (simp add: set_conn_def)
  ultimately show ?thesis using run_action by blast
qed

lemma run_left:
  assumes "(sstep api)\<^sup>*\<^sup>* s t" and "sinv t" and "sv_conn t p = ConnRead"
  shows "(sstep api)\<^sup>*\<^sup>* s (left p t) \<and> sinv (left p t)"
proof -
  let ?u = "set_conn p ConnUnregister t"
  have "(sstep api)\<^sup>*\<^sup>* s ?u \<and> sinv ?u"
    using assms by (intro run_action [OF assms(1,2)] conn_fails)
  moreover have "saction api ?u (left p t)"
    unfolding left_def by (rule conn_unregisters) (simp add: set_conn_def)
  ultimately show ?thesis using run_action by blast
qed

lemmas run_defs = joined_def left_def conn_register_def conn_unregister_def handleRegister_def
  handleUnregister_def set_conn_def set_client_def set_writer_def cancel_sub_def Let_def
  NewManager_def NewClient_def Close_def close_socket_def

section \<open>A stale subscription\<close>

text \<open>
  Client 0 is in the room alone when a message is published; it leaves, which cancels the room's
  subscription, and client 1 joins, which starts another; then Redis delivers, to both.
\<close>

definition two_subs :: "string \<Rightarrow> string \<Rightarrow> 'r server \<Rightarrow> 'r server" where
  "two_subs r m s =
     joined (ClientPtr 1) (NewClient 7 [] r)
       (left (ClientPtr 0) (redis_accepts (KeyRoomPubSub r) m
         (joined (ClientPtr 0) (NewClient 7 [] r) s)))"

lemma two_subs_facts:
  "sv_inflight (two_subs r m (NewManager h n rdb)) = [(KeyRoomPubSub r, m)]"
  "sv_published (two_subs r m (NewManager h n rdb)) = [(KeyRoomPubSub r, m)]"
  "sv_Rooms (two_subs r m (NewManager h n rdb)) r = Some {ClientPtr 1}"
  "sv_subs (two_subs r m (NewManager h n rdb)) =
     [\<lparr>sb_RoomID = r, sb_cancelled = True, sb_inbox = [], sb_returned = False\<rparr>,
      \<lparr>sb_RoomID = r, sb_cancelled = False, sb_inbox = [], sb_returned = False\<rparr>]"
  "sv_jobs (two_subs r m (NewManager h n rdb)) = new_pool"
  "sv_clients (two_subs r m (NewManager h n rdb)) (ClientPtr 1) = NewClient 7 [] r"
  by (simp_all add: two_subs_def run_defs redis_accepts_def)

lemma run_two_subs:
  assumes "r \<noteq> []"
  shows "(sstep api)\<^sup>*\<^sup>* (NewManager h n rdb) (two_subs r m (NewManager h n rdb)) \<and>
    sinv (two_subs r m (NewManager h n rdb))"
proof -
  let ?s0 = "NewManager h n rdb"
  let ?s1 = "joined (ClientPtr 0) (NewClient 7 [] r) ?s0"
  let ?s2 = "redis_accepts (KeyRoomPubSub r) m ?s1"
  let ?s3 = "left (ClientPtr 0) ?s2"
  have "(sstep api)\<^sup>*\<^sup>* ?s0 ?s1 \<and> sinv ?s1"
    using assms by (intro run_joined sinv_init rtranclp.rtrancl_refl) (simp_all add: NewManager_def)
  then have "(sstep api)\<^sup>*\<^sup>* ?s0 ?s2 \<and> sinv ?s2" using run_action other_publishes by blast
  moreover have "sv_conn ?s2 (ClientPtr 0) = ConnRead" by (simp add: run_defs redis_accepts_def)
  ultimately have "(sstep api)\<^sup>*\<^sup>* ?s0 ?s3 \<and> sinv ?s3" using run_left by blast
  moreover have "sv_conn ?s3 (ClientPtr 1) = ConnNone" by (simp add: run_defs redis_accepts_def)
  ultimately show ?thesis unfolding two_subs_def using run_joined assms by blast
qed

lemma add_message_simps [simp]:
  "sv_Rooms (add_message p m s) = sv_Rooms s" "sv_subs (add_message p m s) = sv_subs s"
  "sv_jobs (add_message p m s) = sv_jobs s" "sv_published (add_message p m s) = sv_published s"
  "ch_buf (cl_Send (sv_clients (add_message p m s) p)) = ch_buf (cl_Send (sv_clients s p)) @ [m]"
  by (simp_all add: add_message_def set_client_def)

text \<open>A subscription with a message, to a room of one client, while nothing else is to be sent.\<close>

lemma sub_delivers:
  assumes inv: "sinv t" and idle: "fanout_of (sv_jobs t) = idle"
    and i: "i < length (sv_subs t)" "\<not> sb_returned (sv_subs t ! i)" "sb_inbox (sv_subs t ! i) = [m]"
    and room: "sv_Rooms t (sb_RoomID (sv_subs t ! i)) = Some {p}"
    and free: "length (ch_buf (cl_Send (sv_clients t p))) < SendChanSize"
  shows "\<exists>jp. fanout_of jp = idle \<and>
    (keeping sv_conn api)\<^sup>*\<^sup>* t
      (add_message p m ((set_sub i ((sv_subs t ! i)\<lparr>sb_inbox := []\<rparr>) t)\<lparr>sv_jobs := jp\<rparr>))"
proof -
  let ?k = "\<lparr>pk_pool = None, pk_grow = 0, pk_order = [p]\<rparr>"
  let ?r = "sb_RoomID (sv_subs t ! i)"
  let ?t = "set_sub i ((sv_subs t ! i)\<lparr>sb_inbox := []\<rparr>) t"
  have "subscribe_message ?k i t = Some (broadcastToLocalClients ?k ?r m ?t)"
    using i by (simp add: subscribe_message_def)
  then have act: "saction api t (broadcastToLocalClients ?k ?r m ?t)"
    using room by (intro sub_messages [of i t ?k]) (simp_all add: enumerates_def)
  have "sv_conn (broadcastToLocalClients ?k ?r m ?t) = sv_conn t"
    by (simp add: broadcastToLocalClients_def set_sub_def split: option.splits)
  note r1 = keep_action [where f = sv_conn, OF keeping_refl [OF inv] act this, THEN conjunct1]
  have "sinv ?t" using inv by (rule sinv_set_sub) simp_all
  moreover have "fanout_of (sv_jobs ?t) = idle" "sv_Rooms ?t ?r = Some {p}"
    "length (ch_buf (cl_Send (sv_clients ?t p))) < SendChanSize"
    using idle room free by (simp_all add: set_sub_def)
  ultimately obtain jp where "fanout_of jp = idle"
    and "(keeping sv_conn api)\<^sup>*\<^sup>* (broadcastToLocalClients ?k ?r m ?t) (add_message p m (?t\<lparr>sv_jobs := jp\<rparr>))"
    using deliver_one [where s = ?t and r = ?r and p = p and k = ?k and m = m and api = api] by auto
  with r1 show ?thesis by (meson rtranclp_trans)
qed

lemma run_sub_delivers:
  assumes run: "(sstep api)\<^sup>*\<^sup>* s t" and inv: "sinv t" and idle: "fanout_of (sv_jobs t) = idle"
    and i: "i < length (sv_subs t)" "\<not> sb_returned (sv_subs t ! i)" "sb_inbox (sv_subs t ! i) = [m]"
    and room: "sv_Rooms t (sb_RoomID (sv_subs t ! i)) = Some {p}"
    and free: "length (ch_buf (cl_Send (sv_clients t p))) < SendChanSize"
  shows "\<exists>jp. fanout_of jp = idle \<and>
    (let u = add_message p m ((set_sub i ((sv_subs t ! i)\<lparr>sb_inbox := []\<rparr>) t)\<lparr>sv_jobs := jp\<rparr>)
     in (sstep api)\<^sup>*\<^sup>* s u \<and> sinv u)"
  unfolding Let_def
  using sub_delivers [OF assms(2-8), of api] keeping_run keeping_sinv [OF _ inv] rtranclp_trans [OF run]
  by meson

text \<open>The client that joined last gets the one publication twice.\<close>

lemma run_duplicate:
  assumes "r \<noteq> []"
  shows "\<exists>s. (sstep api)\<^sup>*\<^sup>* (NewManager h n rdb) s \<and> sv_published s = [(KeyRoomPubSub r, m)] \<and>
    ch_buf (cl_Send (sv_clients s (ClientPtr 1))) = [m, m]"
proof -
  let ?s0 = "NewManager h n rdb"
  let ?sb = "\<lambda>c box. \<lparr>sb_RoomID = r, sb_cancelled = c, sb_inbox = box, sb_returned = False\<rparr>"
  let ?p = "ClientPtr 1"
  let ?s1 = "two_subs r m ?s0"
  let ?s2 = "?s1\<lparr>sv_inflight := [], sv_subs := [?sb True [m], ?sb False [m]]\<rparr>"
  have "fan_out ?s1 = Some ?s2"
    by (simp add: fan_out_def two_subs_facts deliver_sub_def)
  note out = fans_out [OF this, where api = api]
  have r: "(sstep api)\<^sup>*\<^sup>* ?s0 ?s1 \<and> sinv ?s1" by (rule run_two_subs [OF assms])
  have s2: "(sstep api)\<^sup>*\<^sup>* ?s0 ?s2" "sinv ?s2"
    using run_action [OF r [THEN conjunct1] r [THEN conjunct2] out] by simp_all
  have f2: "fanout_of (sv_jobs ?s2) = idle" "0 < length (sv_subs ?s2)" "sv_subs ?s2 ! 0 = ?sb True [m]"
    "sv_Rooms ?s2 r = Some {?p}" "length (ch_buf (cl_Send (sv_clients ?s2 ?p))) < SendChanSize"
    "sv_subs ?s2 = [?sb True [m], ?sb False [m]]" "sv_published ?s2 = [(KeyRoomPubSub r, m)]"
    "ch_buf (cl_Send (sv_clients ?s2 ?p)) = []"
    by (simp_all add: two_subs_facts NewClient_def SendChanSize_def del: One_nat_def)
  obtain jp where jp: "fanout_of jp = idle" and s3: "(sstep api)\<^sup>*\<^sup>* ?s0
      (add_message ?p m ((set_sub 0 (?sb True []) ?s2)\<lparr>sv_jobs := jp\<rparr>))"
    "sinv (add_message ?p m ((set_sub 0 (?sb True []) ?s2)\<lparr>sv_jobs := jp\<rparr>))"
    using run_sub_delivers [OF s2 f2(1,2), where m = m and p = ?p, unfolded f2(3) Let_def] f2(4,5)
    by auto
  let ?s3 = "add_message ?p m ((set_sub 0 (?sb True []) ?s2)\<lparr>sv_jobs := jp\<rparr>)"
  have f3: "sv_subs ?s3 = [?sb True [], ?sb False [m]]" "sv_Rooms ?s3 r = Some {?p}"
    "sv_published ?s3 = [(KeyRoomPubSub r, m)]" "ch_buf (cl_Send (sv_clients ?s3 ?p)) = [m]"
    "fanout_of (sv_jobs ?s3) = idle" "1 < length (sv_subs ?s3)" "sv_subs ?s3 ! 1 = ?sb False [m]"
    "length (ch_buf (cl_Send (sv_clients ?s3 ?p))) < SendChanSize"
    using f2 jp by (simp_all add: set_sub_def SendChanSize_def)
  obtain jp' where "(sstep api)\<^sup>*\<^sup>* ?s0
      (add_message ?p m ((set_sub 1 (?sb False []) ?s3)\<lparr>sv_jobs := jp'\<rparr>))"
    using run_sub_delivers [OF s3 f3(5,6), where m = m and p = ?p, unfolded f3(7) Let_def] f3(2,8)
    by auto
  then show ?thesis
    using f3 by (intro exI [of _ "add_message ?p m ((set_sub 1 (?sb False []) ?s3)\<lparr>sv_jobs := jp'\<rparr>)"])
      (simp add: set_sub_def)
qed

section \<open>A like that is forgotten\<close>

definition quoted :: "string \<Rightarrow> string" where
  "quoted k = CHR 0x22 # k @ [CHR 0x22]"

definition like_data :: string where
  "like_data = ''{'' @ quoted ''count'' @ '':5}''"

definition like_text :: string where
  "like_text = ''{'' @ quoted ''type'' @ '':103,'' @ quoted ''data'' @ '':'' @ like_data @ ''}''"

lemma like_parsed:
  "unmarshal_WsPacket like_text =
     (\<lparr>wp_Type = ActionLike, wp_RoomID = [], wp_Data = Some like_data\<rparr>, None)"
  "unmarshal_Like like_data = (\<lparr>lk_Count = 5\<rparr>, None)"
  by code_simp+

lemma like_read:
  "sv_conn s p = ConnRead \<Longrightarrow>
   conn_read now like_text p s =
     (let room = cl_RoomID (sv_clients s p)
      in s\<lparr>sv_localLikes := (sv_localLikes s)(room := Some (likes_of (sv_localLikes s) room + 5))\<rparr>)"
  by (simp add: conn_read_def ReadPump_message_def like_parsed(1) Dispatch_def RegisterActionHandlers_def
      RegisterAction_def like_handler_def raw_bytes_def like_parsed(2) Let_def TypeDanmaku_def
      ActionLike_def)

definition liked :: "string \<Rightarrow> 'r server \<Rightarrow> 'r server" where
  "liked r s = (joined (ClientPtr 0) (NewClient 7 [] r) s)\<lparr>sv_localLikes := (\<lambda>_. None)(r := Some 5)\<rparr>"

lemma run_liked:
  assumes "r \<noteq> []"
  shows "(sstep api)\<^sup>*\<^sup>* (NewManager h n rdb) (liked r (NewManager h n rdb)) \<and>
    sinv (liked r (NewManager h n rdb))"
proof -
  let ?s0 = "NewManager h n rdb"
  let ?s1 = "joined (ClientPtr 0) (NewClient 7 [] r) ?s0"
  have s1: "(sstep api)\<^sup>*\<^sup>* ?s0 ?s1 \<and> sinv ?s1"
    using assms by (intro run_joined sinv_init rtranclp.rtrancl_refl) (simp_all add: NewManager_def)
  have pc: "sv_conn ?s1 (ClientPtr 0) = ConnRead" by (simp add: run_defs)
  from like_read [OF pc, of zero_time] have "conn_read zero_time like_text (ClientPtr 0) ?s1 = liked r ?s0"
    by (simp add: liked_def Let_def run_defs likes_of_def)
  then have "saction api ?s1 (liked r ?s0)"
    using conn_reads [OF pc valid_zero_time, where api = api and msg = like_text] by simp
  then show ?thesis using run_action s1 by blast
qed

text \<open>
  What is left as it is while nothing is reported: Redis, and the increments of its like counts that
  have been asked for.
\<close>

definition reports :: "'r server \<Rightarrow> 'r \<times> (string \<times> u64) list" where
  "reports s = (sv_RedisClient s, sv_incr s)"

definition reports_rooms :: "'r server \<Rightarrow> ('r \<times> (string \<times> u64) list) \<times> (string \<Rightarrow> client_ptr set option)" where
  "reports_rooms s = (reports s, sv_Rooms s)"

definition forgotten :: "string \<Rightarrow> 'r server \<Rightarrow> 'r server" where
  "forgotten r s = (left (ClientPtr 0) (liked r s))\<lparr>sv_localLikes := (\<lambda>_. None), sv_stats := [StEnded]\<rparr>"

lemma run_forgotten:
  assumes "sinv (left (ClientPtr 0) (liked r (NewManager h n rdb)))"
  shows "(keeping reports_rooms api)\<^sup>*\<^sup>* (left (ClientPtr 0) (liked r (NewManager h n rdb))) (forgotten r (NewManager h n rdb))"
proof -
  let ?s1 = "left (ClientPtr 0) (liked r (NewManager h n rdb))"
  let ?L = "(\<lambda>_. None)(r := Some 5)"
  have f1: "sv_stats ?s1 = []" "sv_localLikes ?s1 = ?L" "sv_Rooms ?s1 = (\<lambda>_. None)"
    by (simp_all add: liked_def run_defs)
  let ?R = "(keeping reports_rooms api)\<^sup>*\<^sup>* ?s1"
  let ?s2 = "?s1\<lparr>sv_stats := [StStart]\<rparr>"
  let ?s3 = "?s1\<lparr>sv_localLikes := (\<lambda>_. None), sv_stats := [StSwapped ?L]\<rparr>"
  let ?s4 = "?s1\<lparr>sv_localLikes := (\<lambda>_. None), sv_stats := [StLoop ?L []]\<rparr>"
  have start: "?R ?s1 \<and> sinv ?s1" using assms by simp
  have "saction api ?s1 ?s2" using ticks [of api ?s1] f1 by simp
  then have s2: "?R ?s2 \<and> sinv ?s2" by (rule keep_action [OF start]) (simp add: reports_rooms_def reports_def)
  have "saction api ?s2 ?s3"
    by (rule stats_swaps [of 0]) (simp add: broadcastStats_swap_def set_stats_def f1)
  then have s3: "?R ?s3 \<and> sinv ?s3" by (rule keep_action [OF s2]) (simp add: reports_rooms_def reports_def)
  have "saction api ?s3 ?s4"
    by (rule stats_snapshots [of "[]" _ 0])
      (simp_all add: broadcastStats_snapshot_def set_stats_def room_counts_def f1 dom_def)
  then have s4: "?R ?s4 \<and> sinv ?s4" by (rule keep_action [OF s3]) (simp add: reports_rooms_def reports_def)
  have "saction api ?s4 (forgotten r (NewManager h n rdb))"
    by (rule stats_reports [of _ 0]) (simp add: broadcastStats_report_def set_stats_def forgotten_def)
  then have "?R (forgotten r (NewManager h n rdb)) \<and> sinv (forgotten r (NewManager h n rdb))"
    by (rule keep_action [OF s4]) (simp add: forgotten_def reports_rooms_def reports_def)
  then show ?thesis by simp
qed

lemma run_like_left:
  assumes "sinv (liked r (NewManager h n rdb))"
  shows "(keeping reports api)\<^sup>*\<^sup>* (liked r (NewManager h n rdb)) (left (ClientPtr 0) (liked r (NewManager h n rdb))) \<and>
    sinv (left (ClientPtr 0) (liked r (NewManager h n rdb)))"
proof -
  let ?s0 = "liked r (NewManager h n rdb)"
  let ?s1 = "set_conn (ClientPtr 0) ConnUnregister ?s0"
  have "sv_conn ?s0 (ClientPtr 0) = ConnRead" by (simp add: liked_def run_defs)
  then have act: "saction api ?s0 ?s1" by (rule conn_fails)
  have start: "(keeping reports api)\<^sup>*\<^sup>* ?s0 ?s0 \<and> sinv ?s0" using assms by simp
  have s1: "(keeping reports api)\<^sup>*\<^sup>* ?s0 ?s1 \<and> sinv ?s1"
    by (rule keep_action [OF start act]) (simp add: set_conn_def reports_def)
  have "saction api ?s1 (left (ClientPtr 0) ?s0)"
    unfolding left_def by (rule conn_unregisters) (simp add: set_conn_def)
  then show ?thesis by (rule keep_action [OF s1]) (simp add: liked_def run_defs reports_def)
qed

section \<open>A danmaku through the server\<close>

text \<open>The danmaku a connection's packet holds, as the consumer parses it.\<close>

definition danmaku_of :: "client \<Rightarrow> string \<Rightarrow> gotime \<Rightarrow> DanmakuMessage" where
  "danmaku_of c content now =
     \<lparr>dm_ID = 0, dm_RoomID = clean (cl_RoomID c), dm_UserID = cl_UserID c, dm_Content = content, dm_SendTime = now\<rparr>"

lemma danmaku_packet_text:
  assumes "valid_utf8 content" and "valid_time now"
  shows "\<exists>v t. unmarshal_DanmakuMessage v = (danmaku_of c content now, None) \<and> payload v \<and>
    danmaku_packet c content now = \<lparr>wp_Type = TypeDanmaku, wp_RoomID = cl_RoomID c, wp_Data = Some v\<rparr> \<and>
    marshal_WsPacket (danmaku_packet c content now) = Some t"
proof -
  let ?m = "zero_danmaku\<lparr>dm_RoomID := cl_RoomID c, dm_UserID := cl_UserID c, dm_Content := content, dm_SendTime := now\<rparr>"
  have time: "valid_time (dm_SendTime ?m)" using assms(2) by simp
  have "clean_danmaku ?m = danmaku_of c content now"
    using assms(1) by (simp add: zero_danmaku_def danmaku_of_def clean_danmaku_def)
  then show ?thesis
    using marshal_danmaku_text [OF time] unmarshal_danmaku_text [OF time] danmaku_payload marshal_packet_text
    by (intro exI [of _ "object_text (danmaku_members ?m)"] exI) (simp add: danmaku_packet_def)
qed

text \<open>What the server makes of a danmaku it reads, and what taking it off the queue does.\<close>

lemma read_danmaku:
  assumes "sv_conn s p = ConnRead" and "unmarshal_WsPacket msg = (packet, None)"
    and "wp_Type packet = TypeDanmaku"
    and "unmarshal_DanmakuMessage (raw_bytes (wp_Data packet)) = (m, None)"
  shows "conn_read now msg p s = set_conn p (ConnSend (danmaku_packet (sv_clients s p) (dm_Content m) now)) s"
  using assms
  by (simp add: conn_read_def ReadPump_message_def Dispatch_def RegisterActionHandlers_def RegisterAction_def
      danmaku_handler_def danmaku_packet_def TypeDanmaku_def ActionLike_def)

lemma broadcast_danmaku:
  assumes "wp_Type packet = TypeDanmaku" and "marshal_WsPacket packet = Some v"
  shows "sv_Kafka (handleBroadcast api k packet t) = sv_Kafka t @ [(DanmakuSaveTopic, v)] \<and>
    sv_inflight (handleBroadcast api k packet t) = sv_inflight t @
      (if snd (rd_publish api (sv_RedisClient t) (KeyRoomPubSub (wp_RoomID packet)) v) = None
       then [(KeyRoomPubSub (wp_RoomID packet), v)] else [])"
  using assms by (simp add: handleBroadcast_def processDanmaku_def PushToInput_def redis_accepts_def Let_def)

section \<open>A danmaku that arrives\<close>

definition empty_rstore :: rstore where
  "empty_rstore = \<lparr>rs_strs = (\<lambda>_. None), rs_sets = (\<lambda>_. []), rs_published = [], rs_down = False\<rparr>"

definition danmaku_data :: string where
  "danmaku_data = ''{'' @ quoted ''content'' @ '':'' @ quoted ''hi'' @ '','' @ quoted ''user_id'' @ '':1}''"

definition danmaku_text :: string where
  "danmaku_text = ''{'' @ quoted ''type'' @ '':101,'' @ quoted ''room_id'' @ '':'' @ quoted ''other'' @ '','' @
     quoted ''data'' @ '':'' @ danmaku_data @ ''}''"

lemma danmaku_parsed:
  "unmarshal_WsPacket danmaku_text =
     (\<lparr>wp_Type = TypeDanmaku, wp_RoomID = ''other'', wp_Data = Some danmaku_data\<rparr>, None)"
  "unmarshal_DanmakuMessage danmaku_data =
     (zero_danmaku\<lparr>dm_UserID := 1, dm_Content := ''hi''\<rparr>, None)"
  by code_simp+

lemma danmaku_read:
  "sv_conn s p = ConnRead \<Longrightarrow>
   conn_read now danmaku_text p s =
     set_conn p (ConnSend (danmaku_packet (sv_clients s p) ''hi'' now)) s"
  using read_danmaku [of s p danmaku_text _ _ now] danmaku_parsed by (simp add: raw_bytes_def)

definition demo_client :: client where
  "demo_client = NewClient 7 [] ''r''"

definition demo_wire :: string where
  "demo_wire = the (marshal_WsPacket (danmaku_packet demo_client ''hi'' zero_time))"

lemma demo_marshals: "marshal_WsPacket (danmaku_packet demo_client ''hi'' zero_time) = Some demo_wire"
proof -
  have "valid_time (dm_SendTime (zero_danmaku\<lparr>dm_RoomID := ''r'', dm_UserID := 7, dm_Content := ''hi'', dm_SendTime := zero_time\<rparr>))"
    by simp
  from marshal_danmaku_text [OF this] show ?thesis
    using danmaku_payload marshal_packet_text
    by (simp add: demo_wire_def danmaku_packet_def demo_client_def NewClient_def)
qed

lemma danmaku_broadcast:
  assumes "wp_Type packet = TypeDanmaku" and "marshal_WsPacket packet = Some v"
    and "rd_publish api (sv_RedisClient s) (KeyRoomPubSub (wp_RoomID packet)) v = (rdb, None)"
  shows "handleBroadcast api k packet s =
    s\<lparr>sv_RedisClient := rdb, sv_Kafka := sv_Kafka s @ [(DanmakuSaveTopic, v)],
      sv_inflight := sv_inflight s @ [(KeyRoomPubSub (wp_RoomID packet), v)],
      sv_published := sv_published s @ [(KeyRoomPubSub (wp_RoomID packet), v)]\<rparr>"
  using assms by (simp add: handleBroadcast_def processDanmaku_def PushToInput_def redis_accepts_def
      PublishToRoom_def Let_def)

text \<open>Read, sent to the manager, pushed to Kafka and published.\<close>

definition sent_off :: "rstore server" where
  "sent_off =
     (joined (ClientPtr 0) demo_client (NewManager ''h'' 1 empty_rstore))
       \<lparr>sv_Broadcast := make_chan BroadcastChanSize,
        sv_RedisClient := empty_rstore\<lparr>rs_published := [(KeyRoomPubSub ''r'', demo_wire)]\<rparr>,
        sv_Kafka := [(DanmakuSaveTopic, demo_wire)],
        sv_inflight := [(KeyRoomPubSub ''r'', demo_wire)],
        sv_published := [(KeyRoomPubSub ''r'', demo_wire)]\<rparr>"

lemma run_sent_off:
  "(sstep mem_api)\<^sup>*\<^sup>* (NewManager ''h'' 1 empty_rstore) sent_off \<and> sinv sent_off"
proof -
  let ?s0 = "NewManager ''h'' 1 empty_rstore"
  let ?p = "ClientPtr 0"
  let ?pk = "danmaku_packet demo_client ''hi'' zero_time"
  let ?s1 = "joined ?p demo_client ?s0"
  let ?s2 = "set_conn ?p (ConnSend ?pk) ?s1"
  let ?s3 = "?s1\<lparr>sv_Broadcast := (make_chan BroadcastChanSize)\<lparr>ch_buf := [?pk]\<rparr>\<rparr>"
  have s1: "(sstep mem_api)\<^sup>*\<^sup>* ?s0 ?s1 \<and> sinv ?s1"
    unfolding demo_client_def
    by (intro run_joined sinv_init rtranclp.rtrancl_refl) (simp_all add: NewManager_def)
  have f1: "sv_conn ?s1 ?p = ConnRead" "sv_clients ?s1 ?p = demo_client"
    "sv_Broadcast ?s1 = make_chan BroadcastChanSize" "sv_conn ?s1 = (\<lambda>_. ConnNone)(?p := ConnRead)"
    "sv_Rooms ?s1 = (\<lambda>_. None)(''r'' := Some {?p})" "sv_RedisClient ?s1 = empty_rstore"
    "sv_Kafka ?s1 = []" "sv_inflight ?s1 = []" "sv_published ?s1 = []"
    by (simp_all add: run_defs demo_client_def)
  have "saction mem_api ?s1 ?s2"
    using conn_reads [OF f1(1) valid_zero_time, where api = mem_api and msg = danmaku_text]
      danmaku_read [OF f1(1), of zero_time] f1(2) by simp
  then have s2: "(sstep mem_api)\<^sup>*\<^sup>* ?s0 ?s2 \<and> sinv ?s2" using s1 run_action by blast
  have "conn_send ?p ?s2 = Some ?s3"
    using f1(3,4) by (simp add: conn_send_def set_conn_def send_chan_def BroadcastChanSize_def)
  then have "saction mem_api ?s2 ?s3" by (rule conn_sends)
  then have s3: "(sstep mem_api)\<^sup>*\<^sup>* ?s0 ?s3 \<and> sinv ?s3" using s2 run_action by blast
  let ?k = "\<lparr>pk_pool = None, pk_grow = 0, pk_order = [?p]\<rparr>"
  have "recv_chan (sv_Broadcast ?s3) = Received ?pk (make_chan BroadcastChanSize)"
    by (simp add: recv_chan_def make_chan_def)
  moreover have "enumerates ?k (wp_RoomID ?pk) ?s3"
    using f1(5) by (simp add: enumerates_def demo_client_def danmaku_packet_def NewClient_def)
  ultimately have act: "saction mem_api ?s3
      (handleBroadcast mem_api ?k ?pk (?s3\<lparr>sv_Broadcast := make_chan BroadcastChanSize\<rparr>))"
    by (rule broadcasts)
  have ty: "wp_Type ?pk = TypeDanmaku" "wp_RoomID ?pk = ''r''"
    by (simp_all add: danmaku_packet_def demo_client_def NewClient_def)
  have "rd_publish mem_api empty_rstore (KeyRoomPubSub ''r'') demo_wire =
      (empty_rstore\<lparr>rs_published := [(KeyRoomPubSub ''r'', demo_wire)]\<rparr>, None)"
    by (simp add: mem_api_def empty_rstore_def)
  with ty have eff: "handleBroadcast mem_api ?k ?pk (?s3\<lparr>sv_Broadcast := make_chan BroadcastChanSize\<rparr>) = sent_off"
    using f1(6-9) by (subst danmaku_broadcast [OF _ demo_marshals]) (simp_all add: sent_off_def)
  show ?thesis using run_action [OF s3 [THEN conjunct1] s3 [THEN conjunct2] act] unfolding eff .
qed

text \<open>Redis hands it to the room's subscription, and a worker to the client.\<close>

lemma run_arrived:
  "\<exists>s. (sstep mem_api)\<^sup>*\<^sup>* (NewManager ''h'' 1 empty_rstore) s \<and>
     sv_Kafka s = [(DanmakuSaveTopic, demo_wire)] \<and> sv_clients s (ClientPtr 0) = demo_client
       \<lparr>cl_Send := (make_chan SendChanSize)\<lparr>ch_buf := [demo_wire]\<rparr>\<rparr>"
proof -
  let ?s0 = "NewManager ''h'' 1 empty_rstore"
  let ?p = "ClientPtr 0"
  let ?sb = "\<lambda>box. \<lparr>sb_RoomID = ''r'', sb_cancelled = False, sb_inbox = box, sb_returned = False\<rparr>"
  have f0: "sv_subs sent_off = [?sb []]" "sv_inflight sent_off = [(KeyRoomPubSub ''r'', demo_wire)]"
    "sv_Rooms sent_off ''r'' = Some {?p}" "sv_jobs sent_off = new_pool"
    "sv_clients sent_off ?p = demo_client" "sv_Kafka sent_off = [(DanmakuSaveTopic, demo_wire)]"
    by (simp_all add: sent_off_def run_defs demo_client_def)
  let ?s1 = "sent_off\<lparr>sv_inflight := [], sv_subs := [?sb [demo_wire]]\<rparr>"
  have "fan_out sent_off = Some ?s1" by (simp add: fan_out_def f0 deliver_sub_def)
  note out = fans_out [OF this, where api = mem_api]
  have s1: "(sstep mem_api)\<^sup>*\<^sup>* ?s0 ?s1" "sinv ?s1"
    using run_action [OF run_sent_off [THEN conjunct1] run_sent_off [THEN conjunct2] out] by simp_all
  have f1: "fanout_of (sv_jobs ?s1) = idle" "0 < length (sv_subs ?s1)" "sv_subs ?s1 ! 0 = ?sb [demo_wire]"
    "sv_Rooms ?s1 ''r'' = Some {?p}" "length (ch_buf (cl_Send (sv_clients ?s1 ?p))) < SendChanSize"
    "sv_clients ?s1 ?p = demo_client" "sv_Kafka ?s1 = [(DanmakuSaveTopic, demo_wire)]"
    using f0 by (simp_all add: demo_client_def NewClient_def SendChanSize_def)
  obtain jp where "(sstep mem_api)\<^sup>*\<^sup>* ?s0
      (add_message ?p demo_wire ((set_sub 0 (?sb []) ?s1)\<lparr>sv_jobs := jp\<rparr>))"
    using run_sub_delivers [OF s1 f1(1,2), where m = demo_wire and p = ?p, unfolded f1(3) Let_def] f1(4,5)
    by auto
  then show ?thesis
    using f1(6,7) by (intro exI [of _ "add_message ?p demo_wire ((set_sub 0 (?sb []) ?s1)\<lparr>sv_jobs := jp\<rparr>)"])
      (simp add: add_message_def set_client_def set_sub_def demo_client_def NewClient_def make_chan_def)
qed

end
