(* ===== verification/ManagerOrder.thy ===== *)
theory ManagerOrder
  imports ManagerRuns "HOL-Library.Sublist"
begin

text \<open>
  In which order a client gets what is sent to it: its channel and its writer keep the order in which
  the workers put messages on the channel, but two workers can put two messages of one room on it in
  either order.
\<close>

section \<open>What is on the way to one client\<close>

text \<open>What was written to the socket, and after it what still waits in the channel.\<close>

definition outbox :: "client \<Rightarrow> string list" where
  "outbox c = cl_written c @ ch_buf (cl_Send c)"

text \<open>The writer runs, or the connection has still to be registered, which starts it.\<close>

definition writable :: "'r server \<Rightarrow> client_ptr \<Rightarrow> bool" where
  "writable s p \<longleftrightarrow> sv_writer s p \<or> sv_conn s p = ConnRegister"

text \<open>No writer runs for a connection that is not registered yet.\<close>

definition writer_ok :: "'r server \<Rightarrow> client_ptr \<Rightarrow> bool" where
  "writer_ok s p \<longleftrightarrow> (sv_writer s p \<longrightarrow> sv_conn s p \<noteq> ConnNone \<and> sv_conn s p \<noteq> ConnRegister)"

definition in_order :: "client_ptr \<Rightarrow> 'r server \<Rightarrow> 'r server \<Rightarrow> bool" where
  "in_order p s t \<longleftrightarrow>
     (writer_ok s p \<longrightarrow> writer_ok t p) \<and>
     (sv_conn s p \<noteq> ConnNone \<longrightarrow>
        sv_conn t p \<noteq> ConnNone \<and> same_user (sv_clients s p) (sv_clients t p) \<and> prefix (cl_written (sv_clients s p)) (cl_written (sv_clients t p)) \<and>
        (writable t p \<longrightarrow> writable s p \<and> prefix (outbox (sv_clients s p)) (outbox (sv_clients t p))))"

lemma in_order_refl: "in_order p s s"
  by (simp add: in_order_def same_userI)

lemma same_user_trans: "same_user c d \<Longrightarrow> same_user d e \<Longrightarrow> same_user c e"
  by (simp add: same_user_def)

lemma in_order_trans: "in_order p s t \<Longrightarrow> in_order p t u \<Longrightarrow> in_order p s u"
  unfolding in_order_def by (meson prefix_order.trans same_user_trans)

text \<open>A step that leaves the client alone, or only moves its connection on.\<close>

lemma in_order_frame:
  assumes "same_user (sv_clients s p) (sv_clients t p)"
    and "cl_written (sv_clients t p) = cl_written (sv_clients s p)"
    and "cl_Send (sv_clients t p) = cl_Send (sv_clients s p)" and "sv_writer t p = sv_writer s p"
    and "sv_conn t p = sv_conn s p \<or> sv_conn t p \<noteq> ConnNone \<and> sv_conn t p \<noteq> ConnRegister"
  shows "in_order p s t"
  using assms by (auto simp: in_order_def outbox_def writable_def writer_ok_def)

lemma in_order_client:
  assumes "same_user (sv_clients s q) c" and "prefix (cl_written (sv_clients s q)) (cl_written c)"
    and "b \<Longrightarrow> sv_writer s q \<and> prefix (outbox (sv_clients s q)) (outbox c)"
    and "\<not> b \<Longrightarrow> sv_conn s q \<noteq> ConnRegister"
  shows "in_order p s (set_writer q b (set_client q c s))"
  using assms by (auto simp: in_order_def outbox_def writable_def writer_ok_def set_writer_def set_client_def)

lemma in_order_set_conn:
  "in_order p s t \<Longrightarrow> x \<noteq> ConnNone \<Longrightarrow> x \<noteq> ConnRegister \<Longrightarrow> in_order p s (set_conn q x t)"
  by (auto simp: in_order_def writable_def writer_ok_def set_conn_def)

section \<open>Every step keeps the order\<close>

text \<open>What the operations leave alone.\<close>

definition same_clients :: "'r server \<Rightarrow> 'r server \<Rightarrow> bool" where
  "same_clients s t \<longleftrightarrow> sv_clients t = sv_clients s \<and> sv_writer t = sv_writer s \<and> sv_conn t = sv_conn s"

named_theorems same_clients_intros "operations that leave the clients alone"

lemma same_clients_order: "same_clients s t \<Longrightarrow> in_order p s t"
  by (rule in_order_frame) (simp_all add: same_clients_def same_userI)

lemma same_clients_broadcast [same_clients_intros]:
  "same_clients s t \<Longrightarrow> same_clients s (broadcastToLocalClients k r m t)"
  by (simp add: same_clients_def broadcastToLocalClients_def split: option.splits)

lemma same_clients_handleBroadcast [same_clients_intros]:
  "same_clients s t \<Longrightarrow> same_clients s (handleBroadcast api k packet t)"
  by (auto simp: handleBroadcast_def processDanmaku_def PushToInput_def redis_accepts_def Let_def
      same_clients_def broadcastToLocalClients_def split: option.splits)

lemma same_clients_set [same_clients_intros]:
  "same_clients s t \<Longrightarrow> same_clients s (set_stats i pc t)"
  "same_clients s t \<Longrightarrow> same_clients s (set_sub i sb t)"
  by (simp_all add: same_clients_def set_stats_def set_sub_def)

lemma same_clients_handleRegister: "same_clients s (handleRegister p s)"
  by (simp add: same_clients_def handleRegister_def Let_def split: option.splits)

lemma same_clients_stats:
  "broadcastStats_swap i s = Some t \<Longrightarrow> same_clients s t"
  "broadcastStats_snapshot rooms i s = Some t \<Longrightarrow> same_clients s t"
  "broadcastStats_report api i s = Some t \<Longrightarrow> same_clients s t"
  "broadcastStats_total api i s = Some t \<Longrightarrow> same_clients s t"
  "broadcastStats_publish api k i s = Some t \<Longrightarrow> same_clients s t"
  by (auto simp: broadcastStats_swap_def broadcastStats_snapshot_def broadcastStats_report_def
      broadcastStats_total_def broadcastStats_publish_def Let_def
      intro!: same_clients_intros
      split: if_splits stats_pc.splits list.splits option.splits prod.splits)
    (simp_all add: same_clients_def)

lemma same_clients_subs:
  "fan_out s = Some t \<Longrightarrow> same_clients s t"
  "subscribe_message k i s = Some t \<Longrightarrow> same_clients s t"
  "subscribe_done i s = Some t \<Longrightarrow> same_clients s t"
  "subscribe_closed i s = Some t \<Longrightarrow> same_clients s t"
  "worker_begin w s = Some t \<Longrightarrow> same_clients s t"
  "worker_end w s = Some t \<Longrightarrow> same_clients s t"
  by (auto simp: fan_out_def subscribe_message_def subscribe_done_def subscribe_closed_def
      worker_begin_def worker_end_def intro!: same_clients_intros split: if_splits list.splits)
    (simp_all add: same_clients_def)

lemma order_conn_opens:
  "sv_conn s q = ConnNone \<Longrightarrow> in_order p s (set_conn q ConnRegister (set_client q c s))"
  by (auto simp: in_order_def writable_def writer_ok_def outbox_def set_conn_def set_client_def)

lemma order_conn_register:
  assumes "sv_conn s q = ConnRegister"
  shows "in_order p s (conn_register q s)"
proof -
  have "sv_clients (handleRegister q s) = sv_clients s" "sv_writer (handleRegister q s) = sv_writer s"
    "sv_conn (handleRegister q s) = sv_conn s"
    using same_clients_handleRegister [of s q] by (simp_all add: same_clients_def)
  then show ?thesis
    using assms by (auto simp: conn_register_def in_order_def writable_def writer_ok_def set_writer_def set_conn_def)
qed

lemma order_conn_read: "in_order p s (conn_read now msg q s)"
proof -
  obtain t out where r: "ReadPump_message RegisterActionHandlers now (sv_clients s q) s msg = (t, out)"
    by fastforce
  then obtain l where "t = s\<lparr>sv_localLikes := l\<rparr>" using handler_effect by blast
  then have "in_order p s t" by (intro same_clients_order) (simp add: same_clients_def)
  then show ?thesis
    using r by (auto simp: conn_read_def intro!: in_order_set_conn split: option.splits)
qed

lemma order_conn_send: "conn_send q s = Some t \<Longrightarrow> in_order p s t"
  by (auto simp: conn_send_def in_order_def writable_def writer_ok_def outbox_def set_conn_def
      split: conn_pc.splits send_result.splits if_splits)

lemma order_conn_unregister: "in_order p s (conn_unregister q s)"
  unfolding conn_unregister_def handleUnregister_def Let_def
  by (intro in_order_set_conn in_order_frame)
    (auto simp: set_client_def close_socket_def Close_def cancel_sub_def same_user_def split: option.splits if_splits)

lemma order_worker_send:
  assumes "sinv s" and "worker_send w s = Some t"
  shows "in_order p s t"
proof -
  obtain q m jp c where c: "safeSend (sv_clients s q) m = Some c" and t: "t = set_client q c (s\<lparr>sv_jobs := jp\<rparr>)"
    using worker_send_effect [OF assms] .
  have "client_ok (sv_clients s q)" using assms(1) by (simp add: sinv_def inv_clients_def)
  then obtain c' where "safeSend (sv_clients s q) m = Some c'" "cl_written c' = cl_written (sv_clients s q)"
    "same_user (sv_clients s q) c'" "ch_buf (cl_Send c') = ch_buf (cl_Send (sv_clients s q)) @ [m] \<or> c' = sv_clients s q \<and>
      length (ch_buf (cl_Send (sv_clients s q))) = SendChanSize"
    by (rule safeSend_ok)
  then have "cl_written c = cl_written (sv_clients s q)" "prefix (outbox (sv_clients s q)) (outbox c)"
    "same_user (sv_clients s q) c"
    using c by (auto simp: outbox_def)
  then show ?thesis by (auto simp: t in_order_def writable_def writer_ok_def set_client_def)
qed

lemma order_writer:
  assumes "sv_writer s q" and "writer_ok s q"
    and "WritePump_message ok (sv_clients s q) = Some (c, on) \<or> WritePump_done (sv_clients s q) = Some (c, on)"
  shows "in_order p s (set_writer q on (set_client q c s))"
  using assms
  by (auto simp: WritePump_message_def WritePump_done_def close_socket_def outbox_def chan_simps writer_ok_def same_user_def
      intro!: in_order_client split: recv_result.splits if_splits)

lemma saction_order:
  assumes "saction api s t" and "sinv s" and "\<forall>q. writer_ok s q"
  shows "in_order p s t"
  using assms
proof (cases rule: saction.cases)
  case (conn_fails q)
  then show ?thesis by (simp add: in_order_set_conn in_order_refl)
next
  case (writer_messages q write_ok c on)
  then show ?thesis using order_writer assms(3) by blast
next
  case (writer_stops q c on)
  then show ?thesis using order_writer assms(3) by blast
next
  case (broadcasts packet ch k)
  then show ?thesis
    by (auto intro!: same_clients_order same_clients_intros) (simp add: same_clients_def)
qed (simp_all add: order_conn_opens order_conn_register order_conn_read order_conn_send order_conn_unregister
    same_clients_order [OF same_clients_stats(1)] same_clients_order [OF same_clients_stats(2)]
    same_clients_order [OF same_clients_stats(3)] same_clients_order [OF same_clients_stats(4)]
    same_clients_order [OF same_clients_stats(5)] same_clients_order [OF same_clients_subs(1)]
    same_clients_order [OF same_clients_subs(2)] same_clients_order [OF same_clients_subs(3)]
    same_clients_order [OF same_clients_subs(4)] same_clients_order [OF same_clients_subs(5)]
    same_clients_order [OF same_clients_subs(6)] order_worker_send [OF assms(2)]
    same_clients_order same_clients_def redis_accepts_def set_sub_def)

lemma writer_ok_step:
  assumes "saction api s t" and "sinv s" and "\<forall>q. writer_ok s q"
  shows "\<forall>q. writer_ok t q"
  using saction_order [OF assms] assms(3) by (simp add: in_order_def)

interpretation order: stable_system "sstep api" "\<lambda>s. sinv s \<and> (\<forall>q. writer_ok s q)" for api
  by unfold_locales (auto simp: sstep_def intro: saction_sinv dest: writer_ok_step)

lemma order_init: "sinv (NewManager h n rdb) \<and> (\<forall>q. writer_ok (NewManager h n rdb) q)"
  by (simp add: sinv_init) (simp add: writer_ok_def [abs_def] NewManager_def)

lemma run_in_order:
  assumes "(sstep api)\<^sup>*\<^sup>* (NewManager h n rdb) s" and "(sstep api)\<^sup>*\<^sup>* s t"
  shows "in_order p s t"
proof -
  have "sinv s \<and> (\<forall>q. writer_ok s q)" using order.run_keeps [OF assms(1) order_init] .
  from order.run_monotone [where R = "in_order p" and f = "\<lambda>s. s", OF _ in_order_refl _ assms(2) this]
  show ?thesis by (auto simp: sstep_def intro: saction_order dest: in_order_trans)
qed

section \<open>The writer can write all of it\<close>

lemma write_one:
  assumes "ch_buf (cl_Send c) = m # ms"
  shows "WritePump_message True c =
    Some (c\<lparr>cl_Send := (cl_Send c)\<lparr>ch_buf := ms\<rparr>, cl_written := cl_written c @ [m]\<rparr>, True)"
  using assms by (simp add: WritePump_message_def recv_chan_def)

lemma writes_all:
  assumes "sinv s" and "sv_writer s p" and "ch_buf (cl_Send (sv_clients s p)) = ms"
  shows "(keeping sv_conn api)\<^sup>*\<^sup>* s (set_client p ((sv_clients s p)
    \<lparr>cl_Send := (cl_Send (sv_clients s p))\<lparr>ch_buf := []\<rparr>, cl_written := cl_written (sv_clients s p) @ ms\<rparr>) s)"
  using assms
proof (induction ms arbitrary: s)
  case Nil
  then have "(sv_clients s p)\<lparr>cl_Send := (cl_Send (sv_clients s p))\<lparr>ch_buf := []\<rparr>,
      cl_written := cl_written (sv_clients s p) @ []\<rparr> = sv_clients s p" by simp
  then show ?case unfolding set_client_def by simp
next
  case (Cons m ms)
  let ?c = "(sv_clients s p)\<lparr>cl_Send := (cl_Send (sv_clients s p))\<lparr>ch_buf := ms\<rparr>,
      cl_written := cl_written (sv_clients s p) @ [m]\<rparr>"
  have w: "set_writer p True (set_client p ?c s) = set_client p ?c s"
    using Cons.prems(2) by (simp add: set_writer_def set_client_def fun_upd_idem)
  have act: "saction api s (set_client p ?c s)"
    using writer_messages [OF Cons.prems(2) write_one [OF Cons.prems(3)], of api] unfolding w .
  note inv = saction_sinv [OF act Cons.prems(1)]
  have "\<not> sv_panicked s" using Cons.prems(1) by (simp add: sinv_def)
  then have step: "keeping sv_conn api s (set_client p ?c s)"
    using act by (simp add: keeping_def sstep_def) (simp add: set_client_def)
  have "(keeping sv_conn api)\<^sup>*\<^sup>* (set_client p ?c s) (set_client p ((sv_clients s p)
    \<lparr>cl_Send := (cl_Send (sv_clients s p))\<lparr>ch_buf := []\<rparr>, cl_written := cl_written (sv_clients s p) @ m # ms\<rparr>) s)"
    using Cons.IH [OF inv] Cons.prems(2) by (simp add: set_client_def)
  then show ?case using step by (rule converse_rtranclp_into_rtranclp [rotated])
qed

lemma run_writes:
  assumes "sinv s" and "sv_writer s p" and "ch_buf (cl_Send (sv_clients s p)) = ms"
  shows "(sstep api)\<^sup>*\<^sup>* s (set_client p ((sv_clients s p)
    \<lparr>cl_Send := (cl_Send (sv_clients s p))\<lparr>ch_buf := []\<rparr>, cl_written := cl_written (sv_clients s p) @ ms\<rparr>) s)"
  using writes_all [OF assms] by (rule keeping_run)

section \<open>Two workers\<close>

text \<open>Two jobs for one client, taken in their order by two workers of which the second is faster.\<close>

lemma two_workers:
  assumes "jp_inv jp" and "fanout_of jp = \<lparr>fo_queue = [([p], m), ([p], m')], fo_work = replicate WorkerCount None\<rparr>"
  shows "\<exists>jp1 jp2 jp3 jp4. worker_take 0 jp = Some jp1 \<and> worker_take 1 jp1 = Some jp2 \<and>
    worker_next 1 jp2 = Some (Some p, m', jp3) \<and> worker_next 0 jp3 = Some (Some p, m, jp4)"
proof -
  let ?none = "replicate WorkerCount None"
  have "fo_take 0 (fanout_of jp) = Some \<lparr>fo_queue = [([p], m')], fo_work = ?none[0 := Some ([p], m)]\<rparr>"
    by (simp add: assms(2) fo_take_def WorkerCount_def)
  then obtain jp1 where t1: "worker_take 0 jp = Some jp1"
    and f1: "fanout_of jp1 = \<lparr>fo_queue = [([p], m')], fo_work = ?none[0 := Some ([p], m)]\<rparr>"
    using worker_take_enabled [OF assms(1)] by blast
  have i1: "jp_inv jp1" using worker_take_refines [OF assms(1) t1] by simp
  have "fo_take 1 (fanout_of jp1) =
      Some \<lparr>fo_queue = [], fo_work = ?none[0 := Some ([p], m), 1 := Some ([p], m')]\<rparr>"
    by (simp add: f1 fo_take_def WorkerCount_def)
  then obtain jp2 where t2: "worker_take 1 jp1 = Some jp2"
    and f2: "fanout_of jp2 = \<lparr>fo_queue = [], fo_work = ?none[0 := Some ([p], m), 1 := Some ([p], m')]\<rparr>"
    using worker_take_enabled [OF i1] by blast
  have i2: "jp_inv jp2" using worker_take_refines [OF i1 t2] by simp
  have "fo_next 1 (fanout_of jp2) =
      Some (Some p, m', \<lparr>fo_queue = [], fo_work = ?none[0 := Some ([p], m), 1 := Some ([], m')]\<rparr>)"
    by (simp add: f2 fo_next_def WorkerCount_def)
  then obtain jp3 where t3: "worker_next 1 jp2 = Some (Some p, m', jp3)"
    and f3: "fanout_of jp3 = \<lparr>fo_queue = [], fo_work = ?none[0 := Some ([p], m), 1 := Some ([], m')]\<rparr>"
    using worker_next_enabled [OF i2] by blast
  have i3: "jp_inv jp3" using worker_next_refines [OF i2 t3] by simp
  have "\<exists>f. fo_next 0 (fanout_of jp3) = Some (Some p, m, f)"
    by (simp add: f3 fo_next_def WorkerCount_def)
  then show ?thesis using worker_next_enabled [OF i3] t1 t2 t3 by blast
qed

text \<open>What a worker does that has the client next.\<close>

lemma run_worker_send:
  assumes "(sstep api)\<^sup>*\<^sup>* s t \<and> sinv t" and "worker_next w (sv_jobs t) = Some (Some p, m, jp)"
    and "length (ch_buf (cl_Send (sv_clients t p))) < SendChanSize"
  shows "(sstep api)\<^sup>*\<^sup>* s (add_message p m (t\<lparr>sv_jobs := jp\<rparr>)) \<and> sinv (add_message p m (t\<lparr>sv_jobs := jp\<rparr>))"
proof -
  have "client_ok (sv_clients t p)" using assms(1) by (simp add: sinv_def inv_clients_def)
  then have "worker_send w t = Some (add_message p m (t\<lparr>sv_jobs := jp\<rparr>))"
    using assms(2,3)
    by (simp add: worker_send_def safeSend_def send_chan_def client_ok_def add_message_def set_client_def)
  then show ?thesis using assms(1) run_action worker_sends by blast
qed

lemma run_worker_begin:
  assumes "(sstep api)\<^sup>*\<^sup>* s t \<and> sinv t" and "worker_take w (sv_jobs t) = Some jp"
  shows "(sstep api)\<^sup>*\<^sup>* s (t\<lparr>sv_jobs := jp\<rparr>) \<and> sinv (t\<lparr>sv_jobs := jp\<rparr>)"
proof -
  have "worker_begin w t = Some (t\<lparr>sv_jobs := jp\<rparr>)" using assms(2) by (simp add: worker_begin_def)
  then show ?thesis using assms(1) run_action worker_begins by blast
qed

text \<open>With two jobs for a client under way, the client can get the second one first.\<close>

lemma run_overtakes:
  assumes "(sstep api)\<^sup>*\<^sup>* s t \<and> sinv t"
    and "fanout_of (sv_jobs t) = \<lparr>fo_queue = [([p], m), ([p], m')], fo_work = replicate WorkerCount None\<rparr>"
    and "ch_buf (cl_Send (sv_clients t p)) = []"
  shows "\<exists>u. (sstep api)\<^sup>*\<^sup>* s u \<and> sinv u \<and> sv_published u = sv_published t \<and> sv_conn u = sv_conn t \<and>
    sv_writer u = sv_writer t \<and> sv_clients u p = (sv_clients t p)
      \<lparr>cl_Send := (cl_Send (sv_clients t p))\<lparr>ch_buf := [m', m]\<rparr>\<rparr>"
proof -
  have "jp_inv (sv_jobs t)" using assms(1) by (simp add: sinv_def)
  then obtain jp1 jp2 jp3 jp4 where
    w: "worker_take 0 (sv_jobs t) = Some jp1" "worker_take 1 jp1 = Some jp2"
      "worker_next 1 jp2 = Some (Some p, m', jp3)" "worker_next 0 jp3 = Some (Some p, m, jp4)"
    using two_workers [OF _ assms(2)] by blast
  have "(sstep api)\<^sup>*\<^sup>* s (t\<lparr>sv_jobs := jp1\<rparr>) \<and> sinv (t\<lparr>sv_jobs := jp1\<rparr>)"
    using run_worker_begin [OF assms(1) w(1)] .
  then have "(sstep api)\<^sup>*\<^sup>* s (t\<lparr>sv_jobs := jp2\<rparr>) \<and> sinv (t\<lparr>sv_jobs := jp2\<rparr>)"
    using run_worker_begin [of api s "t\<lparr>sv_jobs := jp1\<rparr>" 1 jp2] w(2) by simp
  then have "(sstep api)\<^sup>*\<^sup>* s (add_message p m' (t\<lparr>sv_jobs := jp3\<rparr>)) \<and> sinv (add_message p m' (t\<lparr>sv_jobs := jp3\<rparr>))"
    using run_worker_send [of api s "t\<lparr>sv_jobs := jp2\<rparr>" 1 p m' jp3] w(3) assms(3) by (simp add: SendChanSize_def)
  moreover have m': "ch_buf (cl_Send (sv_clients (add_message p m' (t\<lparr>sv_jobs := jp3\<rparr>)) p)) = [m']"
    using assms(3) by simp
  ultimately have "(sstep api)\<^sup>*\<^sup>* s (add_message p m ((add_message p m' (t\<lparr>sv_jobs := jp3\<rparr>))\<lparr>sv_jobs := jp4\<rparr>)) \<and>
      sinv (add_message p m ((add_message p m' (t\<lparr>sv_jobs := jp3\<rparr>))\<lparr>sv_jobs := jp4\<rparr>))"
    using run_worker_send [of api s "add_message p m' (t\<lparr>sv_jobs := jp3\<rparr>)" 0 p m jp4] w(4)
    by (simp add: SendChanSize_def)
  then show ?thesis using m'
    by (intro exI [of _ "add_message p m ((add_message p m' (t\<lparr>sv_jobs := jp3\<rparr>))\<lparr>sv_jobs := jp4\<rparr>)"])
      (simp add: add_message_def set_client_def)
qed

text \<open>Two publications to a room of one client: the client is in, Redis accepts both and delivers both.\<close>

definition two_published :: "string \<Rightarrow> string \<Rightarrow> string \<Rightarrow> 'r server \<Rightarrow> 'r server" where
  "two_published r m m' s =
     redis_accepts (KeyRoomPubSub r) m' (redis_accepts (KeyRoomPubSub r) m
       (joined (ClientPtr 0) (NewClient 7 [] r) s))"

lemma run_two_published:
  assumes "r \<noteq> []"
  shows "(sstep api)\<^sup>*\<^sup>* (NewManager h n rdb) (two_published r m m' (NewManager h n rdb)) \<and>
    sinv (two_published r m m' (NewManager h n rdb))"
proof -
  let ?s0 = "NewManager h n rdb"
  have "(sstep api)\<^sup>*\<^sup>* ?s0 (joined (ClientPtr 0) (NewClient 7 [] r) ?s0) \<and>
      sinv (joined (ClientPtr 0) (NewClient 7 [] r) ?s0)"
    using assms by (intro run_joined sinv_init rtranclp.rtrancl_refl) (simp_all add: NewManager_def)
  then show ?thesis unfolding two_published_def using run_action other_publishes by blast
qed

lemma run_two_jobs:
  assumes "r \<noteq> []"
  shows "\<exists>t. (sstep api)\<^sup>*\<^sup>* (NewManager h n rdb) t \<and> sinv t \<and>
    sv_published t = [(KeyRoomPubSub r, m), (KeyRoomPubSub r, m')] \<and>
    fanout_of (sv_jobs t) =
      \<lparr>fo_queue = [([ClientPtr 0], m), ([ClientPtr 0], m')], fo_work = replicate WorkerCount None\<rparr> \<and>
    sv_clients t (ClientPtr 0) = NewClient 7 [] r \<and> sv_conn t (ClientPtr 0) = ConnRead \<and>
    sv_writer t (ClientPtr 0)"
proof -
  let ?s0 = "NewManager h n rdb"
  let ?p = "ClientPtr 0"
  let ?sb = "\<lambda>box. \<lparr>sb_RoomID = r, sb_cancelled = False, sb_inbox = box, sb_returned = False\<rparr>"
  let ?key = "KeyRoomPubSub r"
  let ?k = "\<lparr>pk_pool = None, pk_grow = 0, pk_order = [?p]\<rparr>"
  let ?s1 = "two_published r m m' ?s0"
  let ?s2 = "?s1\<lparr>sv_inflight := [(?key, m')], sv_subs := [?sb [m]]\<rparr>"
  let ?s3 = "?s1\<lparr>sv_inflight := [], sv_subs := [?sb [m, m']]\<rparr>"
  let ?s4 = "broadcastToLocalClients ?k r m (?s1\<lparr>sv_inflight := [], sv_subs := [?sb [m']]\<rparr>)"
  let ?s5 = "broadcastToLocalClients ?k r m' (?s4\<lparr>sv_subs := [?sb []]\<rparr>)"
  have f: "sv_inflight ?s1 = [(?key, m), (?key, m')]" "sv_subs ?s1 = [?sb []]"
    "sv_Rooms ?s1 = (\<lambda>_. None)(r := Some {?p})" "sv_jobs ?s1 = new_pool"
    "sv_published ?s1 = [(?key, m), (?key, m')]" "sv_clients ?s1 ?p = NewClient 7 [] r"
    "sv_conn ?s1 ?p = ConnRead" "sv_writer ?s1 ?p"
    by (simp_all add: two_published_def run_defs redis_accepts_def)
  have r1: "(sstep api)\<^sup>*\<^sup>* ?s0 ?s1 \<and> sinv ?s1" by (rule run_two_published [OF assms])
  have "fan_out ?s1 = Some ?s2" by (simp add: fan_out_def f deliver_sub_def)
  then have r2: "(sstep api)\<^sup>*\<^sup>* ?s0 ?s2 \<and> sinv ?s2" using r1 run_action fans_out by blast
  have "fan_out ?s2 = Some ?s3" by (simp add: fan_out_def deliver_sub_def)
  then have r3: "(sstep api)\<^sup>*\<^sup>* ?s0 ?s3 \<and> sinv ?s3" using r2 run_action fans_out by blast
  have "saction api ?s3 ?s4"
    by (rule sub_messages [of 0 _ ?k]) (simp_all add: enumerates_def f subscribe_message_def set_sub_def)
  then have r4: "(sstep api)\<^sup>*\<^sup>* ?s0 ?s4 \<and> sinv ?s4" using r3 run_action by blast
  have f4: "sv_subs ?s4 = [?sb [m']]" "sv_Rooms ?s4 = (\<lambda>_. None)(r := Some {?p})"
    by (simp_all add: broadcastToLocalClients_def f)
  have "saction api ?s4 ?s5"
    by (rule sub_messages [of 0 _ ?k]) (simp_all add: enumerates_def f4 subscribe_message_def set_sub_def)
  then have r5: "(sstep api)\<^sup>*\<^sup>* ?s0 ?s5 \<and> sinv ?s5" using r4 run_action by blast
  let ?jp1 = "dispatch_job None 0 [?p] m new_pool"
  have j1: "jp_inv ?jp1" "fanout_of ?jp1 = \<lparr>fo_queue = [([?p], m)], fo_work = replicate WorkerCount None\<rparr>"
    using dispatch_job_refines [OF jp_inv_new, of None 0 "[?p]" m]
    by (simp_all add: fo_dispatch_def idle_def BroadcastJobChanSize_def)
  have "fanout_of (dispatch_job None 0 [?p] m' ?jp1) =
      \<lparr>fo_queue = [([?p], m), ([?p], m')], fo_work = replicate WorkerCount None\<rparr>"
    using dispatch_job_refines [OF j1(1), of None 0 "[?p]" m'] by (simp add: j1(2) fo_dispatch_def BroadcastJobChanSize_def)
  moreover have "sv_jobs ?s5 = dispatch_job None 0 [?p] m' ?jp1" "sv_published ?s5 = [(?key, m), (?key, m')]"
    "sv_clients ?s5 ?p = NewClient 7 [] r" "sv_conn ?s5 ?p = ConnRead" "sv_writer ?s5 ?p"
    by (simp_all add: broadcastToLocalClients_def f)
  ultimately show ?thesis using r5 by (intro exI [of _ ?s5]) simp
qed

lemma run_queue_swapped:
  assumes "r \<noteq> []"
  shows "\<exists>s. (sstep api)\<^sup>*\<^sup>* (NewManager h n rdb) s \<and> sinv s \<and>
    sv_published s = [(KeyRoomPubSub r, m), (KeyRoomPubSub r, m')] \<and>
    sv_conn s (ClientPtr 0) = ConnRead \<and> sv_writer s (ClientPtr 0) \<and>
    sv_clients s (ClientPtr 0) =
      (NewClient 7 [] r)\<lparr>cl_Send := (cl_Send (NewClient 7 [] r))\<lparr>ch_buf := [m', m]\<rparr>\<rparr>"
proof -
  obtain t where t: "(sstep api)\<^sup>*\<^sup>* (NewManager h n rdb) t \<and> sinv t"
    "sv_published t = [(KeyRoomPubSub r, m), (KeyRoomPubSub r, m')]"
    "fanout_of (sv_jobs t) =
      \<lparr>fo_queue = [([ClientPtr 0], m), ([ClientPtr 0], m')], fo_work = replicate WorkerCount None\<rparr>"
    "sv_clients t (ClientPtr 0) = NewClient 7 [] r" "sv_conn t (ClientPtr 0) = ConnRead" "sv_writer t (ClientPtr 0)"
    using run_two_jobs [OF assms, of api h n rdb m m'] by blast
  have "ch_buf (cl_Send (sv_clients t (ClientPtr 0))) = []" by (simp add: t(4) NewClient_def)
  from run_overtakes [OF t(1,3) this] show ?thesis using t(2,4-6) by auto
qed

section \<open>The properties\<close>

text \<open>
  C8. First in, first out: from any reachable state on, what a client's writer has written to the
  socket only ever gets longer, and as long as the writer runs, what was written or queued for the
  client stays at the front of it, in the same order; messages are added only behind it.
\<close>

theorem delivered_in_order:
  assumes "(sstep api)\<^sup>*\<^sup>* (NewManager h n rdb) s" and "(sstep api)\<^sup>*\<^sup>* s t" and "sv_conn s p \<noteq> ConnNone"
  shows "prefix (cl_written (sv_clients s p)) (cl_written (sv_clients t p)) \<and>
    (sv_writer t p \<longrightarrow>
       prefix (cl_written (sv_clients s p) @ ch_buf (cl_Send (sv_clients s p)))
         (cl_written (sv_clients t p) @ ch_buf (cl_Send (sv_clients t p))))"
  using run_in_order [OF assms(1,2), of p] assms(3) by (simp add: in_order_def writable_def outbox_def)

theorem delivered_in_order_witness:
  "\<exists>s t :: rstore server. (sstep mem_api)\<^sup>*\<^sup>* s t \<and> sv_writer t (ClientPtr 0) \<and>
     prefix [''b'', ''a''] (cl_written (sv_clients t (ClientPtr 0)) @ ch_buf (cl_Send (sv_clients t (ClientPtr 0))))"
proof -
  obtain s :: "rstore server" where s: "(sstep mem_api)\<^sup>*\<^sup>* (NewManager ''h'' 1 empty_rstore) s" "sinv s"
    "sv_conn s (ClientPtr 0) = ConnRead" "sv_writer s (ClientPtr 0)"
    "sv_clients s (ClientPtr 0) =
      (NewClient 7 [] ''r'')\<lparr>cl_Send := (cl_Send (NewClient 7 [] ''r''))\<lparr>ch_buf := [''b'', ''a'']\<rparr>\<rparr>"
    using run_queue_swapped [of "''r''" mem_api "''h''" 1 empty_rstore "''a''" "''b''"] by blast
  have f: "cl_written (sv_clients s (ClientPtr 0)) = []"
    "ch_buf (cl_Send (sv_clients s (ClientPtr 0))) = [''b'', ''a'']"
    by (simp_all add: s(5) NewClient_def)
  let ?t = "set_client (ClientPtr 0) ((sv_clients s (ClientPtr 0))
    \<lparr>cl_Send := (cl_Send (sv_clients s (ClientPtr 0)))\<lparr>ch_buf := []\<rparr>, cl_written := [''b'', ''a'']\<rparr>) s"
  have run: "(sstep mem_api)\<^sup>*\<^sup>* s ?t" using run_writes [OF s(2,4) f(2)] by (simp add: f(1))
  have "sv_writer ?t (ClientPtr 0)" using s(4) by (simp add: set_client_def)
  moreover have "sv_conn s (ClientPtr 0) \<noteq> ConnNone" using s(3) by simp
  ultimately show ?thesis using delivered_in_order [OF s(1) run, of "ClientPtr 0"] run f by auto
qed

text \<open>
  C21. Everything queued can be written: from every reachable state in which a client's writer runs on
  an open socket, the writer alone can go on to write all that is queued, in order, and nothing else.
\<close>

theorem queue_is_written:
  assumes "(sstep api)\<^sup>*\<^sup>* (NewManager h n rdb) s" and "sv_writer s p" and "\<not> cl_socket_closed (sv_clients s p)"
  shows "\<exists>t. (sstep api)\<^sup>*\<^sup>* s t \<and> ch_buf (cl_Send (sv_clients t p)) = [] \<and>
    cl_written (sv_clients t p) = cl_written (sv_clients s p) @ ch_buf (cl_Send (sv_clients s p)) \<and>
    \<not> cl_socket_closed (sv_clients t p)"
  by (rule exI, rule conjI, rule run_writes [OF server_reaches [OF assms(1)] assms(2) refl])
    (simp add: set_client_def assms(3))

theorem queue_is_written_witness:
  "\<exists>t :: rstore server. cl_written (sv_clients t (ClientPtr 0)) = [''b'', ''a'']"
proof -
  obtain s :: "rstore server" where s: "(sstep mem_api)\<^sup>*\<^sup>* (NewManager ''h'' 1 empty_rstore) s" "sv_writer s (ClientPtr 0)"
    "sv_clients s (ClientPtr 0) =
      (NewClient 7 [] ''r'')\<lparr>cl_Send := (cl_Send (NewClient 7 [] ''r''))\<lparr>ch_buf := [''b'', ''a'']\<rparr>\<rparr>"
    using run_queue_swapped [of "''r''" mem_api "''h''" 1 empty_rstore "''a''" "''b''"] by blast
  then have "\<not> cl_socket_closed (sv_clients s (ClientPtr 0))" by (simp add: NewClient_def)
  from queue_is_written [OF s(1,2) this] show ?thesis by (auto simp: s(3) NewClient_def)
qed

text \<open>
  C37. Messages can overtake each other: a run exists in which Redis accepts and delivers two messages
  of a room in one order and a client of the room is sent them in the other, because two of the
  hundred workers each hold one of them.
\<close>

theorem messages_overtake:
  assumes "r \<noteq> []"
  shows "\<exists>s. (sstep api)\<^sup>*\<^sup>* (NewManager h n rdb) s \<and>
    sv_published s = [(KeyRoomPubSub r, m), (KeyRoomPubSub r, m')] \<and>
    cl_written (sv_clients s (ClientPtr 0)) = [m', m]"
proof -
  obtain s where s: "(sstep api)\<^sup>*\<^sup>* (NewManager h n rdb) s" "sinv s"
    "sv_published s = [(KeyRoomPubSub r, m), (KeyRoomPubSub r, m')]" "sv_writer s (ClientPtr 0)"
    "sv_clients s (ClientPtr 0) =
      (NewClient 7 [] r)\<lparr>cl_Send := (cl_Send (NewClient 7 [] r))\<lparr>ch_buf := [m', m]\<rparr>\<rparr>"
    using run_queue_swapped [OF assms, of api h n rdb m m'] by blast
  have f: "cl_written (sv_clients s (ClientPtr 0)) = []"
    "ch_buf (cl_Send (sv_clients s (ClientPtr 0))) = [m', m]"
    by (simp_all add: s(5) NewClient_def)
  from rtranclp_trans [OF s(1) run_writes [OF s(2,4) f(2)]] show ?thesis
    by (intro exI conjI) (assumption, simp_all add: f(1) s(3) set_client_def)
qed

theorem messages_overtake_witness:
  "\<exists>s :: rstore server. sv_published s = [(KeyRoomPubSub ''r'', ''a''), (KeyRoomPubSub ''r'', ''b'')] \<and>
    cl_written (sv_clients s (ClientPtr 0)) = [''b'', ''a'']"
  using messages_overtake [of "''r''" mem_api "''h''" 1 empty_rstore "''a''" "''b''"] by auto

end
