(* ===== verification/ManagerThms.thy ===== *)
theory ManagerThms
  imports ManagerOrder Consumer Decoded
begin

text \<open>
  The properties of the server: over every interleaving of its goroutines, and of its operations one
  by one; and two runs that show what the interleaving allows.
\<close>

section \<open>Who gets what\<close>

text \<open>
  Room isolation: in every reachable state, a message that has been written to a client's websocket
  or waits in its \<open>Send\<close> channel was published on the Redis channel of the client's own room, or is a
  statistics packet of that room.
\<close>

lemma room_isolation:
  assumes "(sstep api)\<^sup>*\<^sup>* (NewManager h n rdb) s"
    and "m \<in> set (cl_written (sv_clients s p)) \<or> m \<in> set (ch_buf (cl_Send (sv_clients s p)))"
  shows "(KeyRoomPubSub (cl_RoomID (sv_clients s p)), m) \<in> set (sv_published s) \<or>
    (\<exists>stats. marshal_WsPacket (stats_packet (cl_RoomID (sv_clients s p)) stats) = Some m)"
proof -
  have "m \<in> outgoing (sv_clients s p)" using assms(2) by (auto simp: outgoing_def)
  then have "origin (sv_published s) (cl_RoomID (sv_clients s p)) m"
    using server_flow [OF assms(1)] by (simp add: finv_def)
  then show ?thesis by (simp add: origin_def)
qed

lemma room_isolation_example:
  "\<exists>s. demo_wire \<in> set (ch_buf (cl_Send (sv_clients s (ClientPtr 0)))) \<and>
     ((KeyRoomPubSub ''r'', demo_wire) \<in> set (sv_published (s :: rstore server)) \<or>
      (\<exists>stats. marshal_WsPacket (stats_packet ''r'' stats) = Some demo_wire))"
proof -
  obtain s where run: "(sstep mem_api)\<^sup>*\<^sup>* (NewManager ''h'' 1 empty_rstore) s"
    and c: "sv_clients s (ClientPtr 0) = demo_client\<lparr>cl_Send := (make_chan SendChanSize)\<lparr>ch_buf := [demo_wire]\<rparr>\<rparr>"
    using run_arrived by blast
  have "demo_wire \<in> set (ch_buf (cl_Send (sv_clients s (ClientPtr 0))))" by (simp add: c)
  moreover from room_isolation [OF run disjI2, OF this] have
    "(KeyRoomPubSub ''r'', demo_wire) \<in> set (sv_published s) \<or>
      (\<exists>stats. marshal_WsPacket (stats_packet ''r'' stats) = Some demo_wire)"
    by (simp add: c demo_client_def NewClient_def)
  ultimately show ?thesis by blast
qed

text \<open>
  Authenticity: everything the server ever pushes to Kafka goes to the save topic and is the packet
  of a danmaku whose room and user are those of a connection that was accepted, whatever the client
  claimed in its message.
\<close>

lemma kafka_authentic:
  assumes "(sstep api)\<^sup>*\<^sup>* (NewManager h n rdb) s" and "(topic, v) \<in> set (sv_Kafka s)"
  shows "topic = DanmakuSaveTopic \<and>
    (\<exists>p content now. sv_conn s p \<noteq> ConnNone \<and>
       marshal_WsPacket (danmaku_packet (sv_clients s p) content now) = Some v)"
  using server_flow [OF assms(1)] assms(2) by (fastforce simp: finv_def authentic_def)

lemma kafka_authentic_example:
  "\<exists>s p content now. sv_Kafka (s :: rstore server) = [(DanmakuSaveTopic, demo_wire)] \<and> sv_conn s p \<noteq> ConnNone \<and>
     marshal_WsPacket (danmaku_packet (sv_clients s p) content now) = Some demo_wire"
proof -
  obtain s where run: "(sstep mem_api)\<^sup>*\<^sup>* (NewManager ''h'' 1 empty_rstore) s"
    and kf: "sv_Kafka s = [(DanmakuSaveTopic, demo_wire)]"
    using run_arrived by blast
  then show ?thesis using kafka_authentic [OF run, of DanmakuSaveTopic demo_wire] by auto
qed

text \<open>A danmaku from the websocket to what the consumer parses.\<close>

lemma danmaku_travels:
  assumes "sv_conn s p = ConnRead"
    and "unmarshal_WsPacket msg = (packet, None)" and "wp_Type packet = TypeDanmaku"
    and "unmarshal_DanmakuMessage (raw_bytes (wp_Data packet)) = (inputMsg, None)"
    and "valid_time now"
  shows "\<exists>out v. conn_read now msg p s = set_conn p (ConnSend out) s \<and>
    sv_Kafka (handleBroadcast api k out t) = sv_Kafka t @ [(DanmakuSaveTopic, v)] \<and>
    parseMessage v = Inr (Some \<lparr>dm_ID = 0, dm_RoomID = clean (cl_RoomID (sv_clients s p)),
      dm_UserID = cl_UserID (sv_clients s p), dm_Content = dm_Content inputMsg, dm_SendTime = now\<rparr>)"
proof -
  let ?c = "sv_clients s p"
  let ?m = "\<lparr>dm_ID = 0, dm_RoomID = clean (cl_RoomID ?c), dm_UserID = cl_UserID ?c,
    dm_Content = dm_Content inputMsg, dm_SendTime = now\<rparr>"
  have utf: "valid_utf8 (dm_Content inputMsg)"
    using danmaku_decoded [of "raw_bytes (wp_Data packet)"] assms(4) by (simp add: danmaku_decoded_def)
  let ?out = "danmaku_packet ?c (dm_Content inputMsg) now"
  obtain v t' where w: "unmarshal_DanmakuMessage v = (?m, None)" "payload v"
    "?out = \<lparr>wp_Type = TypeDanmaku, wp_RoomID = cl_RoomID ?c, wp_Data = Some v\<rparr>" "marshal_WsPacket ?out = Some t'"
    using danmaku_packet_text [OF utf assms(5)] unfolding danmaku_of_def by blast
  have "carries ?out" using w(2,3) by (simp add: carries_def TypeDanmaku_def)
  then have "unmarshal_WsPacket t' = (clean_packet ?out, None)" using packet_cleaned w(4) by fastforce
  then have "parseMessage t' = Inr (Some ?m)" using w(1,3) by (simp add: parseMessage_def raw_bytes_def clean_packet_def)
  moreover have "wp_Type ?out = TypeDanmaku" by (simp add: w(3))
  ultimately show ?thesis
    using read_danmaku [OF assms(1-4), of now] broadcast_danmaku [OF _ w(4), of api k t] by blast
qed

text \<open>
  C7. End to end: a danmaku a connected client sends, once the manager's loop has taken it, is in Kafka
  in a form the consumer parses, with the client's text and with the room (its bytes that are not UTF-8
  replaced), the user and the time the server added; the id is left to the database.
\<close>

theorem danmaku_end_to_end:
  assumes "sv_conn s p = ConnRead"
    and "unmarshal_WsPacket msg = (packet, None)" and "wp_Type packet = TypeDanmaku"
    and "unmarshal_DanmakuMessage (raw_bytes (wp_Data packet)) = (inputMsg, None)"
    and "valid_time now"
  shows "\<exists>out v. conn_read now msg p s = set_conn p (ConnSend out) s \<and>
    sv_Kafka (handleBroadcast api k out t) = sv_Kafka t @ [(DanmakuSaveTopic, v)] \<and>
    parseMessage v = Inr (Some \<lparr>dm_ID = 0, dm_RoomID = clean (cl_RoomID (sv_clients s p)),
      dm_UserID = cl_UserID (sv_clients s p), dm_Content = dm_Content inputMsg, dm_SendTime = now\<rparr>)"
  by (rule danmaku_travels [OF assms])

theorem danmaku_end_to_end_witness:
  "\<exists>v. parseMessage v = Inr (Some \<lparr>dm_ID = 0, dm_RoomID = ''r'', dm_UserID = 7, dm_Content = ''hi'',
     dm_SendTime = zero_time\<rparr>)"
proof -
  define s where "s = joined (ClientPtr 0) demo_client (NewManager ''h'' 1 empty_rstore)"
  have f: "sv_conn s (ClientPtr 0) = ConnRead" "sv_clients s (ClientPtr 0) = demo_client"
    by (simp_all add: s_def run_defs demo_client_def)
  have utf: "valid_utf8 ''r''" "valid_utf8 ''hi''" by (rule valid_utf8_ascii, simp)+
  have time: "valid_time zero_time" by code_simp
  note ends = danmaku_end_to_end [OF f(1) danmaku_parsed(1), where now = zero_time and
      inputMsg = "zero_danmaku\<lparr>dm_UserID := 1, dm_Content := ''hi''\<rparr>" and api = mem_api and t = s,
      unfolded f(2)]
  have user: "cl_RoomID demo_client = ''r''" "cl_UserID demo_client = 7"
    by (simp_all add: demo_client_def NewClient_def)
  show ?thesis
    using ends danmaku_parsed(2) utf time by (auto simp: user raw_bytes_def)
qed

section \<open>Rooms and subscriptions\<close>

text \<open>
  C10. The rooms of the manager are exact in every reachable state: a room exists if and only if some
  registered and not yet unregistered connection is in it, and then it is the set of all of them.
\<close>

theorem rooms_exact:
  assumes "(sstep api)\<^sup>*\<^sup>* (NewManager h n rdb) s"
  shows "sv_Rooms s r =
    (let members = {p. active (sv_conn s p) \<and> cl_RoomID (sv_clients s p) = r}
     in if members = {} then None else Some members)"
  using server_reaches [OF assms] by (simp add: sinv_def inv_rooms_def members_of_def Let_def)

theorem rooms_exact_witness:
  "sv_Rooms (liked ''r'' (NewManager ''h'' 1 empty_rstore)) ''r'' = Some {ClientPtr 0}"
proof -
  have "(sstep mem_api)\<^sup>*\<^sup>* (NewManager ''h'' 1 empty_rstore) (liked ''r'' (NewManager ''h'' 1 empty_rstore))"
    using run_liked [of "''r''" mem_api] by simp
  from rooms_exact [OF this, of "''r''"] show ?thesis
    by (simp add: liked_def run_defs Let_def)
qed

text \<open>
  C11. Exactly one live subscription per room: in every reachable state each room the manager has has
  one subscription whose context is not cancelled, and a room it does not have has none, so no
  subscription goroutine is leaked.
\<close>

theorem one_subscription:
  assumes "(sstep api)\<^sup>*\<^sup>* (NewManager h n rdb) s"
  shows "card {i. i < length (sv_subs s) \<and> sb_RoomID (sv_subs s ! i) = r \<and> \<not> sb_cancelled (sv_subs s ! i)} =
    (if sv_Rooms s r = None then 0 else 1)"
proof -
  have subs: "inv_subs (sv_Rooms s) (sv_cancelSub s) (sv_subs s)"
    using server_reaches [OF assms] by (simp add: sinv_def)
  have live: "{i. i < length (sv_subs s) \<and> sb_RoomID (sv_subs s ! i) = r \<and> \<not> sb_cancelled (sv_subs s ! i)} =
      {i. sv_cancelSub s r = Some i}"
    using subs unfolding inv_subs_def by blast
  have "sv_Rooms s r = None \<longleftrightarrow> sv_cancelSub s r = None" using subs by (simp add: inv_subs_def)
  then show ?thesis unfolding live by (cases "sv_cancelSub s r") simp_all
qed

theorem one_subscription_witness:
  "card {i. i < 2 \<and> sb_RoomID (sv_subs (two_subs ''r'' ''m'' (NewManager ''h'' 1 empty_rstore)) ! i) = ''r'' \<and>
     \<not> sb_cancelled (sv_subs (two_subs ''r'' ''m'' (NewManager ''h'' 1 empty_rstore)) ! i)} = 1"
proof -
  have "(sstep mem_api)\<^sup>*\<^sup>* (NewManager ''h'' 1 empty_rstore) (two_subs ''r'' ''m'' (NewManager ''h'' 1 empty_rstore))"
    using run_two_subs [of "''r''" mem_api] by simp
  from one_subscription [OF this, of "''r''"] show ?thesis
    by (simp add: two_subs_facts(3,4) numeral_2_eq_2)
qed

section \<open>No panic, bounded channels\<close>

text \<open>
  C6. The server never panics, in any interleaving: no goroutine sends on a closed channel (\<open>Send\<close>,
  \<open>Broadcast\<close> and \<open>broadcastJobChan\<close> are never closed), \<open>done\<close> is never closed twice, and no worker
  meets a nil client in a recycled slice. \<open>done\<close> is closed exactly for the connections that have
  been unregistered.
\<close>

theorem server_never_panics:
  assumes "(sstep api)\<^sup>*\<^sup>* (NewManager h n rdb) s"
  shows "\<not> sv_panicked s \<and> \<not> ch_closed (cl_Send (sv_clients s p)) \<and> \<not> ch_closed (sv_Broadcast s) \<and>
    \<not> ch_closed (jp_chan (sv_jobs s)) \<and> (cl_done_closed (sv_clients s p) \<longleftrightarrow> sv_conn s p = ConnEnded)"
proof -
  have "inv_clients (sv_conn s) (sv_clients s)" "inv_queue (sv_Broadcast s)" "jp_inv (sv_jobs s)"
    "\<not> sv_panicked s"
    using server_reaches [OF assms] by (simp_all add: sinv_def)
  then show ?thesis
    unfolding inv_clients_def client_ok_def inv_queue_def jp_inv_def by blast
qed

theorem server_never_panics_witness:
  "\<not> ch_closed (cl_Send (sv_clients (sent_off) (ClientPtr 0)))"
  using server_never_panics [OF run_sent_off [THEN conjunct1]] by simp

text \<open>
  C19. Every buffer is bounded in every reachable state: 1024 packets in \<open>Broadcast\<close>, 1000 jobs in
  \<open>broadcastJobChan\<close>, 4096 messages in each client's \<open>Send\<close>, 100 workers.
\<close>

theorem server_bounds:
  assumes "(sstep api)\<^sup>*\<^sup>* (NewManager h n rdb) s"
  shows "length (ch_buf (sv_Broadcast s)) \<le> 1024 \<and> length (ch_buf (jp_chan (sv_jobs s))) \<le> 1000 \<and>
    length (ch_buf (cl_Send (sv_clients s p))) \<le> 4096 \<and> length (jp_work (sv_jobs s)) = 100"
  using server_reaches [OF assms]
  by (simp add: sinv_def inv_clients_def client_ok_def inv_queue_def jp_inv_def BroadcastChanSize_def
      BroadcastJobChanSize_def SendChanSize_def WorkerCount_def)

theorem server_bounds_witness:
  "length (jp_work (sv_jobs sent_off)) = 100"
  using server_bounds [OF run_sent_off [THEN conjunct1]] by simp

section \<open>Recycled slices\<close>

text \<open>
  The events of one message for two clients, served by worker 0.
\<close>

definition demo_fanout :: "fan_event list" where
  "demo_fanout =
     [Dispatched [ClientPtr 3, ClientPtr 1] ''m'', Taken 0, SentTo 0 (Some (ClientPtr 3)) ''m'',
      SentTo 0 (Some (ClientPtr 1)) ''m'', Finished 0]"

lemma demo_fanout_runs:
  "exec fo_step demo_fanout \<lparr>fo_queue = [], fo_work = replicate 100 None\<rparr> =
     Some \<lparr>fo_queue = [], fo_work = replicate 100 None\<rparr>"
  using list_update_id [of "replicate 100 None" 0]
  by (simp add: demo_fanout_def fo_dispatch_def fo_take_def fo_next_def fo_finish_def
      BroadcastJobChanSize_def)

text \<open>
  C9. The pool of slices is invisible. The sequences of events the component can show (a message
  handed over for a list of clients, a worker taking a job, a worker sending a payload to a client,
  a worker done with its job) are exactly those of a queue of plain lists of clients, whatever
  slices the pool hands out and however they grow: a dispatched pair joins the queue of at most
  1000, or is dropped when it is full; a worker takes the oldest pair, and sends its payload to just
  the clients of its list, in order, one \<open>safeSend\<close> for each entry and never to a nil pointer. And no
  backing array is ever in two places at once.
\<close>

theorem pooled_slices_safe:
  "((\<exists>jp. trace pstep new_pool es jp \<and> fanout_of jp = f) \<longleftrightarrow>
      exec fo_step es \<lparr>fo_queue = [], fo_work = replicate 100 None\<rparr> = Some f) \<and>
   (\<forall>jp a. trace pstep new_pool es jp \<longrightarrow> count (held jp) a \<le> 1)"
proof (intro conjI allI impI)
  have "fanout_of new_pool = \<lparr>fo_queue = [], fo_work = replicate 100 None\<rparr>"
    by (simp add: idle_def WorkerCount_def)
  with pooling.traces_are_executions [OF jp_inv_new, of es f]
  show "(\<exists>jp. trace pstep new_pool es jp \<and> fanout_of jp = f) \<longleftrightarrow>
     exec fo_step es \<lparr>fo_queue = [], fo_work = replicate 100 None\<rparr> = Some f" by simp
next
  fix jp a
  assume "trace pstep new_pool es jp"
  from pooling.trace_keeps [OF this jp_inv_new] show "count (held jp) a \<le> 1" by (simp add: jp_inv_def)
qed

theorem pooled_slices_safe_witness:
  "\<exists>jp. trace pstep new_pool demo_fanout jp \<and> (\<forall>a. count (held jp) a \<le> 1) \<and>
     fanout_of jp = \<lparr>fo_queue = [], fo_work = replicate 100 None\<rparr>"
  using pooled_slices_safe [of demo_fanout "\<lparr>fo_queue = [], fo_work = replicate 100 None\<rparr>"]
    demo_fanout_runs by blast

text \<open>
  The same for one broadcast, as an equation: if the array store is in order, dispatching a
  message to a list of clients is appending the pair to the abstract queue, or dropping it when the
  queue already has 1000 jobs.
\<close>

lemma dispatch_refines:
  assumes "jp_inv jp"
  shows "fanout_of (dispatch_job choice grow targets m jp) =
    (let f = fanout_of jp
     in if length (fo_queue f) < 1000 then f\<lparr>fo_queue := fo_queue f @ [(targets, m)]\<rparr> else f)"
  using dispatch_job_refines [OF assms] by (simp add: fo_dispatch_def BroadcastJobChanSize_def Let_def)

section \<open>The dispatcher\<close>

text \<open>
  A packet whose type has no handler, and a text that is no packet, changes nothing at all: the
  connection goes on reading.
\<close>

lemma other_messages_ignored:
  assumes "snd (unmarshal_WsPacket msg) \<noteq> None \<or>
    wp_Type (fst (unmarshal_WsPacket msg)) \<notin> {TypeDanmaku, ActionLike}"
  shows "conn_read now msg p s = s"
  using assms
  by (auto simp: conn_read_def ReadPump_message_def Dispatch_def RegisterActionHandlers_def
      RegisterAction_def split: prod.splits option.splits)

text \<open>
  What a like does: it adds its count to the pending likes of the connection's own room (modulo
  2^64), counting 1 for a payload that does not decode, that has no count or has count 0, and touches
  nothing else.
\<close>

lemma like_counts:
  assumes "unmarshal_WsPacket msg = (packet, None)" and "wp_Type packet = ActionLike"
  shows "conn_read now msg p s =
    (let room = cl_RoomID (sv_clients s p);
         d = unmarshal_Like (raw_bytes (wp_Data packet));
         n = (if snd d = None \<and> lk_Count (fst d) \<noteq> 0 then lk_Count (fst d) else 1)
     in s\<lparr>sv_localLikes := (sv_localLikes s)(room := Some (likes_of (sv_localLikes s) room + n))\<rparr>)"
  using assms
  by (auto simp: conn_read_def ReadPump_message_def Dispatch_def RegisterActionHandlers_def
      RegisterAction_def like_handler_def Let_def split: prod.splits option.splits)

lemma like_counts_example:
  "likes_of (sv_localLikes (conn_read zero_time like_text (ClientPtr 0) (liked ''r'' (NewManager ''h'' 1 empty_rstore))))
     ''r'' = 10"
proof -
  define s where "s = liked ''r'' (NewManager ''h'' 1 empty_rstore)"
  have "cl_RoomID (sv_clients s (ClientPtr 0)) = ''r''" "sv_localLikes s = (\<lambda>_. None)(''r'' := Some 5)"
    by (simp_all add: s_def liked_def run_defs)
  then have "likes_of (sv_localLikes (conn_read zero_time like_text (ClientPtr 0) s)) ''r'' = 10"
    using like_counts [OF like_parsed(1), of zero_time "ClientPtr 0" s] like_parsed(2)
    by (simp add: Let_def likes_of_def raw_bytes_def)
  then show ?thesis by (simp add: s_def)
qed

text \<open>
  A connection is accepted if and only if the request names a room and a user id of decimal digits
  that fits 64 bits and the upgrade succeeds; the client then carries exactly that user, name and
  room, an open send channel and nothing to send.
\<close>

lemma connect_accepts:
  "ConnectWebSocket q upgrade_ok = Connected c \<longleftrightarrow>
     upgrade_ok \<and> cq_room q \<noteq> [] \<and> cq_uid q \<noteq> [] \<and> list_all is_digit (cq_uid q) \<and>
     digits_val (cq_uid q) \<le> 18446744073709551615 \<and>
     c = NewClient (of_nat (digits_val (cq_uid q))) (cq_name q) (cq_room q)"
  by (auto simp: Connected_NewClient ParseUint_iff list_all_iff)

section \<open>What interleaving allows\<close>

text \<open>
  C36. Likes can be lost. From the start there is a run to a state in which the one client of a room has
  sent a like of 5, which is pending; from there one to a state in which the room is empty, the like
  still pending and no statistics run has started; and from there one in which a first statistics
  run takes the pending likes away and ends. In no step of the second and third runs does Redis
  change or is an increment of a like count asked for, and in none of the third does anyone enter or
  leave a room, so Redis never hears of the like, and nothing remembers it: the tick takes the pending likes of all rooms but reports only rooms that still exist.
\<close>

theorem like_forgotten:
  assumes "r \<noteq> []"
  shows "\<exists>s u t. (sstep api)\<^sup>*\<^sup>* (NewManager h n rdb) s \<and> sv_Rooms s r = Some {ClientPtr 0} \<and>
    likes_of (sv_localLikes s) r = 5 \<and> sv_incr s = [] \<and> sv_RedisClient s = rdb \<and>
    (keeping reports api)\<^sup>*\<^sup>* s u \<and> sv_Rooms u r = None \<and> likes_of (sv_localLikes u) r = 5 \<and> sv_stats u = [] \<and>
    (keeping reports_rooms api)\<^sup>*\<^sup>* u t \<and> likes_of (sv_localLikes t) r = 0 \<and> sv_stats t = [StEnded] \<and>
    sv_incr t = [] \<and> sv_RedisClient t = rdb"
proof -
  let ?s = "liked r (NewManager h n rdb)"
  let ?u = "left (ClientPtr 0) ?s" and ?t = "forgotten r (NewManager h n rdb)"
  have s: "(sstep api)\<^sup>*\<^sup>* (NewManager h n rdb) ?s \<and> sinv ?s" by (rule run_liked [OF assms])
  then have u: "(keeping reports api)\<^sup>*\<^sup>* ?s ?u \<and> sinv ?u" by (intro run_like_left) simp
  then have t: "(keeping reports_rooms api)\<^sup>*\<^sup>* ?u ?t" by (intro run_forgotten) simp
  have "sv_Rooms ?s r = Some {ClientPtr 0}" "likes_of (sv_localLikes ?s) r = 5" "sv_incr ?s = []"
    "sv_RedisClient ?s = rdb"
    by (simp_all add: liked_def run_defs likes_of_def)
  moreover have "sv_Rooms ?u r = None" "likes_of (sv_localLikes ?u) r = 5" "sv_stats ?u = []"
    by (simp_all add: liked_def run_defs likes_of_def)
  moreover have "likes_of (sv_localLikes ?t) r = 0" "sv_stats ?t = [StEnded]" "sv_incr ?t = []"
    "sv_RedisClient ?t = rdb"
    by (simp_all add: forgotten_def liked_def run_defs likes_of_def)
  ultimately show ?thesis using s u t by (intro exI [of _ ?s] exI [of _ ?u] exI [of _ ?t]) simp
qed

theorem like_forgotten_witness:
  "\<exists>s u t. (sstep mem_api)\<^sup>*\<^sup>* (NewManager ''h'' 1 empty_rstore) s \<and> likes_of (sv_localLikes s) ''r'' = 5 \<and>
     (keeping reports mem_api)\<^sup>*\<^sup>* s u \<and> sv_Rooms u ''r'' = None \<and> likes_of (sv_localLikes u) ''r'' = 5 \<and>
     (keeping reports_rooms mem_api)\<^sup>*\<^sup>* u t \<and> likes_of (sv_localLikes t) ''r'' = 0 \<and> sv_RedisClient t = empty_rstore"
proof -
  have "''r'' \<noteq> []" by simp
  from like_forgotten [OF this, of mem_api "''h''" 1 empty_rstore] show ?thesis by (elim exE) blast
qed

text \<open>
  C38. A client can get one publication twice: the subscription goroutine of a room that was emptied
  may still take a message before it sees its context done, and when the room has been entered again
  both it and the new subscription broadcast the message.
\<close>

theorem duplicate_delivery:
  assumes "r \<noteq> []"
  shows "\<exists>s p. (sstep api)\<^sup>*\<^sup>* (NewManager h n rdb) s \<and> sv_published s = [(KeyRoomPubSub r, m)] \<and>
    ch_buf (cl_Send (sv_clients s p)) = [m, m]"
  using run_duplicate [OF assms, where api = api and h = h and n = n and rdb = rdb and m = m] by (elim exE) blast

theorem duplicate_delivery_witness:
  "\<exists>s p. (sstep mem_api)\<^sup>*\<^sup>* (NewManager ''h'' 1 empty_rstore) s \<and> sv_published s = [(KeyRoomPubSub ''r'', ''m'')] \<and>
     ch_buf (cl_Send (sv_clients s p)) = [''m'', ''m'']"
  using duplicate_delivery [of "''r''" mem_api "''h''" 1 empty_rstore "''m''"] by simp

section \<open>Redis\<close>

text \<open>
  Keys of different meaning never collide, whatever the rooms are called: the online key of a
  server in a room determines both, and is none of the likes or registry keys.
\<close>

lemma keys_distinct:
  assumes "server_ok s" and "server_ok s'"
  shows "(KeyRoomServerOnline r s = KeyRoomServerOnline r' s' \<longleftrightarrow> r = r' \<and> s = s') \<and>
    KeyRoomServerOnline r s \<noteq> KeyRoomLikes r' \<and> KeyRoomServerOnline r s \<noteq> KeyServerOfRoom r' \<and>
    KeyRoomLikes r \<noteq> KeyServerOfRoom r'"
  using assms server_key_inject [of r s r' s'] kinds_differ(1) [of r r'] kinds_differ(2) [of s r' r]
    kinds_differ(3) [of s r' r]
  unfolding server_ok_def by metis

lemma keys_distinct_example:
  "KeyRoomServerOnline ''a:online:b'' ''h-1'' \<noteq> KeyRoomServerOnline ''a'' ''h-2''"
  using keys_distinct [of "''h-1''" "''h-2''" "''a:online:b''" "''a''"] by (simp add: server_ok_def)

text \<open>
  C22. The online total: after this server's report, and as long as Redis answers, the total it
  computes is its own count plus what the other registered servers last reported, an expired or
  unreadable report counting 0.
\<close>

theorem online_total:
  assumes "redis_store api strs members" and "CHR '':'' \<notin> set host" and "0 \<le> cnt" and "cnt < 2 ^ 63"
    and "snd (rd_exec api rdb [CmdSet (KeyRoomServerOnline room (ServerID_of host n)) (show_int cnt) reportTTL,
      CmdSAdd (KeyServerOfRoom room) (ServerID_of host n)]) = None"
    and "rdb' = UpdateServerOnline api rdb room (ServerID_of host n) cnt reportTTL"
    and "rd_smembers api rdb' (KeyServerOfRoom room) = Inr ids"
    and "rd_mget api rdb' (map (KeyRoomServerOnline room) ids) = Inr vals"
  shows "fst (GetTotalOnline api rdb' room) =
    of_int cnt + (\<Sum>x \<in> members rdb (KeyServerOfRoom room) - {ServerID_of host n}. online_of strs rdb room x)"
proof -
  have "is_digit (last (ServerID_of host n))"
    using show_nat_digits [of n] by (simp add: ServerID_of_def)
  then have "ServerID_of host n \<noteq> ''likes''" "ServerID_of host n \<noteq> ''servers''"
    by (auto simp: is_digit_def)
  moreover have "CHR '':'' \<notin> set (ServerID_of host n)"
    using assms(2) show_nat_digits [of n] by (auto simp: ServerID_of_def is_digit_def)
  ultimately have "server_ok (ServerID_of host n)" by (simp add: server_ok_def)
  from redis_store.reported_total [OF assms(1) this assms(3,5-8)] show ?thesis
    using assms(4) by simp
qed

theorem online_total_witness:
  "fst (GetTotalOnline mem_api (UpdateServerOnline mem_api
     \<lparr>rs_strs = (\<lambda>_. None)(KeyRoomServerOnline ''r'' ''g-2'' := Some ''40''),
      rs_sets = (\<lambda>_. [])(KeyServerOfRoom ''r'' := [''g-2'']), rs_published = [], rs_down = False\<rparr>
     ''r'' (ServerID_of ''h'' 1) 2 reportTTL) ''r'') = 42"
proof -
  define rdb where "rdb = \<lparr>rs_strs = (\<lambda>_. None)(KeyRoomServerOnline ''r'' ''g-2'' := Some ''40''),
      rs_sets = (\<lambda>_. [])(KeyServerOfRoom ''r'' := [''g-2'']), rs_published = [], rs_down = False\<rparr>"
  have id: "ServerID_of ''h'' 1 = ''h-1''" by code_simp
  have "ParseUint ''40'' = Inr 40" by code_simp
  then have other: "online_of rs_strs rdb ''r'' ''g-2'' = 40" by (simp add: online_of_def rdb_def)
  have up: "\<not> rs_down rdb" "rs_sets rdb (KeyServerOfRoom ''r'') = [''g-2'']" by (simp_all add: rdb_def)
  then have "\<not> rs_down (UpdateServerOnline mem_api rdb ''r'' (ServerID_of ''h'' 1) 2 reportTTL)"
    by (simp add: UpdateServerOnline_def mem_api_def mem_run_def)
  then have "fst (GetTotalOnline mem_api (UpdateServerOnline mem_api rdb ''r'' (ServerID_of ''h'' 1) 2 reportTTL) ''r'') =
      of_int 2 + (\<Sum>x \<in> set (rs_sets rdb (KeyServerOfRoom ''r'')) - {ServerID_of ''h'' 1}. online_of rs_strs rdb ''r'' x)"
    using up(1) by (intro online_total [OF mem.redis_store_axioms]) (auto simp: mem_api_def)
  then show ?thesis using other by (simp add: up(2) id del: One_nat_def) (simp add: rdb_def)
qed

text \<open>
  C23. The likes a server reports arrive: with a counter of \<open>v\<close> in Redis, a report of \<open>n\<close> likes below
  2^63 leaves \<open>v + n\<close>, and that is what is read back, unless Redis refuses or fails.
\<close>

theorem likes_reported:
  assumes "redis_store api strs members" and "counter (strs rdb (KeyRoomLikes room)) = Some v" and "0 \<le> v"
    and "unat likes < 2 ^ 63" and "snd (rd_incr_by api rdb (KeyRoomLikes room) (sint likes)) = None"
    and "rd_get api (IncrRoomLikes api rdb room likes) (KeyRoomLikes room) = Inr val"
  shows "uint (GetRoomLikes api (IncrRoomLikes api rdb room likes) room) = v + uint likes"
proof -
  have "sint likes = uint likes"
    using assms(4) by (rule sint_u64_low)
  moreover have "v + sint likes < 2 ^ 63"
    using redis_store.likes_stored [OF assms(1,2,5)] by simp
  moreover have "0 \<le> uint likes" by simp
  ultimately have r: "GetRoomLikes api (IncrRoomLikes api rdb room likes) room = of_int (v + uint likes)"
    and b: "0 \<le> v + uint likes" "v + uint likes < 2 ^ 64"
    using redis_store.likes_after [OF assms(1,2,5) refl assms(6)] assms(3) by (simp_all del: of_int_add)
  show ?thesis using b unfolding r uint_word_of_int by (simp del: of_int_add)
qed

theorem likes_reported_witness:
  "uint (GetRoomLikes mem_api (IncrRoomLikes mem_api
     (empty_rstore\<lparr>rs_strs := (\<lambda>_. None)(KeyRoomLikes ''r'' := Some ''5'')\<rparr>) ''r'' 7) ''r'') = 12"
proof -
  define rdb where "rdb = empty_rstore\<lparr>rs_strs := (\<lambda>_. None)(KeyRoomLikes ''r'' := Some ''5'')\<rparr>"
  have five: "ParseInt ''5'' = Inr 5" and twelve: "show_int 12 = ''12''" by code_simp+
  have "sint (7 :: u64) = 7" by simp
  then have "uint (GetRoomLikes mem_api (IncrRoomLikes mem_api rdb ''r'' 7) ''r'') = 5 + uint (7 :: u64)"
    using twelve five
    by (intro likes_reported [OF mem.redis_store_axioms, where val = "''12''"])
      (simp_all add: rdb_def empty_rstore_def counter_def mem_api_def IncrRoomLikes_def)
  then show ?thesis by (simp add: rdb_def)
qed

text \<open>
  A count of 2^63 or more, which a client may send, is turned into a negative number on the way to
  Redis: the stored counter of the room goes down.
\<close>

lemma huge_like_subtracts:
  assumes "redis_store api strs members" and "counter (strs rdb (KeyRoomLikes room)) = Some v"
    and "2 ^ 63 \<le> unat likes" and "snd (rd_incr_by api rdb (KeyRoomLikes room) (sint likes)) = None"
  shows "\<exists>v'. strs (IncrRoomLikes api rdb room likes) (KeyRoomLikes room) = Some (show_int v') \<and> v' < v"
proof -
  have "sint likes < 0" using assms(3) by (rule sint_u64_high)
  then show ?thesis using redis_store.likes_stored [OF assms(1,2,4)] by auto
qed

lemma huge_like_subtracts_example:
  "\<exists>v'. rs_strs (IncrRoomLikes mem_api
      (empty_rstore\<lparr>rs_strs := (\<lambda>_. None)(KeyRoomLikes ''r'' := Some ''5'')\<rparr>) ''r'' 9223372036854775808)
      (KeyRoomLikes ''r'') = Some (show_int v') \<and> v' < 5"
proof -
  have five: "ParseInt ''5'' = Inr 5" by code_simp
  have low: "sint (9223372036854775808 :: u64) = - 9223372036854775808" by simp
  show ?thesis
    by (rule huge_like_subtracts [OF mem.redis_store_axioms])
      (simp_all add: five low empty_rstore_def counter_def mem_api_def)
qed

end
