(* ===== verification/Url.thy ===== *)
theory Url
  imports Prelude "HOL-Library.Multiset" "HOL-Library.List_Lexorder" "HOL-Library.Char_ord"
begin

text \<open>
  What the code uses of \<open>net/url\<close>: the query of a URL as the clients build it (\<open>Values.Set\<close>,
  \<open>Values.Encode\<close>) and as gin reads it (\<open>URL.Query\<close>, \<open>Values.Get\<close>). Strings are bytes.
\<close>

section \<open>Escaping\<close>

text \<open>Letters, digits and four marks stay as they are.\<close>

definition between :: "char \<Rightarrow> char \<Rightarrow> char \<Rightarrow> bool" where
  "between lo hi c \<longleftrightarrow> lo \<le> c \<and> c \<le> hi"

definition unreserved :: "char \<Rightarrow> bool" where
  "unreserved c \<longleftrightarrow>
     between (CHR ''0'') (CHR ''9'') c \<or> between (CHR ''A'') (CHR ''Z'') c \<or>
     between (CHR ''a'') (CHR ''z'') c \<or> c \<in> set ''-_.~''"

definition upper_hex :: "nat \<Rightarrow> char" where
  "upper_hex n = ''0123456789ABCDEF'' ! n"

definition escape_char :: "char \<Rightarrow> string" where
  "escape_char c =
     (if unreserved c then [c]
      else if c = CHR '' '' then ''+''
      else [CHR ''%'', upper_hex (of_char c div 16), upper_hex (of_char c mod 16)])"

definition QueryEscape :: "string \<Rightarrow> string" where
  "QueryEscape s = concat (map escape_char s)"

definition unhex :: "char \<Rightarrow> nat option" where
  "unhex c =
     (if between (CHR ''0'') (CHR ''9'') c then Some (of_char c - 48)
      else if between (CHR ''a'') (CHR ''f'') c then Some (of_char c - 87)
      else if between (CHR ''A'') (CHR ''F'') c then Some (of_char c - 55)
      else None)"

text \<open>\<open>None\<close> is an \<open>EscapeError\<close>.\<close>

fun QueryUnescape :: "string \<Rightarrow> string option" where
  "QueryUnescape [] = Some []"
| "QueryUnescape (c # s) =
     (if c = CHR ''%'' then
        (case s of
           h # l # rest \<Rightarrow>
             (case (unhex h, unhex l) of
                (Some a, Some b) \<Rightarrow> map_option ((#) (char_of (16 * a + b))) (QueryUnescape rest)
              | _ \<Rightarrow> None)
         | _ \<Rightarrow> None)
      else map_option ((#) (if c = CHR ''+'' then CHR '' '' else c)) (QueryUnescape s))"

section \<open>Queries\<close>

text \<open>
  The values a client sets, each key once; \<open>Encode\<close> sorts them by their keys.
\<close>

definition encode_pair :: "string \<times> string \<Rightarrow> string" where
  "encode_pair kv = QueryEscape (fst kv) @ CHR ''='' # QueryEscape (snd kv)"

fun join_with :: "char \<Rightarrow> string list \<Rightarrow> string" where
  "join_with sep [] = []"
| "join_with sep [x] = x"
| "join_with sep (x # xs) = x @ sep # join_with sep xs"

definition Encode :: "(string \<times> string) list \<Rightarrow> string" where
  "Encode kvs = join_with CHR ''&'' (map encode_pair (sort_key fst kvs))"

text \<open>\<open>strings.Cut\<close>, and all the pieces between separators.\<close>

fun cut_at :: "char \<Rightarrow> string \<Rightarrow> string \<times> string option" where
  "cut_at sep [] = ([], None)"
| "cut_at sep (c # s) =
     (if c = sep then ([], Some s)
      else (case cut_at sep s of (a, b) \<Rightarrow> (c # a, b)))"

fun split_at :: "char \<Rightarrow> string \<Rightarrow> string list" where
  "split_at sep [] = [[]]"
| "split_at sep (c # s) =
     (if c = sep then [] # split_at sep s
      else (case split_at sep s of
              [] \<Rightarrow> [[c]]
            | x # xs \<Rightarrow> (c # x) # xs))"

text \<open>
  One piece of a query: an empty one, one with a semicolon and one that cannot be unescaped is
  passed over (\<open>URL.Query\<close> drops the error); without a \<open>=\<close> the value is empty.
\<close>

definition query_piece :: "string \<Rightarrow> (string \<times> string) option" where
  "query_piece piece =
     (if piece = [] \<or> CHR '';'' \<in> set piece then None
      else (case cut_at CHR ''='' piece of
              (k, v) \<Rightarrow>
                (case (QueryUnescape k, QueryUnescape (case v of None \<Rightarrow> [] | Some w \<Rightarrow> w)) of
                   (Some k', Some v') \<Rightarrow> Some (k', v')
                 | _ \<Rightarrow> None)))"

definition parse_query :: "string \<Rightarrow> (string \<times> string) list" where
  "parse_query raw = List.map_filter query_piece (split_at CHR ''&'' raw)"

text \<open>The first value of a key, and the empty string for a key that is absent.\<close>

definition query_get :: "(string \<times> string) list \<Rightarrow> string \<Rightarrow> string" where
  "query_get kvs key = (case map_of kvs key of None \<Rightarrow> [] | Some v \<Rightarrow> v)"

section \<open>Escaping is undone\<close>

lemma unhex_upper: "n < 16 \<Longrightarrow> unhex (upper_hex n) = Some n"
proof -
  have "\<forall>n \<in> set [0..<16]. unhex (upper_hex n) = Some n" by code_simp
  then show "n < 16 \<Longrightarrow> unhex (upper_hex n) = Some n" by auto
qed

definition escaped :: "char \<Rightarrow> bool" where
  "escaped c \<longleftrightarrow> unreserved c \<or> c = CHR ''+'' \<or> c = CHR ''%''"

lemma upper_hex_unreserved: "n < 16 \<Longrightarrow> unreserved (upper_hex n)"
proof -
  have "\<forall>n \<in> set [0..<16]. unreserved (upper_hex n)" by code_simp
  then show "n < 16 \<Longrightarrow> unreserved (upper_hex n)" by auto
qed

lemma of_char_less: "(of_char c :: nat) < 256"
  by simp

lemma escape_char_escaped: "x \<in> set (escape_char c) \<Longrightarrow> escaped x"
  using of_char_less [of c]
  by (auto simp: escape_char_def escaped_def upper_hex_unreserved less_mult_imp_div_less split: if_splits)

lemma QueryEscape_escaped: "x \<in> set (QueryEscape s) \<Longrightarrow> escaped x"
  by (auto simp: QueryEscape_def dest: escape_char_escaped)

lemma escaped_not_special: "\<not> escaped CHR ''&''" "\<not> escaped CHR ''=''" "\<not> escaped CHR '';''"
  by code_simp+

lemma special_not_in: "CHR ''&'' \<notin> set (QueryEscape s)" "CHR ''='' \<notin> set (QueryEscape s)"
  "CHR '';'' \<notin> set (QueryEscape s)"
  using QueryEscape_escaped escaped_not_special by blast+

lemma unreserved_not: "\<not> unreserved CHR ''%''" "\<not> unreserved CHR ''+''"
  by code_simp+

lemma unescape_char: "QueryUnescape (escape_char c @ s) = map_option ((#) c) (QueryUnescape s)"
proof -
  define h l where "h = (of_char c :: nat) div 16" and "l = (of_char c :: nat) mod 16"
  have "16 * h + l = of_char c" by (simp add: h_def l_def)
  then have c: "char_of (16 * h + l) = c" by simp
  have b: "h < 16" "l < 16" using of_char_less [of c] by (simp_all add: h_def l_def less_mult_imp_div_less)
  consider "unreserved c" | "\<not> unreserved c" "c = CHR '' ''" | "\<not> unreserved c" "c \<noteq> CHR '' ''" by blast
  then show ?thesis
  proof cases
    case 1
    then show ?thesis using unreserved_not by (auto simp: escape_char_def)
  next
    case 2
    then show ?thesis by (simp add: escape_char_def)
  next
    case 3
    then have "escape_char c = [CHR ''%'', upper_hex h, upper_hex l]"
      by (simp add: escape_char_def h_def l_def)
    then show ?thesis using b by (simp add: unhex_upper c)
  qed
qed

lemma unescape_escape: "QueryUnescape (QueryEscape s) = Some s"
proof (induction s)
  case (Cons c s)
  have "QueryEscape (c # s) = escape_char c @ QueryEscape s" by (simp add: QueryEscape_def)
  then show ?case using Cons by (simp add: unescape_char)
qed (simp add: QueryEscape_def)

section \<open>Parsing undoes encoding\<close>

lemma cut_at_first: "sep \<notin> set a \<Longrightarrow> cut_at sep (a @ sep # b) = (a, Some b)"
  by (induction a) auto

lemma cut_at_shorter: "cut_at sep s = (a, Some b) \<Longrightarrow> length b < length s"
  by (induction s arbitrary: a) (auto split: if_splits prod.splits)

lemma cut_at_none: "sep \<notin> set a \<Longrightarrow> cut_at sep a = (a, None)"
  by (induction a) auto

lemma split_at_none: "sep \<notin> set a \<Longrightarrow> split_at sep a = [a]"
  by (induction a) auto

lemma split_at_first: "sep \<notin> set a \<Longrightarrow> split_at sep (a @ sep # b) = a # split_at sep b"
  by (induction a) auto

lemma split_join: "xs \<noteq> [] \<Longrightarrow> \<forall>x \<in> set xs. sep \<notin> set x \<Longrightarrow> split_at sep (join_with sep xs) = xs"
  by (induction sep xs rule: join_with.induct) (simp_all add: split_at_none split_at_first)

lemma piece_encode: "query_piece (encode_pair kv) = Some kv"
  using special_not_in
  by (cases kv) (simp add: query_piece_def encode_pair_def cut_at_first unescape_escape)

lemma parse_encode:
  assumes "kvs \<noteq> []"
  shows "parse_query (Encode kvs) = sort_key fst kvs"
proof -
  have "CHR ''&'' \<notin> set (encode_pair kv)" for kv
    using special_not_in by (simp add: encode_pair_def)
  then have "split_at CHR ''&'' (Encode kvs) = map encode_pair (sort_key fst kvs)"
    unfolding Encode_def using assms by (intro split_join) (auto simp flip: set_empty2)
  then show ?thesis
    by (simp add: parse_query_def map_filter_def comp_def piece_encode)
qed

lemma map_of_sort_key:
  assumes "distinct (map fst kvs)"
  shows "map_of (sort_key fst kvs) = map_of kvs"
proof -
  have "mset (map fst (sort_key fst kvs)) = mset (map fst kvs)" by simp
  then have "distinct (map fst (sort_key fst kvs))" using assms mset_eq_imp_distinct_iff by blast
  then show ?thesis using assms by (simp add: map_of_inject_set)
qed

text \<open>What a client sets under distinct keys is what the server gets.\<close>

lemma get_encoded:
  assumes "kvs \<noteq> []" and "distinct (map fst kvs)"
  shows "query_get (parse_query (Encode kvs)) key = (case map_of kvs key of None \<Rightarrow> [] | Some v \<Rightarrow> v)"
  by (simp add: query_get_def parse_encode [OF assms(1)] map_of_sort_key [OF assms(2)])

end
