(* ===== verification/WebApi.thy ===== *)
theory WebApi
  imports Client Url
begin

text \<open>
  What is around the connection API: the URLs the clients dial, the route and the address of
  \<open>cmd/server/main.go\<close>, and how the handler of \<open>internal/api/chat_handler.go\<close> reads a request.
  The HTTP and websocket libraries carry the method, the path and the raw query from one side to
  the other; whether the handshake succeeds is an argument.
\<close>

section \<open>The server's side\<close>

definition default_port :: string where "default_port = ''8080''"

definition listen_addr :: "string \<Rightarrow> string" where
  "listen_addr port = '':'' @ port"

text \<open>The routes \<open>main\<close> gives the router.\<close>

definition server_routes :: "(string \<times> string) list" where
  "server_routes = [(''GET'', ''/ws'')]"

text \<open>The upgrader lets every origin in.\<close>

definition CheckOrigin :: "string \<Rightarrow> bool" where
  "CheckOrigin origin = True"

text \<open>\<open>c.Query\<close> of the three parameters.\<close>

definition connect_params :: "string \<Rightarrow> connect_query" where
  "connect_params rawQuery =
     (let q = parse_query rawQuery
      in \<lparr>cq_uid = query_get q ''uid'', cq_name = query_get q ''name'', cq_room = query_get q ''room''\<rparr>)"

definition handle_connect :: "string \<Rightarrow> string \<Rightarrow> bool \<Rightarrow> connect_result" where
  "handle_connect origin rawQuery handshake =
     ConnectWebSocket (connect_params rawQuery) (handshake \<and> CheckOrigin origin)"

section \<open>The clients' side\<close>

record url =
  u_Scheme :: string
  u_Host :: string
  u_Path :: string
  u_RawQuery :: string

text \<open>Both clients build their URL in the same way; \<open>Set\<close> is given each key once.\<close>

definition ws_url :: "string \<Rightarrow> string \<Rightarrow> string \<Rightarrow> string \<Rightarrow> url" where
  "ws_url host uid name room =
     \<lparr>u_Scheme = ''ws'', u_Host = host, u_Path = ''/ws'',
      u_RawQuery = Encode [(''uid'', uid), (''name'', name), (''room'', room)]\<rparr>"

text \<open>What the server reads is what the client set, whatever bytes there are in it.\<close>

lemma connect_params_url:
  "connect_params (u_RawQuery (ws_url host uid name room)) = \<lparr>cq_uid = uid, cq_name = name, cq_room = room\<rparr>"
  by (simp add: connect_params_def ws_url_def get_encoded Let_def)

lemma ws_url_routed: "(''GET'', u_Path (ws_url host uid name room)) \<in> set server_routes"
  by (simp add: ws_url_def server_routes_def)

text \<open>Which requests are accepted, in terms of the query.\<close>

lemma handle_connect_accepts:
  "handle_connect origin raw handshake = Connected c \<longleftrightarrow>
     handshake \<and> query_get (parse_query raw) ''room'' \<noteq> [] \<and>
     (\<exists>n. ParseUint (query_get (parse_query raw) ''uid'') = Inr n \<and>
        c = NewClient (of_nat n) (query_get (parse_query raw) ''name'') (query_get (parse_query raw) ''room''))"
  by (simp add: handle_connect_def Connected_NewClient connect_params_def CheckOrigin_def Let_def)

end
