(* ===== verification/CliClient.thy ===== *)
theory CliClient
  imports Manager Decoded WebApi
begin

text \<open>
  \<open>cmd/client/main.go\<close>, the command line client: what it asks for when it connects, what a line typed
  at the keyboard sends, and what a message from the server shows. The websocket library writes the
  JSON encoding of a packet, which may end with white space (\<open>tail\<close>).
\<close>

section \<open>Connecting\<close>

text \<open>The flags, and \<open>time.Now().UnixNano()\<close>; the user's name is the id.\<close>

definition client_url :: "string \<Rightarrow> string \<Rightarrow> string \<Rightarrow> int \<Rightarrow> url" where
  "client_url port uid room now =
     (let uid' = (if uid = [] then show_int now else uid)
      in ws_url (''127.0.0.1:'' @ port) uid' uid' room)"

definition default_room :: string where "default_room = ''1001''"

section \<open>Sending\<close>

text \<open>
  \<open>data\<close> is what \<open>json.Marshal\<close> made of the payload, a nil slice if it failed. A packet that cannot be
  marshalled is logged and not sent.
\<close>

definition sendPacket :: "int \<Rightarrow> string option \<Rightarrow> string \<Rightarrow> string option" where
  "sendPacket msgType data tail =
     map_option (\<lambda>t. t @ tail) (marshal_WsPacket \<lparr>wp_Type = msgType, wp_RoomID = [], wp_Data = data\<rparr>)"

definition keyboard_line :: "string \<Rightarrow> string \<Rightarrow> string option" where
  "keyboard_line text tail =
     (if text = ''1'' then sendPacket ActionLike (Some ''null'') tail
      else sendPacket TypeDanmaku (marshal_DanmakuMessage (zero_danmaku\<lparr>dm_Content := text\<rparr>)) tail)"

section \<open>Reading the keyboard\<close>

text \<open>
  \<open>bufio.Scanner\<close> with its default split function: lines end with a line feed, the last one may end with
  the input; a line of \<open>MaxScanTokenSize\<close> bytes or after does not fit the buffer, and the scanner
  stops there for good. A carriage return at the end of a line is dropped.
\<close>

definition MaxScanTokenSize :: nat where "MaxScanTokenSize = 65536"

definition newline :: char where "newline = CHR 0x0A"

definition drop_cr :: "string \<Rightarrow> string" where
  "drop_cr line = (if line \<noteq> [] \<and> last line = CHR 0x0D then butlast line else line)"

function scan_lines :: "string \<Rightarrow> string list" where
  "scan_lines input =
     (if input = [] then []
      else (case cut_at newline input of
              (line, rest) \<Rightarrow>
                if MaxScanTokenSize \<le> length line then []
                else drop_cr line # (case rest of None \<Rightarrow> [] | Some after \<Rightarrow> scan_lines after)))"
  by pat_completeness auto

termination
  by (relation "measure length") (auto dest: cut_at_shorter [OF sym])

declare scan_lines.simps [simp del]

text \<open>The goroutine that reads the keyboard: the texts it writes to the socket.\<close>

definition keyboard_loop :: "string \<Rightarrow> string \<Rightarrow> string list" where
  "keyboard_loop input tail = List.map_filter (\<lambda>text. keyboard_line text tail) (scan_lines input)"

section \<open>Receiving\<close>

datatype screen_line = LiveChat string | StatsLine int int | InputPrompt

text \<open>An error of the inner \<open>Unmarshal\<close> is not looked at.\<close>

definition show_message :: "string \<Rightarrow> screen_line list" where
  "show_message message =
     (case unmarshal_WsPacket message of
        (_, Some err) \<Rightarrow> []
      | (packet, None) \<Rightarrow>
          (if wp_Type packet = TypeDanmaku then
             [LiveChat (dm_Content (fst (unmarshal_DanmakuMessage (raw_bytes (wp_Data packet)))))]
           else if wp_Type packet = TypeStats then
             (let stats = fst (unmarshal_StatsData (raw_bytes (wp_Data packet)))
              in [StatsLine (sint (sd_Online stats)) (sint (sd_Likes stats))])
           else []) @ [InputPrompt])"

text \<open>The goroutine that reads the socket, until a read fails.\<close>

definition receive_loop :: "string list \<Rightarrow> screen_line list" where
  "receive_loop messages = concat (map show_message messages)"

text \<open>What ends \<open>main\<close>: the socket is gone, or an interrupt, which is followed by a close frame.\<close>

datatype client_event = Disconnected | Interrupted

datatype close_frame = CloseMessage nat string

definition CloseNormalClosure :: nat where "CloseNormalClosure = 1000"

definition client_exit :: "client_event \<Rightarrow> close_frame list" where
  "client_exit ev =
     (case ev of
        Disconnected \<Rightarrow> []
      | Interrupted \<Rightarrow> [CloseMessage CloseNormalClosure []])"

section \<open>Facts\<close>

lemma payload_null: "payload ''null''"
proof -
  have "stable ''null''" by (simp add: stable_def compact_loop.simps is_ws_def)
  then show ?thesis
    unfolding payload_def using jtext_null by (intro conjI exI [of _ 1] exI [of _ 0]) simp_all
qed

lemma sendPacket_arrives:
  assumes "payload v" and "skip_ws tail = []" and "int64 ty"
  shows "\<exists>msg. sendPacket ty (Some v) tail = Some msg \<and>
    unmarshal_WsPacket msg = (\<lparr>wp_Type = ty, wp_RoomID = [], wp_Data = Some v\<rparr>, None)"
proof -
  have "packet_ok \<lparr>wp_Type = ty, wp_RoomID = [], wp_Data = Some v\<rparr>"
    using assms by (simp add: packet_ok_def carries_def int64_def)
  from packet_roundtrip_tail [OF this] assms(2) show ?thesis by (auto simp: sendPacket_def)
qed

lemma typed_danmaku:
  assumes "text \<noteq> ''1''" and "skip_ws tail = []"
  shows "\<exists>msg packet. keyboard_line text tail = Some msg \<and> unmarshal_WsPacket msg = (packet, None) \<and>
    wp_Type packet = TypeDanmaku \<and>
    unmarshal_DanmakuMessage (raw_bytes (wp_Data packet)) = (zero_danmaku\<lparr>dm_Content := clean text\<rparr>, None)"
proof -
  let ?m = "zero_danmaku\<lparr>dm_Content := text\<rparr>"
  have time: "valid_time (dm_SendTime ?m)" by (simp add: zero_danmaku_def)
  have m: "clean_danmaku ?m = zero_danmaku\<lparr>dm_Content := clean text\<rparr>" by (simp add: clean_danmaku_def zero_danmaku_def)
  let ?v = "object_text (danmaku_members ?m)"
  obtain msg where "sendPacket TypeDanmaku (Some ?v) tail = Some msg"
    "unmarshal_WsPacket msg = (\<lparr>wp_Type = TypeDanmaku, wp_RoomID = [], wp_Data = Some ?v\<rparr>, None)"
    using sendPacket_arrives [OF danmaku_payload assms(2), of TypeDanmaku]
    by (auto simp: int64_def TypeDanmaku_def)
  then show ?thesis
    using assms(1) marshal_danmaku_text [OF time] unmarshal_danmaku_text [OF time] m
    by (intro exI [of _ msg] exI [of _ "\<lparr>wp_Type = TypeDanmaku, wp_RoomID = [], wp_Data = Some ?v\<rparr>"])
      (simp add: keyboard_line_def raw_bytes_def)
qed

lemma typed_like:
  assumes "skip_ws tail = []"
  shows "\<exists>msg. keyboard_line ''1'' tail = Some msg \<and>
    unmarshal_WsPacket msg = (\<lparr>wp_Type = ActionLike, wp_RoomID = [], wp_Data = Some ''null''\<rparr>, None)"
  using sendPacket_arrives [OF payload_null assms, of ActionLike]
  by (simp add: keyboard_line_def int64_def ActionLike_def)

lemma show_danmaku:
  assumes "marshal_WsPacket \<lparr>wp_Type = TypeDanmaku, wp_RoomID = r, wp_Data = Some v\<rparr> = Some t"
    and "payload v" and "unmarshal_DanmakuMessage v = (m, None)"
  shows "show_message t = [LiveChat (dm_Content m), InputPrompt]"
proof -
  have "carries \<lparr>wp_Type = TypeDanmaku, wp_RoomID = r, wp_Data = Some v\<rparr>"
    using assms(2) by (simp add: carries_def TypeDanmaku_def)
  then have "unmarshal_WsPacket t = (\<lparr>wp_Type = TypeDanmaku, wp_RoomID = clean r, wp_Data = Some v\<rparr>, None)"
    using packet_cleaned assms(1) by (fastforce simp: clean_packet_def)
  then show ?thesis using assms(3) by (simp add: show_message_def raw_bytes_def)
qed

lemma show_stats:
  assumes "marshal_WsPacket (stats_packet r st) = Some t"
  shows "show_message t = [StatsLine (sint (sd_Online st)) (sint (sd_Likes st)), InputPrompt]"
proof -
  have "carries (stats_packet r st)"
    using stats_payload by (simp add: carries_def stats_packet_def TypeStats_def)
  then have "unmarshal_WsPacket t = (clean_packet (stats_packet r st), None)"
    using packet_cleaned assms(1) by fastforce
  then show ?thesis
    using stats_roundtrip
    by (simp add: clean_packet_def show_message_def stats_packet_def raw_bytes_def TypeStats_def TypeDanmaku_def Let_def)
qed

text \<open>
  What the server reads in a message sent for a line: a like for the line 1, the line as a danmaku's
  text otherwise, with what is not UTF-8 in it replaced.
\<close>

definition conveys :: "string \<Rightarrow> string \<Rightarrow> bool" where
  "conveys line msg \<longleftrightarrow>
     (case unmarshal_WsPacket msg of
        (packet, err) \<Rightarrow>
          err = None \<and>
          (if line = ''1'' then wp_Type packet = ActionLike
           else wp_Type packet = TypeDanmaku \<and>
             unmarshal_DanmakuMessage (raw_bytes (wp_Data packet)) = (zero_danmaku\<lparr>dm_Content := clean line\<rparr>, None)))"

lemma line_conveyed:
  assumes "skip_ws tail = []"
  shows "\<exists>msg. keyboard_line line tail = Some msg \<and> conveys line msg"
proof (cases "line = ''1''")
  case True
  then show ?thesis using typed_like [OF assms] by (auto simp: conveys_def)
next
  case False
  with typed_danmaku [OF False assms] show ?thesis by (auto simp: conveys_def)
qed

lemma lines_conveyed:
  assumes "skip_ws tail = []"
  shows "list_all2 conveys lines (List.map_filter (\<lambda>l. keyboard_line l tail) lines)"
proof (induction lines)
  case (Cons line lines)
  obtain msg where "keyboard_line line tail = Some msg" "conveys line msg"
    using line_conveyed [OF assms] by blast
  with Cons show ?case by (simp add: map_filter_simps)
qed (simp add: map_filter_simps)

text \<open>Short lines are read one by one; a line that is too long ends the scanner.\<close>

definition short_line :: "string \<Rightarrow> bool" where
  "short_line l \<longleftrightarrow> newline \<notin> set l \<and> length l < MaxScanTokenSize"

lemma scan_line: "short_line l \<Longrightarrow> scan_lines (l @ newline # after) = drop_cr l # scan_lines after"
  by (subst scan_lines.simps) (auto simp: short_line_def cut_at_first)

lemma cut_at_length: "newline \<notin> set l \<Longrightarrow> length l \<le> length (fst (cut_at newline (l @ after)))"
  by (induction l) (auto split: prod.splits)

lemma scan_too_long:
  assumes "newline \<notin> set l" and "MaxScanTokenSize \<le> length l"
  shows "scan_lines (l @ after) = []"
  using cut_at_length [OF assms(1), of after] assms(2)
  by (subst scan_lines.simps) (auto split: prod.splits)

lemma scan_all: "list_all short_line ls \<Longrightarrow>
    scan_lines (concat (map (\<lambda>l. l @ [newline]) ls) @ rest) = map drop_cr ls @ scan_lines rest"
  by (induction ls) (simp_all add: scan_line)

text \<open>Without flags the client is accepted, with the clock's reading as its id and its name.\<close>

lemma default_client_accepted:
  "0 \<le> now \<Longrightarrow> now < 2 ^ 63 \<Longrightarrow>
   handle_connect origin (u_RawQuery (client_url default_port [] default_room now)) True =
   Connected (NewClient (of_int now) (show_int now) ''1001'')"
  by (simp add: handle_connect_def CheckOrigin_def client_url_def connect_params_url ConnectWebSocket_def
      default_room_def show_int_def Let_def nat_le_iff)

section \<open>The properties\<close>

text \<open>
  C28. The command line client reaches the room it was told to: the query it encodes, with any bytes in
  the id and the room, is decoded by the server to exactly these, so that its request is accepted if
  and only if the handshake succeeds, the room is not empty and the id is a decimal number of 64
  bits (an empty one is replaced by the clock), and the client is then that user in that room.
\<close>

theorem dialled_room_joined:
  assumes "uid \<noteq> []"
  shows "handle_connect origin (u_RawQuery (client_url port uid room now)) handshake = Connected c \<longleftrightarrow>
    handshake \<and> room \<noteq> [] \<and> list_all is_digit uid \<and> digits_val uid \<le> 18446744073709551615 \<and>
    c = NewClient (of_nat (digits_val uid)) uid room"
  using assms
  by (auto simp: handle_connect_def CheckOrigin_def client_url_def connect_params_url Connected_NewClient
      ParseUint_iff list_all_iff Let_def)

theorem dialled_room_joined_witness:
  "handle_connect ''any'' (u_RawQuery (client_url ''8080'' ''7'' ''a&room=b c'' 0)) True =
     Connected (NewClient 7 ''7'' ''a&room=b c'')"
proof -
  have "digits_val ''7'' = 7" by code_simp
  then show ?thesis
    using dialled_room_joined [of "''7''" "''any''" "''8080''" "''a&room=b c''" 0 True "NewClient 7 ''7'' ''a&room=b c''"]
    by (simp add: is_digit_def)
qed

text \<open>
  C39. The keyboard. For every line typed that is shorter than 64 KiB the client sends exactly one
  message, in the order typed, in which the server reads a like if the line is 1 and otherwise a
  danmaku with the line as its text (a carriage return at the end of the line is dropped, and what
  is not UTF-8 is replaced). But the first line of 64 KiB or more silences the client: neither it nor
  anything typed after it is ever sent.
\<close>

theorem long_line_silences:
  assumes "list_all (\<lambda>l. newline \<notin> set l \<and> length l < 65536) ls" and "skip_ws tail = []"
    and "newline \<notin> set long" and "65536 \<le> length long"
  shows "\<exists>msgs. list_all2 conveys (map drop_cr ls) msgs \<and>
    keyboard_loop (concat (map (\<lambda>l. l @ [newline]) ls)) tail = msgs \<and>
    keyboard_loop (concat (map (\<lambda>l. l @ [newline]) ls) @ long @ rest) tail = msgs"
proof -
  let ?msgs = "List.map_filter (\<lambda>l. keyboard_line l tail) (map drop_cr ls)"
  have short: "list_all short_line ls"
    using assms(1) by (simp add: short_line_def [abs_def] MaxScanTokenSize_def)
  have "keyboard_loop (concat (map (\<lambda>l. l @ [newline]) ls)) tail = ?msgs"
    using scan_all [OF short, of "[]"] by (simp add: keyboard_loop_def scan_lines.simps [of "[]"])
  moreover have "keyboard_loop (concat (map (\<lambda>l. l @ [newline]) ls) @ long @ rest) tail = ?msgs"
    using scan_all [OF short, of "long @ rest"] scan_too_long [OF assms(3), of rest] assms(4)
    by (simp add: keyboard_loop_def MaxScanTokenSize_def)
  ultimately show ?thesis using lines_conveyed [OF assms(2), of "map drop_cr ls"] by blast
qed

theorem long_line_silences_witness:
  "\<exists>like chat. keyboard_loop
       (''1'' @ newline # ''hi'' @ CHR 0x0D # newline # replicate 65536 CHR ''a'' @ newline # ''bye'') [] = [like, chat] \<and>
     conveys ''1'' like \<and> conveys ''hi'' chat"
proof -
  have tail: "skip_ws [] = []" by code_simp
  have "list_all (\<lambda>l. newline \<notin> set l \<and> length l < 65536) [''1'', ''hi'' @ [CHR 0x0D]]"
    by (simp add: newline_def)
  moreover have "newline \<notin> set (replicate 65536 CHR ''a'')" "65536 \<le> length (replicate 65536 CHR ''a'')"
    by (simp_all add: newline_def)
  moreover have "map drop_cr [''1'', ''hi'' @ [CHR 0x0D]] = [''1'', ''hi'']" by (simp add: drop_cr_def)
  ultimately show ?thesis
    using long_line_silences [OF _ tail, of "[''1'', ''hi'' @ [CHR 0x0D]]" "replicate 65536 CHR ''a''"
        "newline # ''bye''"]
    by (auto simp: list_all2_Cons1)
qed

end
