(* ===== verification/Columns.thy ===== *)
theory Columns
  imports ManagerThms CliClient
begin

text \<open>
  The widths of the columns the danmaku are stored in, which the GORM tags of \<open>model/message.go\<close> fix
  and no code looks at: what one danmaku that does not fit does to the batch it is in.
\<close>

section \<open>Widths\<close>

text \<open>
  The columns are \<open>varchar(50)\<close> and \<open>varchar(500)\<close>; MySQL counts characters. Spaces at the end do
  not make a value too long: MySQL cuts those beyond the width off, with a warning, and stores the
  rest.
\<close>

definition RoomIDColumn :: nat where "RoomIDColumn = 50"
definition ContentColumn :: nat where "ContentColumn = 500"

definition fits_column :: "nat \<Rightarrow> string \<Rightarrow> bool" where
  "fits_column width s \<longleftrightarrow> list_all (\<lambda>r. r = '' '') (drop width (runes s))"

definition fits_columns :: "DanmakuMessage \<Rightarrow> bool" where
  "fits_columns m \<longleftrightarrow>
     fits_column RoomIDColumn (dm_RoomID m) \<and> fits_column ContentColumn (dm_Content m)"

lemma short_fits: "length (runes s) \<le> width \<Longrightarrow> fits_column width s"
  by (simp add: fits_column_def)

text \<open>
  MySQL in its default (strict) mode refuses a statement with a value that is too long for its
  column, where something else than spaces would be cut off.
\<close>

definition strict_columns :: "('db, 'e) insert_op \<Rightarrow> bool" where
  "strict_columns ins \<longleftrightarrow>
     (\<forall>db b n db' m. ins db b n = (db', None) \<longrightarrow> Some m \<in> set b \<longrightarrow> fits_columns m)"

text \<open>An instance: a table of such columns.\<close>

definition strict_insert :: "(danmaku_ptr list, unit) insert_op" where
  "strict_insert db b n =
     (if list_all (\<lambda>d. case d of None \<Rightarrow> True | Some m \<Rightarrow> fits_columns m) b then (db @ b, None)
      else (db, Some ()))"

lemma strict_insert_laws: "atomic_insert strict_insert (\<lambda>rows. rows)" "strict_columns strict_insert"
  by (auto simp: atomic_insert_def strict_columns_def strict_insert_def list_all_iff split: if_splits option.splits)

section \<open>A batch with a danmaku that does not fit\<close>

lemma overlong_refused:
  assumes "strict_columns ins" and "Some m \<in> set b" and "\<not> fits_columns m"
  shows "\<exists>db' e. CreateInBatches ins db b = (db', Some e)"
proof -
  obtain db' r where r: "CreateInBatches ins db b = (db', r)" by fastforce
  moreover have "r \<noteq> None"
  proof
    assume "r = None"
    then have "ins db b (length b) = (db', None)" using r assms(2) by (auto simp: CreateInBatches_def split: if_splits)
    then show False using assms by (auto simp: strict_columns_def)
  qed
  ultimately show ?thesis by auto
qed

lemma overlong_flush_loop:
  assumes "strict_columns ins" and "Some m \<in> set b" and "\<not> fits_columns m"
  shows "snd (flush_loop ins cancelled b k db) = FlushDropped \<or> snd (flush_loop ins cancelled b k db) = FlushAborted"
proof (induction k arbitrary: db)
  case (Suc k)
  obtain db' e where "CreateInBatches ins db b = (db', Some e)" using overlong_refused [OF assms] by blast
  then show ?case using Suc.IH [of db'] by simp
qed simp

lemma overlong_flush:
  assumes "atomic_insert ins rows" and "strict_columns ins" and "Some m \<in> set b" and "\<not> fits_columns m"
    and "flushBuffer ins cancelled b db = (db', out)"
  shows "(out = FlushDropped \<or> out = FlushAborted) \<and> rows db' = rows db"
proof -
  have "b \<noteq> []" using assms(3) by auto
  then have "out = FlushDropped \<or> out = FlushAborted"
    using assms(5) overlong_flush_loop [OF assms(2-4), of cancelled MaxDBRetries db] by (simp add: flushBuffer_def)
  then show ?thesis using flushBuffer_rows [OF assms(1,5)] by auto
qed

text \<open>
  C13. One danmaku can take a whole batch with it. Nothing checks the length of a text: a danmaku a
  client sends with something else than spaces after its 500th character is accepted, goes to Kafka
  and is parsed by the consumer;
  whatever else is in the batch it ends up in, no flush of that batch, with all its retries, stores
  anything, and when no back-off is cancelled the batch is dropped.
\<close>

theorem overlong_loses_batch:
  assumes "atomic_insert ins rows" and "strict_columns ins"
    and "sv_conn s p = ConnRead"
    and "unmarshal_WsPacket msg = (packet, None)" and "wp_Type packet = TypeDanmaku"
    and "unmarshal_DanmakuMessage (raw_bytes (wp_Data packet)) = (inputMsg, None)"
    and "valid_time now"
    and "r \<in> set (drop 500 (runes (dm_Content inputMsg)))" and "r \<noteq> '' ''"
  shows "\<exists>out v m. conn_read now msg p s = set_conn p (ConnSend out) s \<and>
    sv_Kafka (handleBroadcast api k out t) = sv_Kafka t @ [(DanmakuSaveTopic, v)] \<and>
    parseMessage v = Inr (Some m) \<and> dm_Content m = dm_Content inputMsg \<and>
    (\<forall>b cancelled db. Some m \<in> set b \<longrightarrow>
       rows (fst (flushBuffer ins cancelled b db)) = rows db \<and>
       snd (flushBuffer ins cancelled b db) \<in> {FlushDropped, FlushAborted} \<and>
       ((\<forall>i. \<not> cancelled i) \<longrightarrow> snd (flushBuffer ins cancelled b db) = FlushDropped))"
proof -
  let ?m = "\<lparr>dm_ID = 0, dm_RoomID = clean (cl_RoomID (sv_clients s p)), dm_UserID = cl_UserID (sv_clients s p),
    dm_Content = dm_Content inputMsg, dm_SendTime = now\<rparr>"
  have long: "\<not> fits_columns ?m" using assms(8,9) by (auto simp: fits_columns_def fits_column_def ContentColumn_def list_all_iff)
  have "rows (fst (flushBuffer ins cancelled b db)) = rows db \<and>
      snd (flushBuffer ins cancelled b db) \<in> {FlushDropped, FlushAborted} \<and>
      ((\<forall>i. \<not> cancelled i) \<longrightarrow> snd (flushBuffer ins cancelled b db) = FlushDropped)"
    if "Some ?m \<in> set b" for b cancelled db
  proof -
    obtain db' out where f: "flushBuffer ins cancelled b db = (db', out)" by fastforce
    then show ?thesis
      using overlong_flush [OF assms(1,2) that long f] flush_aborted_cancelled [of ins cancelled b db db'] by auto
  qed
  then show ?thesis using danmaku_travels [OF assms(3-7), of api k t] by fastforce
qed

theorem overlong_loses_batch_witness:
  "\<exists>m. dm_Content m = replicate 501 CHR ''a'' \<and>
     flushBuffer strict_insert (\<lambda>_. False) [Some zero_danmaku, Some m] [] = ([], FlushDropped)"
proof -
  let ?text = "replicate 501 CHR ''a''"
  define s where "s = joined (ClientPtr 0) demo_client (NewManager ''h'' 1 empty_rstore)"
  have f: "sv_conn s (ClientPtr 0) = ConnRead" "cl_RoomID (sv_clients s (ClientPtr 0)) = ''r''"
    by (simp_all add: s_def run_defs demo_client_def)
  have utf: "valid_utf8 ''r''" "valid_utf8 ?text" by (rule valid_utf8_ascii, simp)+
  have "?text \<noteq> ''1''" by (simp add: eval_nat_numeral)
  moreover have "skip_ws [] = []" by code_simp
  ultimately obtain msg packet where msg: "unmarshal_WsPacket msg = (packet, None)" "wp_Type packet = TypeDanmaku"
    "unmarshal_DanmakuMessage (raw_bytes (wp_Data packet)) = (zero_danmaku\<lparr>dm_Content := ?text\<rparr>, None)"
    using typed_danmaku utf(2) by (metis clean_valid)
  have "drop 500 (runes ?text) = [''a'']" by (subst runes_ascii) (simp_all add: eval_nat_numeral)
  then have long: "''a'' \<in> set (drop 500 (runes (dm_Content (zero_danmaku\<lparr>dm_Content := ?text\<rparr>))))"
    "''a'' \<noteq> '' ''" by simp_all
  then obtain m where "dm_Content m = ?text" and
    m: "fst (flushBuffer strict_insert (\<lambda>_. False) [Some zero_danmaku, Some m] []) = []"
       "snd (flushBuffer strict_insert (\<lambda>_. False) [Some zero_danmaku, Some m] []) = FlushDropped"
    using overlong_loses_batch [OF strict_insert_laws f(1) msg valid_zero_time long, where api = mem_api and k = undefined and t = s] f(2) utf(1)
      valid_zero_time by auto
  then show ?thesis by (metis prod.collapse)
qed

end
