(* ===== verification/Cluster.thy ===== *)
theory Cluster
  imports ManagerThms CliClient
begin

text \<open>
  Any number of servers behind one Redis: what the manager of one publishes, Redis hands to all of
  them in one order, and nothing else is ever published. Each server moves as in \<^theory_text>\<open>ManagerSys\<close>, so
  what holds of one server holds of each; here is what holds across them.
\<close>

section \<open>The servers together\<close>

definition accept_all :: "(string \<times> string) list \<Rightarrow> 'r server \<Rightarrow> 'r server" where
  "accept_all kms s =
     s\<lparr>sv_inflight := sv_inflight s @ kms, sv_published := sv_published s @ kms\<rparr>"

text \<open>
  A step of one server that publishes nothing, or one in which a manager's loop takes a packet from
  \<open>Broadcast\<close>, with what Redis has accepted of it going to all servers.
\<close>

inductive cluster_step :: "'r redis_api \<Rightarrow> (nat \<Rightarrow> 'r server) \<Rightarrow> (nat \<Rightarrow> 'r server) \<Rightarrow> bool" for api where
  moves: "sstep api (ss i) t \<Longrightarrow> sv_published t = sv_published (ss i) \<Longrightarrow> cluster_step api ss (ss(i := t))"
| publishes: "\<not> sv_panicked (ss i) \<Longrightarrow> recv_chan (sv_Broadcast (ss i)) = Received packet ch \<Longrightarrow>
    enumerates k (wp_RoomID packet) (ss i) \<Longrightarrow>
    t = handleBroadcast api k packet ((ss i)\<lparr>sv_Broadcast := ch\<rparr>) \<Longrightarrow>
    sv_published t = sv_published (ss i) @ kms \<Longrightarrow>
    cluster_step api ss (\<lambda>j. if j = i then t else accept_all kms (ss j))"

inductive_cases cluster_stepE: "cluster_step api ss ss'"

section \<open>Each server runs as a server\<close>

lemma accept_all_simps [simp]:
  "sv_conn (accept_all kms s) = sv_conn s" "sv_clients (accept_all kms s) = sv_clients s"
  "sv_published (accept_all kms s) = sv_published s @ kms" "sv_panicked (accept_all kms s) = sv_panicked s"
  "sinv (accept_all kms s) = sinv s" "writer_ok (accept_all kms s) q = writer_ok s q"
  by (simp_all add: accept_all_def sinv_simps writer_ok_def)

lemma accept_all_snoc: "accept_all (kms @ [km]) s = redis_accepts (fst km) (snd km) (accept_all kms s)"
  by (simp add: accept_all_def redis_accepts_def)

lemma run_accept_all: "sinv s \<Longrightarrow> (sstep api)\<^sup>*\<^sup>* s (accept_all kms s)"
proof (induction kms rule: rev_induct)
  case Nil
  then show ?case by (simp add: accept_all_def)
next
  case (snoc km kms)
  have "sstep api (accept_all kms s) (accept_all (kms @ [km]) s)"
    unfolding accept_all_snoc using snoc.prems by (intro sstep_action other_publishes) (simp add: sinv_def)
  with snoc.IH [OF snoc.prems] show ?case by (rule rtranclp.rtrancl_into_rtrancl)
qed

lemma cluster_step_server: "cluster_step api ss ss' \<Longrightarrow> sinv (ss j) \<Longrightarrow> (sstep api)\<^sup>*\<^sup>* (ss j) (ss' j)"
proof (induction rule: cluster_step.induct)
  case (publishes ss i packet ch k t kms)
  then have "sstep api (ss i) t" using broadcasts by (simp add: sstep_def)
  then show ?case using publishes.prems run_accept_all by auto
qed auto

lemma cluster_run_server:
  assumes "(cluster_step api)\<^sup>*\<^sup>* ss ss'" and "\<forall>j. sinv (ss j)"
  shows "(sstep api)\<^sup>*\<^sup>* (ss j) (ss' j) \<and> (\<forall>j. sinv (ss' j))"
  using assms
proof (induction rule: rtranclp_induct)
  case (step us vs)
  then have "sinv (us j)" for j by blast
  then have "(sstep api)\<^sup>*\<^sup>* (us j) (vs j)" for j using cluster_step_server [OF step.hyps(2)] by blast
  then show ?case
    using step.IH [OF step.prems] server.run_keeps [of api] by (metis (no_types, lifting) rtranclp_trans)
qed simp

section \<open>What is published\<close>

text \<open>Every publication of the cluster is the danmaku of a connection of the room it is published to.\<close>

definition sent_by :: "(nat \<Rightarrow> 'r server) \<Rightarrow> string \<times> string \<Rightarrow> bool" where
  "sent_by ss km \<longleftrightarrow>
     (\<exists>i q content now. sv_conn (ss i) q \<noteq> ConnNone \<and> valid_utf8 content \<and> valid_time now \<and>
        fst km = KeyRoomPubSub (cl_RoomID (sv_clients (ss i) q)) \<and>
        marshal_WsPacket (danmaku_packet (sv_clients (ss i) q) content now) = Some (snd km))"

definition clinv :: "(nat \<Rightarrow> 'r server) \<Rightarrow> bool" where
  "clinv ss \<longleftrightarrow>
     (\<forall>i. sinv (ss i) \<and> finv (ss i) \<and> (\<forall>q. writer_ok (ss i) q)) \<and>
     (\<forall>i j. sv_published (ss i) = sv_published (ss j)) \<and>
     (\<forall>i. \<forall>km \<in> set (sv_published (ss i)). sent_by ss km)"

lemma clinvD:
  assumes "clinv ss"
  shows "sinv (ss i)" "finv (ss i)" "\<forall>q. writer_ok (ss i) q" "sv_published (ss i) = sv_published (ss j)"
    "km \<in> set (sv_published (ss i)) \<Longrightarrow> sent_by ss km"
  using assms unfolding clinv_def by blast+

lemma sent_by_persists:
  assumes "sent_by ss km" and "\<And>i q. sv_conn (ss i) q \<noteq> ConnNone \<Longrightarrow>
    sv_conn (ss' i) q \<noteq> ConnNone \<and> same_user (sv_clients (ss i) q) (sv_clients (ss' i) q)"
  shows "sent_by ss' km"
proof -
  obtain i q content now where c: "sv_conn (ss i) q \<noteq> ConnNone" "valid_utf8 content" "valid_time now"
    "fst km = KeyRoomPubSub (cl_RoomID (sv_clients (ss i) q))"
    "marshal_WsPacket (danmaku_packet (sv_clients (ss i) q) content now) = Some (snd km)"
    using assms(1) by (auto simp: sent_by_def)
  note same = assms(2) [OF c(1)]
  then have "cl_RoomID (sv_clients (ss' i) q) = cl_RoomID (sv_clients (ss i) q)" by (simp add: same_user_def)
  moreover have "danmaku_packet (sv_clients (ss' i) q) = danmaku_packet (sv_clients (ss i) q)"
    using same danmaku_packet_user by blast
  ultimately show ?thesis using c same unfolding sent_by_def by metis
qed

text \<open>A packet taken off \<open>Broadcast\<close> leads to at most one publication, to its room.\<close>

lemma published_by_broadcast:
  assumes "wp_Type packet = TypeDanmaku" and "sv_published (handleBroadcast api k packet s) = sv_published s @ kms"
    and "km \<in> set kms"
  shows "\<exists>v. marshal_WsPacket packet = Some v \<and> km = (KeyRoomPubSub (wp_RoomID packet), v)"
  using assms
  by (auto simp: handleBroadcast_def processDanmaku_def PushToInput_def redis_accepts_def Let_def
      split: option.splits if_splits)

lemma finv_accept_all: "finv s \<Longrightarrow> finv (accept_all kms s)"
proof (induction kms rule: rev_induct)
  case Nil
  then show ?case by (simp add: accept_all_def)
qed (simp add: accept_all_snoc finv_redis_accepts)

lemma step_same:
  "sstep api s t \<Longrightarrow> sinv s \<Longrightarrow> \<forall>q. writer_ok s q \<Longrightarrow> sv_conn s q \<noteq> ConnNone \<Longrightarrow>
   sv_conn t q \<noteq> ConnNone \<and> same_user (sv_clients s q) (sv_clients t q)"
  using saction_order [of api s t q] by (simp add: sstep_def in_order_def)

lemma server_keeps:
  "sstep api s t \<Longrightarrow> sinv s \<Longrightarrow> finv s \<Longrightarrow> \<forall>q. writer_ok s q \<Longrightarrow> sinv t \<and> finv t \<and> (\<forall>q. writer_ok t q)"
  using flow.step_keeps [of s api t] order.step_keeps [of s api t] by blast

lemma clinv_step:
  assumes "clinv ss" and "cluster_step api ss ss'"
  shows "clinv ss'"
  using assms(2)
proof cases
  case (moves i t)
  have "sinv t \<and> finv t \<and> (\<forall>q. writer_ok t q)" using server_keeps [OF moves(2) clinvD(1-3) [OF assms(1)]] .
  moreover have "sent_by ss' km" if "sent_by ss km" for km
    using that by (rule sent_by_persists)
      (use step_same [OF moves(2) clinvD(1,3) [OF assms(1)]] in \<open>auto simp: moves(1)\<close>)
  ultimately show ?thesis
    using assms(1) moves(3) unfolding clinv_def moves(1) by (auto simp: fun_upd_def)
next
  case (publishes i packet ch k t kms)
  have step: "sstep api (ss i) t" using publishes broadcasts by (simp add: sstep_def)
  have t: "sinv t \<and> finv t \<and> (\<forall>q. writer_ok t q)" using server_keeps [OF step clinvD(1-3) [OF assms(1)]] .
  have others: "sinv (accept_all kms (ss j)) \<and> finv (accept_all kms (ss j)) \<and> (\<forall>q. writer_ok (accept_all kms (ss j)) q)" for j
    using clinvD(1-3) [OF assms(1), of j] by (simp add: finv_accept_all)
  have keep: "sent_by ss' km" if "sent_by ss km" for km
    using that by (rule sent_by_persists)
      (use step_same [OF step clinvD(1,3) [OF assms(1)]] in \<open>auto simp: publishes(1)\<close>)
  have "packet \<in> packets (sv_conn (ss i)) (sv_Broadcast (ss i))"
    using chan.rcv_set [OF publishes(3)] by (auto simp: packets_def)
  then have "authentic (sv_conn (ss i)) (sv_clients (ss i)) packet"
    using clinvD(2) [OF assms(1), of i] by (simp add: finv_def)
  then obtain q content now where q: "sv_conn (ss i) q \<noteq> ConnNone" "valid_utf8 content" "valid_time now"
    "packet = danmaku_packet (sv_clients (ss i) q) content now" by (auto simp: authentic_def)
  have ty: "wp_Type packet = TypeDanmaku" "wp_RoomID packet = cl_RoomID (sv_clients (ss i) q)"
    by (simp_all add: q(4) danmaku_packet_def)
  have "sv_published (handleBroadcast api k packet ((ss i)\<lparr>sv_Broadcast := ch\<rparr>)) =
      sv_published ((ss i)\<lparr>sv_Broadcast := ch\<rparr>) @ kms" using publishes(5,6) by simp
  note published_by_broadcast [OF ty(1) this]
  then have "sent_by ss km" if "km \<in> set kms" for km
    using that q ty(2) unfolding sent_by_def by (metis fst_conv snd_conv)
  then have pub: "\<forall>km \<in> set (sv_published (ss i) @ kms). sent_by ss' km"
    using keep clinvD(5) [OF assms(1)] by auto
  have "sv_published (ss' j) = sv_published (ss i) @ kms" for j
    using publishes(1,6) clinvD(4) [OF assms(1), of j i] by simp
  then show ?thesis using t others pub unfolding clinv_def by (auto simp: publishes(1))
qed

interpretation cluster: stable_system "cluster_step api" clinv for api
  by unfold_locales (rule clinv_step)

lemma clinv_init: "clinv (\<lambda>i. NewManager (h i) (n i) (rdb i))"
  using order_init [of "h i" "n i" "rdb i" for i]
  by (simp add: clinv_def sinv_init finv_init) (simp add: NewManager_def writer_ok_def)

text \<open>What a client is sent was published to its room, or is a statistics packet.\<close>

lemma cluster_origin:
  assumes "(cluster_step api)\<^sup>*\<^sup>* (\<lambda>i. NewManager (h i) (n i) (rdb i)) ss"
    and "m \<in> set (cl_written (sv_clients (ss j) p)) \<or> m \<in> set (ch_buf (cl_Send (sv_clients (ss j) p)))"
  shows "sent_by ss (KeyRoomPubSub (cl_RoomID (sv_clients (ss j) p)), m) \<or>
    (\<exists>stats. marshal_WsPacket (stats_packet (cl_RoomID (sv_clients (ss j) p)) stats) = Some m)"
proof -
  have inv: "clinv ss" using cluster.run_keeps [OF assms(1) clinv_init] .
  have "m \<in> outgoing (sv_clients (ss j) p)" using assms(2) by (auto simp: outgoing_def)
  then have "origin (sv_published (ss j)) (cl_RoomID (sv_clients (ss j) p)) m"
    using clinvD(2) [OF inv, of j] by (simp add: finv_def)
  then show ?thesis using clinvD(5) [OF inv] by (auto simp: origin_def)
qed

section \<open>From one server to a client of another\<close>

text \<open>A run of one server that ends with nothing more published is one of the cluster.\<close>

lemma published_grows:
  assumes "saction api s t"
  shows "\<exists>kms. sv_published t = sv_published s @ kms"
  using assms
proof (induction rule: saction.induct)
  case (conn_reads s p now msg)
  obtain u out where r: "ReadPump_message RegisterActionHandlers now (sv_clients s p) s msg = (u, out)"
    by fastforce
  then obtain l where "u = s\<lparr>sv_localLikes := l\<rparr>" using handler_effect by blast
  then show ?case using r by (simp add: conn_read_def set_conn_def split: option.splits)
qed (auto simp: conn_register_def conn_unregister_def conn_send_def handleRegister_def handleUnregister_def
    cancel_sub_def handleBroadcast_def processDanmaku_def PushToInput_def broadcastToLocalClients_def set_conn_def
    set_client_def set_writer_def set_stats_def set_sub_def redis_accepts_def fan_out_def Let_def
    broadcastStats_swap_def broadcastStats_snapshot_def broadcastStats_report_def
    broadcastStats_total_def broadcastStats_publish_def subscribe_message_def subscribe_done_def
    subscribe_closed_def worker_begin_def worker_send_def worker_end_def
    split: if_splits option.splits list.splits prod.splits conn_pc.splits send_result.splits stats_pc.splits)

lemma run_published_grows: "(sstep api)\<^sup>*\<^sup>* s t \<Longrightarrow> \<exists>kms. sv_published t = sv_published s @ kms"
proof (induction rule: rtranclp_induct)
  case (step t u)
  then obtain kms where "sv_published u = sv_published t @ kms"
    using published_grows [of api t u] by (auto simp: sstep_def)
  with step.IH show ?case by auto
qed simp

lemma lift_run:
  assumes "(sstep api)\<^sup>*\<^sup>* s t" and "sv_published t = sv_published s" and "ss i = s"
  shows "(cluster_step api)\<^sup>*\<^sup>* ss (ss(i := t))"
  using assms
proof (induction rule: rtranclp_induct)
  case base
  then show ?case by (simp add: fun_upd_idem)
next
  case (step t u)
  obtain k1 k2 where "sv_published t = sv_published s @ k1" "sv_published u = sv_published t @ k2"
    using run_published_grows [OF step.hyps(1)] published_grows [of api t u] step.hyps(2) by (auto simp: sstep_def)
  then have same: "sv_published t = sv_published s" "sv_published u = sv_published t" using step.prems(1) by simp_all
  have "cluster_step api (ss(i := t)) ((ss(i := t))(i := u))"
    using step.hyps(2) same(2) by (intro moves) simp_all
  then have "cluster_step api (ss(i := t)) (ss(i := u))" by simp
  then show ?case using step.IH [OF same(1) step.prems(2)] by (meson rtranclp.rtrancl_into_rtrancl)
qed

text \<open>
  A step in which no connection comes to have a danmaku to send: what is still under way may be
  passed on, but nothing new is read.
\<close>

definition relay_step :: "'r redis_api \<Rightarrow> (nat \<Rightarrow> 'r server) \<Rightarrow> (nat \<Rightarrow> 'r server) \<Rightarrow> bool" where
  "relay_step api ss ss' \<longleftrightarrow> cluster_step api ss ss' \<and>
     (\<forall>i p packet. sv_conn (ss' i) p = ConnSend packet \<longrightarrow> sv_conn (ss i) p = ConnSend packet)"

lemma relay_run: "(relay_step api)\<^sup>*\<^sup>* ss ss' \<Longrightarrow> (cluster_step api)\<^sup>*\<^sup>* ss ss'"
  by (rule rtranclp_mono [THEN predicate2D, rotated]) (auto simp: relay_step_def)

lemma lift_relay:
  assumes "(keeping sv_conn api)\<^sup>*\<^sup>* s t" and "sv_published t = sv_published s" and "ss i = s"
  shows "(relay_step api)\<^sup>*\<^sup>* ss (ss(i := t))"
  using assms
proof (induction rule: rtranclp_induct)
  case base
  then show ?case by (simp add: fun_upd_idem)
next
  case (step t u)
  have tu: "sstep api t u" "sv_conn u = sv_conn t" using step.hyps(2) by (simp_all add: keeping_def)
  obtain k1 k2 where "sv_published t = sv_published s @ k1" "sv_published u = sv_published t @ k2"
    using run_published_grows [OF keeping_run [OF step.hyps(1)]] published_grows [of api t u] tu(1)
    by (auto simp: sstep_def)
  then have same: "sv_published t = sv_published s" "sv_published u = sv_published t" using step.prems(1) by simp_all
  have "cluster_step api (ss(i := t)) ((ss(i := t))(i := u))"
    using tu(1) same(2) by (intro moves) simp_all
  then have "relay_step api (ss(i := t)) (ss(i := u))" using tu(2) by (simp add: relay_step_def)
  then show ?case using step.IH [OF same(1) step.prems(2)] by (meson rtranclp.rtrancl_into_rtrancl)
qed

text \<open>A server with one client in a room, and nothing under way.\<close>

abbreviation guest :: "string \<Rightarrow> client" where
  "guest r \<equiv> NewClient 7 [] r"

definition quiet :: "string \<Rightarrow> 'r server \<Rightarrow> 'r server" where
  "quiet r s = joined (ClientPtr 0) (guest r) s"

lemma quiet_facts:
  "sv_conn (quiet r (NewManager h n rdb)) (ClientPtr 0) = ConnRead"
  "sv_clients (quiet r (NewManager h n rdb)) (ClientPtr 0) = guest r"
  "sv_Broadcast (quiet r (NewManager h n rdb)) = make_chan BroadcastChanSize"
  "sv_published (quiet r (NewManager h n rdb)) = []" "sv_inflight (quiet r (NewManager h n rdb)) = []"
  "sv_RedisClient (quiet r (NewManager h n rdb)) = rdb" "sv_Rooms (quiet r (NewManager h n rdb)) r = Some {ClientPtr 0}"
  "sv_subs (quiet r (NewManager h n rdb)) =
     [\<lparr>sb_RoomID = r, sb_cancelled = False, sb_inbox = [], sb_returned = False\<rparr>]"
  "sv_jobs (quiet r (NewManager h n rdb)) = new_pool" "sv_writer (quiet r (NewManager h n rdb)) (ClientPtr 0)"
  by (simp_all add: quiet_def run_defs)

lemma new_published: "sv_published (NewManager h n rdb) = []"
  by (simp add: NewManager_def)

lemma run_quiet: "r \<noteq> [] \<Longrightarrow> (sstep api)\<^sup>*\<^sup>* (NewManager h n rdb) (quiet r (NewManager h n rdb)) \<and>
    sinv (quiet r (NewManager h n rdb))"
  unfolding quiet_def by (intro run_joined sinv_init rtranclp.rtrancl_refl) (simp_all add: NewManager_def)

text \<open>A publication that has reached a quiet server is written to its client.\<close>

lemma run_quiet_delivers:
  assumes s_def: "s = accept_all [(KeyRoomPubSub r, v)] (quiet r (NewManager h n rdb))" and "r \<noteq> []"
  shows "\<exists>t. (keeping sv_conn api)\<^sup>*\<^sup>* s t \<and> sv_published t = sv_published s \<and> cl_written (sv_clients t (ClientPtr 0)) = [v]"
proof -
  let ?q = "quiet r (NewManager h n rdb)" and ?p = "ClientPtr 0"
  let ?sb = "\<lambda>box. \<lparr>sb_RoomID = r, sb_cancelled = False, sb_inbox = box, sb_returned = False\<rparr>"
  let ?s1 = "?q\<lparr>sv_inflight := [], sv_published := [(KeyRoomPubSub r, v)], sv_subs := [?sb [v]]\<rparr>"
  have inv: "sinv s" using run_quiet [OF assms(2), of api h n rdb] by (simp add: s_def)
  have "fan_out s = Some ?s1"
    by (simp add: s_def fan_out_def accept_all_def quiet_facts deliver_sub_def)
  then have "saction api s ?s1" by (rule fans_out)
  moreover have "sv_conn ?s1 = sv_conn s" by (simp add: s_def)
  ultimately have s1: "(keeping sv_conn api)\<^sup>*\<^sup>* s ?s1 \<and> sinv ?s1"
    by (rule keep_action [OF keeping_refl [OF inv]])
  have f: "fanout_of (sv_jobs ?s1) = idle" "0 < length (sv_subs ?s1)" "sv_subs ?s1 ! 0 = ?sb [v]"
    "sv_Rooms ?s1 r = Some {?p}" "length (ch_buf (cl_Send (sv_clients ?s1 ?p))) < SendChanSize"
    by (simp_all add: quiet_facts NewClient_def SendChanSize_def)
  obtain jp where d: "(keeping sv_conn api)\<^sup>*\<^sup>* ?s1 (add_message ?p v ((set_sub 0 (?sb []) ?s1)\<lparr>sv_jobs := jp\<rparr>))"
    using sub_delivers [OF s1 [THEN conjunct2] f(1,2), where m = v and p = ?p, unfolded f(3)] f(4,5) by auto
  have jp: "(keeping sv_conn api)\<^sup>*\<^sup>* s (add_message ?p v ((set_sub 0 (?sb []) ?s1)\<lparr>sv_jobs := jp\<rparr>)) \<and>
      sinv (add_message ?p v ((set_sub 0 (?sb []) ?s1)\<lparr>sv_jobs := jp\<rparr>))"
    using rtranclp_trans [OF s1 [THEN conjunct1] d] keeping_sinv [OF d s1 [THEN conjunct2]] by simp
  let ?s2 = "add_message ?p v ((set_sub 0 (?sb []) ?s1)\<lparr>sv_jobs := jp\<rparr>)"
  have g: "sv_writer ?s2 ?p" "ch_buf (cl_Send (sv_clients ?s2 ?p)) = [v]" "cl_written (sv_clients ?s2 ?p) = []"
    "sv_published ?s2 = sv_published s"
    by (simp_all add: s_def quiet_facts add_message_def set_client_def set_sub_def NewClient_def)
  let ?u = "set_client ?p ((sv_clients ?s2 ?p)
      \<lparr>cl_Send := (cl_Send (sv_clients ?s2 ?p))\<lparr>ch_buf := []\<rparr>, cl_written := cl_written (sv_clients ?s2 ?p) @ [v]\<rparr>) ?s2"
  have "(keeping sv_conn api)\<^sup>*\<^sup>* s ?u"
    using rtranclp_trans [OF jp [THEN conjunct1] writes_all [OF jp [THEN conjunct2] g(1,2)]] .
  moreover have "sv_published ?u = sv_published s" "cl_written (sv_clients ?u ?p) = [v]"
    using g(3,4) by (simp_all add: set_client_def)
  ultimately show ?thesis by blast
qed

lemma handleBroadcast_conn: "sv_conn (handleBroadcast api k packet s) = sv_conn s"
  by (simp add: handleBroadcast_def processDanmaku_def PushToInput_def redis_accepts_def
      broadcastToLocalClients_def Let_def split: option.splits)

text \<open>The packet a connection has read, put on \<open>Broadcast\<close>, taken off and published to all servers.\<close>

lemma cluster_sends:
  assumes "clinv ss" and "sv_conn (ss i) p = ConnSend packet" and "sv_Broadcast (ss i) = make_chan BroadcastChanSize"
    and "wp_Type packet = TypeDanmaku" and "marshal_WsPacket packet = Some v"
    and "snd (rd_publish api (sv_RedisClient (ss i)) (KeyRoomPubSub (wp_RoomID packet)) v) = None"
    and "enumerates k (wp_RoomID packet) (ss i)" and "j \<noteq> i"
  shows "\<exists>ss'. (relay_step api)\<^sup>*\<^sup>* ss ss' \<and> ss' j = accept_all [(KeyRoomPubSub (wp_RoomID packet), v)] (ss j)"
proof -
  let ?ch = "(make_chan BroadcastChanSize)\<lparr>ch_buf := [packet]\<rparr>"
  let ?s = "set_conn p ConnRead ((ss i)\<lparr>sv_Broadcast := ?ch\<rparr>)"
  let ?ss = "ss(i := ?s)"
  have up: "\<not> sv_panicked (ss i)" using clinvD(1) [OF assms(1), of i] by (simp add: sinv_def)
  have "conn_send p (ss i) = Some ?s"
    using assms(2,3) by (simp add: conn_send_def send_chan_def BroadcastChanSize_def)
  then have "sstep api (ss i) ?s" using up by (intro sstep_action conn_sends)
  then have "cluster_step api ss ?ss" by (rule moves) (simp add: set_conn_def)
  then have s1: "relay_step api ss ?ss" by (simp add: relay_step_def set_conn_def)
  let ?t = "handleBroadcast api k packet (?s\<lparr>sv_Broadcast := make_chan BroadcastChanSize\<rparr>)"
  have "recv_chan (sv_Broadcast ?s) = Received packet (make_chan BroadcastChanSize)"
    by (simp add: recv_chan_def make_chan_def set_conn_def)
  moreover have "enumerates k (wp_RoomID packet) ?s" using assms(7) by (simp add: enumerates_def set_conn_def)
  moreover have "sv_published ?t = sv_published ?s @ [(KeyRoomPubSub (wp_RoomID packet), v)]"
    using assms(4-6)
    by (simp add: handleBroadcast_def processDanmaku_def PushToInput_def redis_accepts_def set_conn_def Let_def)
  ultimately have "cluster_step api ?ss
      (\<lambda>l. if l = i then ?t else accept_all [(KeyRoomPubSub (wp_RoomID packet), v)] (?ss l))"
    using up by (intro publishes [where i = i and ss = ?ss and packet = packet]) (simp_all add: set_conn_def)
  moreover have "sv_conn ?t = sv_conn ?s" by (simp add: handleBroadcast_conn)
  ultimately have "relay_step api ?ss
      (\<lambda>l. if l = i then ?t else accept_all [(KeyRoomPubSub (wp_RoomID packet), v)] (?ss l))"
    by (simp add: relay_step_def)
  then have "(relay_step api)\<^sup>*\<^sup>* ss
      (\<lambda>l. if l = i then ?t else accept_all [(KeyRoomPubSub (wp_RoomID packet), v)] (?ss l))"
    using s1 by (meson converse_rtranclp_into_rtranclp rtranclp.rtrancl_refl)
  then show ?thesis using assms(8) by (intro exI conjI) (assumption, simp)
qed

text \<open>
  The start of the run: one client in room \<open>r\<close> at each of two servers, nothing sent, nothing under way.
\<close>

definition two_guests :: "nat \<Rightarrow> nat \<Rightarrow> string \<Rightarrow> (nat \<Rightarrow> 'r server) \<Rightarrow> nat \<Rightarrow> 'r server" where
  "two_guests a b r ss = ss(a := quiet r (ss a), b := quiet r (ss b))"

lemma two_guests_facts:
  assumes "a \<noteq> b"
  shows "two_guests a b r ss a = quiet r (ss a)" "two_guests a b r ss b = quiet r (ss b)"
    "sv_published (two_guests a b r (\<lambda>i. NewManager (h i) (n i) (rdb i)) i) = []"
  using assms by (simp_all add: two_guests_def quiet_facts new_published)

lemma run_two_guests:
  assumes "a \<noteq> b" and "r \<noteq> []"
  shows "(cluster_step api)\<^sup>*\<^sup>* (\<lambda>i. NewManager (h i) (n i) (rdb i))
    (two_guests a b r (\<lambda>i. NewManager (h i) (n i) (rdb i)))"
proof -
  let ?s0 = "\<lambda>i. NewManager (h i) (n i) (rdb i)"
  let ?qa = "quiet r (?s0 a)" and ?qb = "quiet r (?s0 b)"
  have "(cluster_step api)\<^sup>*\<^sup>* ?s0 (?s0(a := ?qa))"
    by (rule lift_run [OF run_quiet [OF assms(2), THEN conjunct1]]) (simp_all add: quiet_facts new_published)
  moreover have "(cluster_step api)\<^sup>*\<^sup>* (?s0(a := ?qa)) (?s0(a := ?qa, b := ?qb))"
    using assms(1)
    by (intro lift_run [OF run_quiet [OF assms(2), THEN conjunct1]]) (simp_all add: quiet_facts new_published)
  ultimately show ?thesis unfolding two_guests_def by (rule rtranclp_trans)
qed

text \<open>A typed line goes from a client of one server to a client of another.\<close>

lemma run_crosses:
  assumes "a \<noteq> b" and "r \<noteq> []" and "line \<noteq> ''1''" and "skip_ws tail = []" and "valid_time now"
    and "\<And>v. snd (rd_publish api (rdb a) (KeyRoomPubSub r) v) = None"
  shows "\<exists>msg v ss1 ss2. keyboard_line line tail = Some msg \<and>
    ss1 = two_guests a b r (\<lambda>i. NewManager (h i) (n i) (rdb i)) \<and>
    (cluster_step api)\<^sup>*\<^sup>* (\<lambda>i. NewManager (h i) (n i) (rdb i)) ss1 \<and> (\<forall>i. sv_published (ss1 i) = []) \<and>
    cluster_step api ss1 (ss1(a := conn_read now msg (ClientPtr 0) (ss1 a))) \<and>
    (relay_step api)\<^sup>*\<^sup>* (ss1(a := conn_read now msg (ClientPtr 0) (ss1 a))) ss2 \<and>
    marshal_WsPacket (danmaku_packet (sv_clients (ss1 a) (ClientPtr 0)) (clean line) now) = Some v \<and>
    sv_published (ss2 b) = [(KeyRoomPubSub r, v)] \<and>
    cl_written (sv_clients (ss2 b) (ClientPtr 0)) = [v] \<and> show_message v = [LiveChat (clean line), InputPrompt]"
proof -
  let ?p = "ClientPtr 0" and ?s0 = "\<lambda>i. NewManager (h i) (n i) (rdb i)"
  obtain msg packet where msg: "keyboard_line line tail = Some msg" "unmarshal_WsPacket msg = (packet, None)"
    "wp_Type packet = TypeDanmaku"
    "unmarshal_DanmakuMessage (raw_bytes (wp_Data packet)) = (zero_danmaku\<lparr>dm_Content := clean line\<rparr>, None)"
    using typed_danmaku [OF assms(3,4)] by blast
  obtain w v where out: "unmarshal_DanmakuMessage w = (danmaku_of (guest r) (clean line) now, None)" "payload w"
    "danmaku_packet (guest r) (clean line) now = \<lparr>wp_Type = TypeDanmaku, wp_RoomID = r, wp_Data = Some w\<rparr>"
    "marshal_WsPacket (danmaku_packet (guest r) (clean line) now) = Some v"
    using danmaku_packet_text [OF valid_utf8_clean assms(5), of "guest r" line] by (auto simp: NewClient_def)
  let ?pk = "danmaku_packet (guest r) (clean line) now"
  have shown: "show_message v = [LiveChat (clean line), InputPrompt]"
    using show_danmaku [OF _ out(2) out(1)] out(3,4) by (simp add: danmaku_of_def)
  let ?qa = "quiet r (?s0 a)" and ?qb = "quiet r (?s0 b)"
  define ss1 where "ss1 = two_guests a b r ?s0"
  have run1: "(cluster_step api)\<^sup>*\<^sup>* ?s0 ss1" unfolding ss1_def using run_two_guests [OF assms(1,2)] .
  have at: "ss1 a = ?qa" "ss1 b = ?qb" and none: "\<forall>i. sv_published (ss1 i) = []"
    by (simp_all add: ss1_def two_guests_facts [OF assms(1)])
  define sa where "sa = conn_read now msg ?p ?qa"
  have sa: "sa = set_conn ?p (ConnSend ?pk) ?qa" unfolding sa_def
    using read_danmaku [where s = ?qa and p = ?p and now = now, OF quiet_facts(1) msg(2-4)] by (simp add: quiet_facts)
  have "\<not> sv_panicked ?qa" using run_quiet [OF assms(2), of api "h a" "n a" "rdb a"] by (simp add: sinv_def)
  then have "sstep api (ss1 a) sa"
    unfolding at sa_def by (rule sstep_action) (rule conn_reads [OF quiet_facts(1) assms(5)])
  then have step: "cluster_step api ss1 (ss1(a := sa))"
    by (rule moves) (simp add: at sa set_conn_def)
  have inv: "clinv (ss1(a := sa))"
    using cluster.step_keeps [OF cluster.run_keeps [OF run1 clinv_init] step] .
  obtain ss' where run2: "(relay_step api)\<^sup>*\<^sup>* (ss1(a := sa)) ss'"
    and b: "ss' b = accept_all [(KeyRoomPubSub r, v)] ?qb"
    using cluster_sends [OF inv, of a ?p ?pk v api "\<lparr>pk_pool = None, pk_grow = 0, pk_order = [?p]\<rparr>" b] assms(1,6) out(3,4)
    by (auto simp: sa set_conn_def quiet_facts enumerates_def at)
  obtain t where t: "(keeping sv_conn api)\<^sup>*\<^sup>* (ss' b) t" "sv_published t = sv_published (ss' b)"
    "cl_written (sv_clients t ?p) = [v]"
    using run_quiet_delivers [OF b assms(2)] by blast
  have "(relay_step api)\<^sup>*\<^sup>* ss' (ss'(b := t))" using t(1,2) by (rule lift_relay) simp
  with run2 have run3: "(relay_step api)\<^sup>*\<^sup>* (ss1(a := sa)) (ss'(b := t))" by (rule rtranclp_trans)
  have "sv_published t = [(KeyRoomPubSub r, v)]" using t(2) by (simp add: b quiet_facts)
  moreover have "sv_clients (ss1 a) ?p = guest r" by (simp add: at quiet_facts)
  moreover have "conn_read now msg ?p (ss1 a) = sa" by (simp add: sa_def at)
  ultimately show ?thesis
    using msg(1) run1 none step shown t(3) run3 out(4) ss1_def
    by (intro exI [of _ msg] exI [of _ v] exI [of _ ss1] exI [of _ "ss'(b := t)"]) simp
qed

section \<open>The properties\<close>

text \<open>
  C2. Isolation and authenticity across servers: whatever is written to or queued for a client, at any
  server of the cluster and in any interleaving, is a statistics packet of the client's room or
  the danmaku of a connection some server accepted into that very room, with that connection's
  user, a well-formed text and a time the server took.
\<close>

theorem cluster_isolation:
  assumes "(cluster_step api)\<^sup>*\<^sup>* (\<lambda>i. NewManager (h i) (n i) (rdb i)) ss"
    and "m \<in> set (cl_written (sv_clients (ss j) p)) \<or> m \<in> set (ch_buf (cl_Send (sv_clients (ss j) p)))"
  shows "(\<exists>stats. marshal_WsPacket (stats_packet (cl_RoomID (sv_clients (ss j) p)) stats) = Some m) \<or>
    (\<exists>i q content now. sv_conn (ss i) q \<noteq> ConnNone \<and>
       cl_RoomID (sv_clients (ss i) q) = cl_RoomID (sv_clients (ss j) p) \<and>
       valid_utf8 content \<and> valid_time now \<and>
       marshal_WsPacket \<lparr>wp_Type = TypeDanmaku, wp_RoomID = cl_RoomID (sv_clients (ss j) p),
         wp_Data = marshal_DanmakuMessage \<lparr>dm_ID = 0, dm_RoomID = cl_RoomID (sv_clients (ss j) p),
           dm_UserID = cl_UserID (sv_clients (ss i) q), dm_Content = content, dm_SendTime = now\<rparr>\<rparr> = Some m)"
proof (cases "\<exists>stats. marshal_WsPacket (stats_packet (cl_RoomID (sv_clients (ss j) p)) stats) = Some m")
  case False
  then obtain i q content now where q: "sv_conn (ss i) q \<noteq> ConnNone" "valid_utf8 content" "valid_time now"
    "KeyRoomPubSub (cl_RoomID (sv_clients (ss j) p)) = KeyRoomPubSub (cl_RoomID (sv_clients (ss i) q))"
    "marshal_WsPacket (danmaku_packet (sv_clients (ss i) q) content now) = Some m"
    using cluster_origin [OF assms] by (auto simp: sent_by_def)
  then have "cl_RoomID (sv_clients (ss i) q) = cl_RoomID (sv_clients (ss j) p)" by simp
  with q show ?thesis by (intro disjI2 exI [of _ i] exI [of _ q] exI [of _ content] exI [of _ now])
    (simp add: danmaku_packet_def zero_danmaku_def)
qed simp

theorem cluster_isolation_witness:
  "\<exists>(ss :: nat \<Rightarrow> rstore server) v. v \<in> set (cl_written (sv_clients (ss 1) (ClientPtr 0))) \<and>
     ((\<exists>stats. marshal_WsPacket (stats_packet (cl_RoomID (sv_clients (ss 1) (ClientPtr 0))) stats) = Some v) \<or>
      (\<exists>i q. sv_conn (ss i) q \<noteq> ConnNone \<and>
         cl_RoomID (sv_clients (ss i) q) = cl_RoomID (sv_clients (ss 1) (ClientPtr 0))))"
proof -
  have utf: "valid_utf8 ''r''" "valid_utf8 ''hello''" by (rule valid_utf8_ascii, simp)+
  have tail: "skip_ws [] = []" by code_simp
  have "snd (rd_publish mem_api empty_rstore (KeyRoomPubSub ''r'') v) = None" for v
    by (simp add: mem_api_def empty_rstore_def)
  note crosses = run_crosses [where a = "0" and b = "1" and r = "''r''" and line = "''hello''" and tail = "[]" and
      now = "zero_time" and api = "mem_api" and h = "\<lambda>_. ''h''" and n = "\<lambda>i. i" and rdb = "\<lambda>_. empty_rstore",
      OF _ _ _ tail valid_zero_time this]
  obtain msg v ss1 ss2 where
    run: "(cluster_step mem_api)\<^sup>*\<^sup>* (\<lambda>i. NewManager ''h'' i empty_rstore) ss1"
      "cluster_step mem_api ss1 (ss1(0 := conn_read zero_time msg (ClientPtr 0) (ss1 0)))"
      "(relay_step mem_api)\<^sup>*\<^sup>* (ss1(0 := conn_read zero_time msg (ClientPtr 0) (ss1 0))) ss2"
    and v: "cl_written (sv_clients (ss2 1) (ClientPtr 0)) = [v]"
    using crosses by auto
  have "(cluster_step mem_api)\<^sup>*\<^sup>* (\<lambda>i. NewManager ''h'' i empty_rstore) ss2"
    using run(1,2) relay_run [OF run(3)] by (meson converse_rtranclp_into_rtranclp rtranclp_trans)
  then have reach: "(cluster_step mem_api)\<^sup>*\<^sup>* (\<lambda>i. NewManager ((\<lambda>_. ''h'') i) ((\<lambda>i. i) i) ((\<lambda>_. empty_rstore) i)) ss2"
    by simp
  have "v \<in> set (cl_written (sv_clients (ss2 1) (ClientPtr 0)))" using v by simp
  with cluster_isolation [OF reach disjI1, OF this] show ?thesis by blast
qed

text \<open>
  C17. A line crosses servers: a line typed at a client of one server can be shown by a client of another.
  From the start there is a run to the state in which one client of the same room is connected to
  each of two servers and no server has sent anything. When the first server reads what the typed
  line sends, the cluster can go on, with no connection of any server reading another danmaku, until
  the one message published is the first client's danmaku with that text, the client of the second
  server has been written exactly this message, and it shows the line, with what is not UTF-8 in it
  replaced.
\<close>

theorem line_crosses_servers:
  assumes "a \<noteq> b" and "r \<noteq> []" and "line \<noteq> ''1''" and "skip_ws tail = []" and "valid_time now"
    and "\<And>v. snd (rd_publish api (rdb a) (KeyRoomPubSub r) v) = None"
  shows "\<exists>msg v ss1 ss2. keyboard_line line tail = Some msg \<and>
    ss1 = two_guests a b r (\<lambda>i. NewManager (h i) (n i) (rdb i)) \<and>
    (cluster_step api)\<^sup>*\<^sup>* (\<lambda>i. NewManager (h i) (n i) (rdb i)) ss1 \<and> (\<forall>i. sv_published (ss1 i) = []) \<and>
    cluster_step api ss1 (ss1(a := conn_read now msg (ClientPtr 0) (ss1 a))) \<and>
    (relay_step api)\<^sup>*\<^sup>* (ss1(a := conn_read now msg (ClientPtr 0) (ss1 a))) ss2 \<and>
    marshal_WsPacket (danmaku_packet (sv_clients (ss1 a) (ClientPtr 0)) (clean line) now) = Some v \<and>
    sv_published (ss2 b) = [(KeyRoomPubSub r, v)] \<and>
    cl_written (sv_clients (ss2 b) (ClientPtr 0)) = [v] \<and> show_message v = [LiveChat (clean line), InputPrompt]"
  using assms by (rule run_crosses)

theorem line_crosses_servers_witness:
  "\<exists>(ss :: nat \<Rightarrow> rstore server) v. sv_published (ss 1) = [(KeyRoomPubSub ''r'', v)] \<and>
     cl_written (sv_clients (ss 1) (ClientPtr 0)) = [v] \<and> show_message v = [LiveChat ''hello'', InputPrompt]"
proof -
  have utf: "valid_utf8 ''r''" "valid_utf8 ''hello''" by (rule valid_utf8_ascii, simp)+
  have tail: "skip_ws [CHR 0x0A] = []" by code_simp
  have "snd (rd_publish mem_api empty_rstore (KeyRoomPubSub ''r'') v) = None" for v
    by (simp add: mem_api_def empty_rstore_def)
  note crosses = line_crosses_servers [where a = "0" and b = "1" and r = "''r''" and line = "''hello''" and
      tail = "[CHR 0x0A]" and now = "zero_time" and api = "mem_api" and h = "\<lambda>_. ''h''" and n = "\<lambda>i. i" and
      rdb = "\<lambda>_. empty_rstore", OF _ _ _ tail valid_zero_time this]
  then show ?thesis using utf by auto
qed

end
