(* ===== verification/Infra.thy ===== *)
theory Infra
  imports Prelude
begin

text \<open>
  The settings the processes hand to the libraries they are built on: Sarama's producer and consumer
  group (\<open>internal/infra/kafka.go\<close>), the Redis client (\<open>internal/infra/redis.go\<close>) and the logger
  (\<open>internal/logger/logger.go\<close>). The libraries are not code of this repository: their default
  configurations and their constructors are arguments, and of a configuration the model keeps the
  fields the code sets.
\<close>

section \<open>Kafka\<close>

datatype acks = NoResponse | WaitForLocal | WaitForAll
datatype compression = CompressionNone | CompressionGZIP | CompressionSnappy | CompressionLZ4 | CompressionZSTD
datatype partitioner = HashPartitioner | RandomPartitioner | RoundRobinPartitioner
datatype initial_offset = OffsetNewest | OffsetOldest

text \<open>The flush frequency is in milliseconds.\<close>

record sarama_config =
  ChannelBufferSize' :: int
  RequiredAcks :: acks
  Compression :: compression
  Flush_Messages :: int
  Flush_MaxMessages :: int
  Flush_Frequency :: int
  Flush_Bytes :: int
  Return_Successes :: bool
  Return_Errors :: bool
  Partitioner :: partitioner
  Offsets_Initial :: initial_offset
  Fetch_Default :: int
  Consumer_Return_Errors :: bool

definition ProducerChanBufSize :: int where "ProducerChanBufSize = 16384"

definition producer_settings :: "sarama_config \<Rightarrow> sarama_config" where
  "producer_settings config =
     config\<lparr>ChannelBufferSize' := ProducerChanBufSize, RequiredAcks := WaitForLocal,
       Compression := CompressionSnappy, Flush_Messages := 50, Flush_MaxMessages := 200,
       Flush_Frequency := 50, Flush_Bytes := 8 * 1024, Return_Successes := False,
       Return_Errors := True, Partitioner := RandomPartitioner\<rparr>"

text \<open>\<open>None\<close> is the panic; the goroutine that then drains the error channel only logs.\<close>

definition InitKafkaProducer ::
  "sarama_config \<Rightarrow> (string list \<Rightarrow> sarama_config \<Rightarrow> 'e + 'p) \<Rightarrow> string list \<Rightarrow> 'p option" where
  "InitKafkaProducer NewConfig NewAsyncProducer brokers =
     (case NewAsyncProducer brokers (producer_settings NewConfig) of
        Inl err \<Rightarrow> None
      | Inr producer \<Rightarrow> Some producer)"

definition consumer_settings :: "sarama_config \<Rightarrow> sarama_config" where
  "consumer_settings config =
     config\<lparr>Offsets_Initial := OffsetOldest, Fetch_Default := 5 * 1024 * 1024, Consumer_Return_Errors := True\<rparr>"

definition InitKafkaConsumerGroup ::
  "sarama_config \<Rightarrow> (string list \<Rightarrow> string \<Rightarrow> sarama_config \<Rightarrow> 'e + 'g) \<Rightarrow> string list \<Rightarrow> string \<Rightarrow> 'g option" where
  "InitKafkaConsumerGroup NewConfig NewConsumerGroup brokers groupID =
     (case NewConsumerGroup brokers groupID (consumer_settings NewConfig) of
        Inl err \<Rightarrow> None
      | Inr cg \<Rightarrow> Some cg)"

text \<open>
  What Sarama's validation asks of these fields: the limit of a flush is not below its trigger
  when both are set, nothing is negative, and the fetch size is a positive \<open>int32\<close>.
\<close>

definition valid_flush :: "sarama_config \<Rightarrow> bool" where
  "valid_flush c \<longleftrightarrow>
     0 \<le> ChannelBufferSize' c \<and> 0 \<le> Flush_Messages c \<and> 0 \<le> Flush_MaxMessages c \<and>
     0 \<le> Flush_Frequency c \<and> 0 \<le> Flush_Bytes c \<and>
     (Flush_MaxMessages c > 0 \<longrightarrow> Flush_Messages c \<le> Flush_MaxMessages c)"

definition valid_fetch :: "sarama_config \<Rightarrow> bool" where
  "valid_fetch c \<longleftrightarrow> 0 < Fetch_Default c \<and> Fetch_Default c < 2 ^ 31"

lemma settings_valid: "valid_flush (producer_settings c)" "valid_fetch (consumer_settings c)"
  by (simp_all add: valid_flush_def valid_fetch_def producer_settings_def consumer_settings_def
      ProducerChanBufSize_def)

section \<open>Redis\<close>

record redis_options =
  Addr :: string
  Password :: string
  DB :: int

definition RedisAddr :: string where "RedisAddr = ''127.0.0.1:6379''"

definition InitRedisClient :: "(redis_options \<Rightarrow> 'c) \<Rightarrow> 'c" where
  "InitRedisClient NewClient = NewClient \<lparr>Addr = RedisAddr, Password = [], DB = 0\<rparr>"

section \<open>Logging\<close>

text \<open>A preset of zap, and the encoder fields that are set on top of it.\<close>

datatype log_preset = ProductionConfig | DevelopmentConfig

datatype log_override = EncodeTime string | EncodeLevel string | TimeKey string | CallerKey string

definition log_settings :: "string \<Rightarrow> log_preset \<times> log_override list" where
  "log_settings env =
     (if env = ''prod'' then (ProductionConfig, [EncodeTime ''ISO8601TimeEncoder''])
      else (DevelopmentConfig, [EncodeLevel ''CapitalColorLevelEncoder'', TimeKey [], CallerKey []]))"

text \<open>The logger that is then also the global one, or exit code 1.\<close>

definition InitLogger :: "(log_preset \<times> log_override list \<Rightarrow> 'e + 'l) \<Rightarrow> string \<Rightarrow> nat + 'l" where
  "InitLogger Build env =
     (case Build (log_settings env) of
        Inl err \<Rightarrow> Inl 1
      | Inr logger \<Rightarrow> Inr logger)"

end
