(* ===== verification/Startup.thy ===== *)
theory Startup
  imports Manager ConsumerSys Infra
begin

text \<open>
  How the two processes start: \<open>InitDB\<close> of \<open>internal/infra/db.go\<close>, \<open>cmd/server/main.go\<close> and
  \<open>cmd/consumer/main.go\<close> with its loop around \<open>Consume\<close>. GORM's connection and migrator are not code
  of this repository: \<open>gorm_api\<close> collects the calls, the locale \<open>migrations\<close> states what they do. What
  \<open>Consume\<close> does is the subject of \<^theory_text>\<open>ConsumerSys\<close>; here it is a sequence of outcomes.
\<close>

section \<open>The database\<close>

text \<open>The structs whose tables the migrator is given, and their rows.\<close>

datatype db_model = DanmakuModel | RoomModel | UserModel

datatype db_row = DanmakuRow DanmakuMessage | RoomRow Room | UserRow User

record ('d, 'e) gorm_api =
  gm_open :: "string \<Rightarrow> 'e + 'd"
  gm_drop :: "'d \<Rightarrow> db_model \<Rightarrow> 'd \<times> 'e option"
  gm_migrate :: "'d \<Rightarrow> db_model \<Rightarrow> 'd \<times> 'e option"

definition dsn :: string where
  "dsn = ''root:root@tcp(127.0.0.1:3306)/danmaku_db?charset=utf8mb4&parseTime=True&loc=Local''"

text \<open>\<open>Fatal\<close> ends the process; what has been done to the database by then stays done.\<close>

datatype 'd init_result = NoConnection | Fatal 'd | Ready 'd

text \<open>An error of a drop is logged, one of a migration is fatal.\<close>

definition drop_table :: "('d, 'e) gorm_api \<Rightarrow> db_model \<Rightarrow> 'd \<Rightarrow> 'd" where
  "drop_table api m d = fst (gm_drop api d m)"

fun migrate_tables :: "('d, 'e) gorm_api \<Rightarrow> db_model list \<Rightarrow> 'd \<Rightarrow> 'd init_result" where
  "migrate_tables api [] d = Ready d"
| "migrate_tables api (m # ms) d =
     (case gm_migrate api d m of
        (d', Some err) \<Rightarrow> Fatal d'
      | (d', None) \<Rightarrow> migrate_tables api ms d')"

definition InitDB :: "('d, 'e) gorm_api \<Rightarrow> 'd init_result" where
  "InitDB api =
     (case gm_open api dsn of
        Inl err \<Rightarrow> NoConnection
      | Inr db \<Rightarrow>
          migrate_tables api [DanmakuModel, RoomModel, UserModel]
            (drop_table api UserModel (drop_table api RoomModel (drop_table api DanmakuModel db))))"

definition rows_of :: "db_row list option \<Rightarrow> db_row list" where
  "rows_of t = (case t of None \<Rightarrow> [] | Some rows \<Rightarrow> rows)"

text \<open>
  \<open>tables\<close> reads the tables off a database. A drop that reports no error has removed its table, one
  that reports an error has left it; \<open>AutoMigrate\<close> creates a table that is not there and keeps the
  rows of one that is; one that fails may have got so far or not. Neither touches other tables.
\<close>

locale migrations =
  fixes api :: "('d, 'e) gorm_api"
    and tables :: "'d \<Rightarrow> db_model \<Rightarrow> db_row list option"
  assumes drop_done: "gm_drop api d m = (d', None) \<Longrightarrow> tables d' = (tables d)(m := None)"
    and drop_failed: "gm_drop api d m = (d', Some err) \<Longrightarrow> tables d' = tables d"
    and migrate_done: "gm_migrate api d m = (d', None) \<Longrightarrow>
      tables d' = (tables d)(m := Some (case tables d m of None \<Rightarrow> [] | Some rows \<Rightarrow> rows))"
    and migrate_failed: "gm_migrate api d m = (d', Some err) \<Longrightarrow>
      tables d' = tables d \<or> tables d' = (tables d)(m := Some (case tables d m of None \<Rightarrow> [] | Some rows \<Rightarrow> rows))"
begin

lemma drop_table_tables:
  "tables (drop_table api m d) = (if snd (gm_drop api d m) = None then (tables d)(m := None) else tables d)"
  by (cases "gm_drop api d m"; cases "snd (gm_drop api d m)")
     (auto simp: drop_table_def dest: drop_done drop_failed)

text \<open>A migration, failed or not, changes no rows.\<close>

lemma migrate_rows: "rows_of (tables (fst (gm_migrate api d m)) m') = rows_of (tables d m')"
proof (cases "gm_migrate api d m")
  case (Pair d' r)
  have "tables d' m' = tables d m' \<or> m' = m \<and> tables d' m = Some (rows_of (tables d m))"
    using migrate_done [of d m d'] migrate_failed [of d m d'] Pair
    by (cases r) (auto simp: rows_of_def split: if_splits)
  then show ?thesis using Pair by (auto simp: rows_of_def)
qed

lemma migrate_tables_rows:
  "migrate_tables api ms d = Ready d' \<or> migrate_tables api ms d = Fatal d' \<Longrightarrow>
   rows_of (tables d' m) = rows_of (tables d m)"
proof (induction ms arbitrary: d)
  case (Cons n ms)
  obtain d1 r where d1: "gm_migrate api d n = (d1, r)" by fastforce
  then have keep: "rows_of (tables d1 m) = rows_of (tables d m)" using migrate_rows [of d n m] by simp
  show ?case
  proof (cases r)
    case None
    with Cons.prems d1 have "migrate_tables api ms d1 = Ready d' \<or> migrate_tables api ms d1 = Fatal d'" by simp
    from Cons.IH [OF this] keep show ?thesis by simp
  next
    case (Some e)
    with Cons.prems d1 keep show ?thesis by simp
  qed
qed simp

text \<open>Whether or not \<open>InitDB\<close> gets to its end: a table whose drop succeeded has no rows, others keep theirs.\<close>

lemma InitDB_danmaku:
  assumes "gm_open api dsn = Inr db0" and "InitDB api = Ready db \<or> InitDB api = Fatal db"
  shows "rows_of (tables db DanmakuModel) =
    (if snd (gm_drop api db0 DanmakuModel) = None then [] else rows_of (tables db0 DanmakuModel))"
proof -
  let ?d = "drop_table api UserModel (drop_table api RoomModel (drop_table api DanmakuModel db0))"
  have "migrate_tables api [DanmakuModel, RoomModel, UserModel] ?d = Ready db \<or>
      migrate_tables api [DanmakuModel, RoomModel, UserModel] ?d = Fatal db"
    using assms by (simp add: InitDB_def del: migrate_tables.simps)
  then have "rows_of (tables db DanmakuModel) = rows_of (tables ?d DanmakuModel)" by (rule migrate_tables_rows)
  moreover have "tables ?d DanmakuModel =
      (if snd (gm_drop api db0 DanmakuModel) = None then None else tables db0 DanmakuModel)"
    by (simp add: drop_table_tables)
  ultimately show ?thesis by (simp add: rows_of_def)
qed

end

text \<open>The danmaku of a database, which playback queries.\<close>

definition danmaku_rows :: "('d \<Rightarrow> db_model \<Rightarrow> db_row list option) \<Rightarrow> 'd \<Rightarrow> DanmakuMessage list" where
  "danmaku_rows tables d =
     concat (map (\<lambda>r. case r of DanmakuRow m \<Rightarrow> [m] | _ \<Rightarrow> []) (rows_of (tables d DanmakuModel)))"

text \<open>A database in memory, with the tables whose drop is refused.\<close>

record memdb =
  md_tables :: "db_model \<Rightarrow> db_row list option"
  md_locked :: "db_model list"

definition mem_gorm :: "memdb \<Rightarrow> (memdb, unit) gorm_api" where
  "mem_gorm db0 =
     \<lparr>gm_open = (\<lambda>_. Inr db0),
      gm_drop = (\<lambda>d m. if m \<in> set (md_locked d) then (d, Some ())
        else (d\<lparr>md_tables := (md_tables d)(m := None)\<rparr>, None)),
      gm_migrate = (\<lambda>d m. (d\<lparr>md_tables := (md_tables d)(m :=
        Some (case md_tables d m of None \<Rightarrow> [] | Some rows \<Rightarrow> rows))\<rparr>, None))\<rparr>"

interpretation memdb: migrations "mem_gorm db0" md_tables for db0
  by unfold_locales (auto simp: mem_gorm_def split: if_splits)

section \<open>The server\<close>

text \<open>What the processes are given from outside: zap, GORM, go-redis and Sarama.\<close>

record ('d, 'e, 'r, 'p, 'g) platform =
  pf_build :: "log_preset \<times> log_override list \<Rightarrow> 'e + unit"
  pf_gorm :: "('d, 'e) gorm_api"
  pf_redis :: "redis_options \<Rightarrow> 'r"
  pf_config :: sarama_config
  pf_producer :: "string list \<Rightarrow> sarama_config \<Rightarrow> 'e + 'p"
  pf_group :: "string list \<Rightarrow> string \<Rightarrow> sarama_config \<Rightarrow> 'e + 'g"

text \<open>How a start ends: an exit, an abort that leaves a database behind, or a process that runs.\<close>

datatype ('d, 'x) boot = ExitCode nat | Aborted 'd | Running 'x

definition brokers :: "string list" where "brokers = [''127.0.0.1:9092'']"

text \<open>What \<open>main\<close> has put together when the router starts.\<close>

record ('d, 'r) server_process =
  sp_registry :: "'r server registry"
  sp_db :: 'd
  sp_manager :: "'r server"

definition server_main ::
  "('d, 'e, 'r, 'p, 'g) platform \<Rightarrow> string \<Rightarrow> nat \<Rightarrow> ('d, ('d, 'r) server_process) boot" where
  "server_main pf hostname n =
     (case InitLogger (pf_build pf) ''dev'' of
        Inl code \<Rightarrow> ExitCode code
      | Inr _ \<Rightarrow>
          (case InitDB (pf_gorm pf) of
             NoConnection \<Rightarrow> ExitCode 1
           | Fatal d \<Rightarrow> Aborted d
           | Ready db \<Rightarrow>
               (case InitKafkaProducer (pf_config pf) (pf_producer pf) brokers of
                  None \<Rightarrow> Aborted db
                | Some _ \<Rightarrow>
                    Running \<lparr>sp_registry = RegisterActionHandlers, sp_db = db,
                      sp_manager = NewManager hostname n (InitRedisClient (pf_redis pf))\<rparr>)))"

section \<open>The consumer\<close>

definition KafkaTopic :: string where "KafkaTopic = ''danmaku_save_topic''"
definition BatchSize :: int where "BatchSize = 1000"

definition KafkaGroupID :: string where "KafkaGroupID = ''danmaku_group_v1''"

definition consumer_main :: "('d, 'e, 'r, 'p, 'g) platform \<Rightarrow> ('d, 'd csys) boot" where
  "consumer_main pf =
     (case InitLogger (pf_build pf) ''dev'' of
        Inl code \<Rightarrow> ExitCode code
      | Inr _ \<Rightarrow>
          (case InitDB (pf_gorm pf) of
             NoConnection \<Rightarrow> ExitCode 1
           | Fatal d \<Rightarrow> Aborted d
           | Ready db \<Rightarrow>
               (case InitKafkaConsumerGroup (pf_config pf) (pf_group pf) brokers KafkaGroupID of
                  None \<Rightarrow> Aborted db
                | Some _ \<Rightarrow> Running (NewDanmakuHandler db BatchSize))))"

text \<open>The database a start leaves behind, when it has reached it.\<close>

definition booted_db :: "('x \<Rightarrow> 'd) \<Rightarrow> ('d, 'x) boot \<Rightarrow> 'd option" where
  "booted_db db_of b =
     (case b of ExitCode _ \<Rightarrow> None | Aborted d \<Rightarrow> Some d | Running x \<Rightarrow> Some (db_of x))"

text \<open>A start that has reached the database has run \<open>InitDB\<close> on it, however it ends.\<close>

lemma booted_InitDB:
  "booted_db sp_db (server_main pf h n) = Some d \<Longrightarrow> InitDB (pf_gorm pf) = Ready d \<or> InitDB (pf_gorm pf) = Fatal d"
  "booted_db cs_db (consumer_main pf) = Some d \<Longrightarrow> InitDB (pf_gorm pf) = Ready d \<or> InitDB (pf_gorm pf) = Fatal d"
  by (auto simp: booted_db_def server_main_def consumer_main_def NewDanmakuHandler_def
      split: sum.splits init_result.splits option.splits)

text \<open>
  The loop at the end of \<open>main\<close>. \<open>outcome k\<close> says of the \<open>k\<close>-th call of \<open>Consume\<close> whether it returned an
  error and whether the context is cancelled when the loop looks. The result is what the loop did;
  it is \<open>None\<close> when the loop never ends.
\<close>

datatype main_event = Consume nat | SleepSecond

definition consume_events :: "(nat \<Rightarrow> bool \<times> bool) \<Rightarrow> nat \<Rightarrow> main_event list" where
  "consume_events outcome k = (if fst (outcome k) then [Consume k, SleepSecond] else [Consume k])"

partial_function (option) main_loop :: "(nat \<Rightarrow> bool \<times> bool) \<Rightarrow> nat \<Rightarrow> main_event list option" where
  "main_loop outcome k =
     (if snd (outcome k) then Some (consume_events outcome k)
      else Option.bind (main_loop outcome (Suc k)) (\<lambda>es. Some (consume_events outcome k @ es)))"

declare main_loop.simps [code]

lemma main_loop_ends:
  "snd (outcome (k + n)) \<Longrightarrow> \<forall>i < n. \<not> snd (outcome (k + i)) \<Longrightarrow>
   main_loop outcome k = Some (concat (map (consume_events outcome) [k..<Suc (k + n)]))"
proof (induction n arbitrary: k)
  case 0
  then show ?case by (subst main_loop.simps) simp
next
  case (Suc n)
  have "\<not> snd (outcome k)" using Suc.prems(2) by force
  moreover have "main_loop outcome (Suc k) =
      Some (concat (map (consume_events outcome) [Suc k..<Suc (Suc k + n)]))"
    using Suc.prems by (intro Suc.IH) (auto simp: less_Suc_eq_0_disj)
  ultimately show ?case
    by (subst main_loop.simps) (simp add: upt_conv_Cons [of k] del: upt_Suc)
qed

lemma main_loop_cancelled:
  assumes "main_loop outcome k = Some es"
  shows "\<exists>i \<ge> k. snd (outcome i)"
  using main_loop.raw_induct [OF _ assms, of "\<lambda>outcome k es. \<exists>i \<ge> k. snd (outcome i)"]
  by (force simp: Option.bind_eq_Some_conv split: if_splits dest: Suc_leD)

section \<open>The loop ends when it should\<close>

text \<open>
  C25. The consumer's main loop returns if and only if the context is cancelled by the time some call
  of \<open>Consume\<close> returns; it then has called \<open>Consume\<close> up to the first such call and never after, and has
  slept a second after each call that failed. Errors alone never end it.
\<close>

theorem main_loop_returns:
  "main_loop outcome 0 =
    (if \<exists>k. snd (outcome k)
     then Some (concat (map (consume_events outcome) [0..<Suc (LEAST k. snd (outcome k))]))
     else None)"
proof (cases "\<exists>k. snd (outcome k)")
  case True
  then have "snd (outcome (0 + (LEAST k. snd (outcome k))))" by (auto intro: LeastI_ex)
  moreover have "\<forall>i < (LEAST k. snd (outcome k)). \<not> snd (outcome (0 + i))"
    using not_less_Least by auto
  ultimately have "main_loop outcome 0 =
      Some (concat (map (consume_events outcome) [0..<Suc (0 + (LEAST k. snd (outcome k)))]))"
    by (rule main_loop_ends)
  with True show ?thesis by simp
next
  case False
  then have "main_loop outcome 0 = None"
    using main_loop_cancelled [of outcome 0] by (cases "main_loop outcome 0") auto
  with False show ?thesis by simp
qed

end
