(* ===== verification/Pipeline.thy ===== *)
theory Pipeline
  imports Startup ManagerRuns ConsumerRuns WireThms CliClient
begin

text \<open>
  The servers and the consumer together: any number of server processes write the Kafka topic, and
  Kafka delivers to the consumer only what is on it. What holds of each process alone carries over,
  and every danmaku the consumer stores can be traced to the connection it came from.
\<close>

section \<open>The joint system\<close>

definition topic_values :: "(nat \<Rightarrow> 'r server) \<Rightarrow> string set" where
  "topic_values ss = {v. \<exists>i. (KafkaTopic, v) \<in> set (sv_Kafka (ss i))}"

inductive pipe_step ::
  "'r redis_api \<Rightarrow> ('db, 'e) insert_op \<Rightarrow> (nat \<Rightarrow> 'r server) \<times> 'db csys \<Rightarrow>
   (nat \<Rightarrow> 'r server) \<times> 'db csys \<Rightarrow> bool" for api ins where
  server_moves: "sstep api (ss i) t \<Longrightarrow> pipe_step api ins (ss, c) (ss(i := t), c)"
| consumer_moves: "fed_step (topic_values ss) ins c d \<Longrightarrow> pipe_step api ins (ss, c) (ss, d)"

inductive_cases pipe_stepE: "pipe_step api ins x y"

text \<open>What is on the topic stays on it.\<close>

lemma handleRegister_Kafka: "sv_Kafka (handleRegister p s) = sv_Kafka s"
  by (simp add: handleRegister_def Let_def split: option.splits)

lemma handleUnregister_Kafka: "sv_Kafka (handleUnregister p s) = sv_Kafka s"
  by (simp add: handleUnregister_def cancel_sub_def Let_def split: option.splits)

lemma broadcast_Kafka: "sv_Kafka (broadcastToLocalClients k r m s) = sv_Kafka s"
  by (simp add: broadcastToLocalClients_def split: option.splits)

lemma conn_read_Kafka: "sv_Kafka (conn_read now msg p s) = sv_Kafka s"
proof -
  obtain t out where r: "ReadPump_message RegisterActionHandlers now (sv_clients s p) s msg = (t, out)"
    by fastforce
  then show ?thesis using handler_effect [OF r] by (auto simp: conn_read_def set_conn_def)
qed

lemma handleBroadcast_Kafka: "set (sv_Kafka s) \<subseteq> set (sv_Kafka (handleBroadcast api k packet s))"
  by (auto simp: handleBroadcast_def processDanmaku_def PushToInput_def redis_accepts_def Let_def
      broadcast_Kafka split: option.splits)

lemmas kafka_facts = handleRegister_Kafka handleUnregister_Kafka broadcast_Kafka conn_read_Kafka

lemma saction_Kafka: "saction api s t \<Longrightarrow> set (sv_Kafka s) \<subseteq> set (sv_Kafka t)"
proof (induction rule: saction.induct)
  case (broadcasts s packet ch k)
  then show ?case using handleBroadcast_Kafka [of "s\<lparr>sv_Broadcast := ch\<rparr>"] by simp
qed (auto simp: kafka_facts conn_register_def conn_unregister_def conn_send_def set_conn_def
    set_client_def set_writer_def set_stats_def set_sub_def redis_accepts_def fan_out_def Let_def
    broadcastStats_swap_def broadcastStats_snapshot_def broadcastStats_report_def
    broadcastStats_total_def broadcastStats_publish_def subscribe_message_def subscribe_done_def
    subscribe_closed_def worker_begin_def worker_send_def worker_end_def
    split: if_splits option.splits list.splits prod.splits conn_pc.splits send_result.splits
      stats_pc.splits)

lemma topic_grows: "sstep api (ss i) t \<Longrightarrow> topic_values ss \<subseteq> topic_values (ss(i := t))"
  using saction_Kafka by (fastforce simp: topic_values_def sstep_def)

section \<open>What the consumer has was on the topic\<close>

definition parsed_from :: "string set \<Rightarrow> danmaku_ptr set" where
  "parsed_from V = {d. \<exists>v \<in> V. parseMessage v = Inr d}"

lemma parsed_from_mono: "V \<subseteq> W \<Longrightarrow> parsed_from V \<subseteq> parsed_from W"
  by (auto simp: parsed_from_def)

text \<open>Only a claim's send adds to what was sent, and it sends the parse of what it was delivered.\<close>

lemma cstep_sent:
  "cstep ins s t \<Longrightarrow> cinv s \<Longrightarrow>
   set (cs_sent t) \<subseteq> set (cs_sent s) \<union> parsed_from (\<Union>p. set (cs_delivered s p))"
proof (induction rule: cstep.induct)
  case (claim_send s p t)
  then obtain msg d where pc: "cs_pc s p = CSending msg d"
    by (auto simp: ConsumeClaim_send_def split: claim_pc.splits)
  then have "msg \<in> set (cs_delivered s p)" "parseMessage msg = Inr d"
    using claim_send.prems inv_claims_at [where pc = "cs_pc s" and p = p]
    by (fastforce simp: cinv_def claim_inv_def)+
  then have "d \<in> parsed_from (\<Union>p. set (cs_delivered s p))" by (auto simp: parsed_from_def)
  moreover have "set (cs_sent t) \<subseteq> insert d (set (cs_sent s))"
    using claim_send.hyps pc by (auto simp: ConsumeClaim_send_def split: send_result.splits)
  ultimately show ?case by blast
qed (auto simp: open_claim_def deliver_msg_def Setup_def ConsumeClaim_recv_def ConsumeClaim_mark_def
    ConsumeClaim_done_def Cleanup_close_def Cleanup_wait_def dbWorker_recv_def dbWorker_tick_def
    dbWorker_done_def apply_round_def
    split: if_splits option.splits list.splits sum.splits claim_pc.splits worker.splits
      recv_result.splits prod.splits)

definition fed_by :: "string set \<Rightarrow> 'db csys \<Rightarrow> bool" where
  "fed_by V c \<longleftrightarrow> (\<forall>p. set (cs_delivered c p) \<subseteq> V) \<and> set (cs_sent c) \<subseteq> parsed_from V"

lemma fed_by_mono: "fed_by V c \<Longrightarrow> V \<subseteq> W \<Longrightarrow> fed_by W c"
  unfolding fed_by_def by (meson order_trans parsed_from_mono)

lemma fed_by_step:
  assumes "fed_by V c" and "cinv c" and "fed_step V ins c d"
  shows "fed_by V d"
proof -
  have step: "cstep ins c d" and new: "set (cs_delivered d p) \<subseteq> set (cs_delivered c p) \<union> V" for p
    using assms(3) by (simp_all add: fed_step_def)
  have old: "set (cs_delivered c p) \<subseteq> V" for p using assms(1) by (simp add: fed_by_def)
  then have "(\<Union>p. set (cs_delivered c p)) \<subseteq> V" by blast
  then have "parsed_from (\<Union>p. set (cs_delivered c p)) \<subseteq> parsed_from V" by (rule parsed_from_mono)
  moreover have "set (cs_sent c) \<subseteq> parsed_from V" using assms(1) by (simp add: fed_by_def)
  ultimately have "set (cs_sent d) \<subseteq> parsed_from V"
    using cstep_sent [OF step assms(2)] by blast
  moreover have "set (cs_delivered d p) \<subseteq> V" for p using new [of p] old [of p] by blast
  ultimately show ?thesis by (simp add: fed_by_def)
qed

definition pipe_inv :: "(nat \<Rightarrow> 'r server) \<times> 'db csys \<Rightarrow> bool" where
  "pipe_inv x \<longleftrightarrow>
     (\<forall>i. sinv (fst x i) \<and> finv (fst x i)) \<and> cinv (snd x) \<and> fed_by (topic_values (fst x)) (snd x)"

lemma pipe_invD:
  assumes "pipe_inv (ss, c)"
  shows "sinv (ss i) \<and> finv (ss i)" "cinv c" "fed_by (topic_values ss) c"
  using assms unfolding pipe_inv_def fst_conv snd_conv by blast+

lemma pipe_inv_server:
  assumes "pipe_inv (ss, c)" and "sstep api (ss i) t"
  shows "pipe_inv (ss(i := t), c)"
proof -
  have t: "sinv t \<and> finv t" using flow.step_keeps [OF pipe_invD(1) [OF assms(1)] assms(2)] .
  have "sinv ((ss(i := t)) j) \<and> finv ((ss(i := t)) j)" for j
    using t pipe_invD(1) [OF assms(1), of j] by (simp add: fun_upd_def)
  moreover have "fed_by (topic_values (ss(i := t))) c"
    using fed_by_mono [OF pipe_invD(3) [OF assms(1)] topic_grows] assms(2) by blast
  ultimately show ?thesis
    using pipe_invD(2) [OF assms(1)] unfolding pipe_inv_def fst_conv snd_conv by (intro conjI allI) simp_all
qed

lemma pipe_inv_consumer:
  assumes "pipe_inv (ss, c)" and "fed_step (topic_values ss) ins c d"
  shows "pipe_inv (ss, d)"
proof -
  have "cinv d" using assms(2) cstep_cinv pipe_invD(2) [OF assms(1)] unfolding fed_step_def by blast
  moreover have "fed_by (topic_values ss) d"
    using fed_by_step [OF pipe_invD(3) [OF assms(1)] pipe_invD(2) [OF assms(1)] assms(2)] .
  ultimately show ?thesis
    using pipe_invD(1) [OF assms(1)] unfolding pipe_inv_def fst_conv snd_conv by metis
qed

interpretation pipe: stable_system "pipe_step api ins" pipe_inv for api ins
  by unfold_locales (auto elim!: pipe_stepE intro: pipe_inv_server pipe_inv_consumer)

lemma pipe_inv_init:
  "pipe_inv ((\<lambda>i. NewManager (h i) (n i) (rdb i)), NewDanmakuHandler db b)"
  by (simp add: pipe_inv_def sinv_init finv_init cinv_init fed_by_def) (simp add: NewDanmakuHandler_def)

lemma pipe_consumer_run: "(pipe_step api ins)\<^sup>*\<^sup>* x y \<Longrightarrow> (cstep ins)\<^sup>*\<^sup>* (snd x) (snd y)"
  by (induction rule: rtranclp_induct) (auto elim!: pipe_stepE simp: fed_step_def intro: run_snoc)

lemma parse_authentic:
  assumes "marshal_WsPacket (danmaku_packet c content now) = Some v"
    and "valid_utf8 content" and "valid_time now"
  shows "parseMessage v = Inr (Some (danmaku_of c content now))"
proof -
  let ?m = "zero_danmaku\<lparr>dm_RoomID := cl_RoomID c, dm_UserID := cl_UserID c, dm_Content := content, dm_SendTime := now\<rparr>"
  have time: "valid_time (dm_SendTime ?m)" using assms(3) by simp
  have "clean_danmaku ?m = danmaku_of c content now"
    using assms(2) by (simp add: zero_danmaku_def danmaku_of_def clean_danmaku_def)
  then show ?thesis
    using parse_danmaku_packet [OF time marshal_danmaku_text [OF time], of "cl_RoomID c" v] assms(1)
      marshal_danmaku_text [OF time]
    by (simp add: danmaku_packet_def)
qed

lemma topic_authentic:
  assumes "pipe_inv (ss, c)" and "v \<in> topic_values ss"
  shows "\<exists>i p content now. sv_conn (ss i) p \<noteq> ConnNone \<and>
    parseMessage v = Inr (Some (danmaku_of (sv_clients (ss i) p) content now))"
proof -
  obtain i where "(KafkaTopic, v) \<in> set (sv_Kafka (ss i))" using assms(2) by (auto simp: topic_values_def)
  moreover have "finv (ss i)" using pipe_invD(1) [OF assms(1)] by blast
  ultimately obtain p content now where "sv_conn (ss i) p \<noteq> ConnNone" "valid_utf8 content" "valid_time now"
    "marshal_WsPacket (danmaku_packet (sv_clients (ss i) p) content now) = Some v"
    by (fastforce simp: finv_def authentic_def)
  then show ?thesis using parse_authentic by blast
qed

lemma sent_authentic:
  assumes "(pipe_step api ins)\<^sup>*\<^sup>* ((\<lambda>i. NewManager (h i) (n i) (rdb i)), NewDanmakuHandler db b) (ss, c)"
    and "r \<in> set (cs_sent c)"
  shows "\<exists>i p content now. sv_conn (ss i) p \<noteq> ConnNone \<and> r = Some (danmaku_of (sv_clients (ss i) p) content now)"
proof -
  have inv: "pipe_inv (ss, c)" using pipe.run_keeps [OF assms(1) pipe_inv_init] .
  then obtain v where "v \<in> topic_values ss" "parseMessage v = Inr r"
    using pipe_invD(3) [OF inv] assms(2) unfolding fed_by_def parsed_from_def by blast
  with topic_authentic [OF inv] show ?thesis by fastforce
qed

section \<open>Runs of the parts are runs of the whole\<close>

lemma pipe_server_run:
  "(sstep api)\<^sup>*\<^sup>* s t \<Longrightarrow> (pipe_step api ins)\<^sup>*\<^sup>* (ss(i := s), c) (ss(i := t), c)"
proof (induction rule: rtranclp_induct)
  case (step t u)
  have "pipe_step api ins (ss(i := t), c) ((ss(i := t))(i := u), c)"
    by (rule server_moves) (simp add: step.hyps(2))
  then have "pipe_step api ins (ss(i := t), c) (ss(i := u), c)" by simp
  with step.IH show ?case by (rule rtranclp.rtrancl_into_rtrancl)
qed simp

lemma pipe_fed_run:
  "(fed_step V ins)\<^sup>*\<^sup>* c d \<Longrightarrow> V \<subseteq> topic_values ss \<Longrightarrow> (pipe_step api ins)\<^sup>*\<^sup>* (ss, c) (ss, d)"
proof (induction rule: rtranclp_induct)
  case (step d e)
  then have "fed_step (topic_values ss) ins d e" unfolding fed_step_def by blast
  then have "pipe_step api ins (ss, d) (ss, e)" by (rule consumer_moves)
  with step.IH [OF step.prems] show ?case by (rule rtranclp.rtrancl_into_rtrancl)
qed simp

text \<open>
  One server of any number has pushed the danmaku of a client to Kafka, and the consumer has stored
  it.
\<close>

definition demo_servers :: "nat \<Rightarrow> rstore server" where
  "demo_servers = (\<lambda>_. NewManager ''h'' 1 empty_rstore)(0 := sent_off)"

definition demo_consumer :: "table csys" where
  "demo_consumer = settled_state table_insert \<lparr>tb_rows = [], tb_outages = []\<rparr> 1 demo_wire
     (Some (danmaku_of demo_client ''hi'' zero_time))"

lemma parse_demo_wire: "parseMessage demo_wire = Inr (Some (danmaku_of demo_client ''hi'' zero_time))"
proof -
  have "valid_utf8 ''r''" "valid_utf8 ''hi''" by (rule valid_utf8_ascii, simp)+
  then show ?thesis
    by (intro parse_authentic [OF demo_marshals]) (simp_all add: demo_client_def NewClient_def)
qed

lemma demo_pipe_run:
  "(pipe_step mem_api table_insert)\<^sup>*\<^sup>*
     ((\<lambda>_. NewManager ''h'' 1 empty_rstore), NewDanmakuHandler \<lparr>tb_rows = [], tb_outages = []\<rparr> 1)
     (demo_servers, demo_consumer)"
proof -
  let ?c = "NewDanmakuHandler \<lparr>tb_rows = [], tb_outages = []\<rparr> 1"
  let ?ss = "\<lambda>_. NewManager ''h'' 1 empty_rstore"
  have "(pipe_step mem_api table_insert)\<^sup>*\<^sup>* (?ss(0 := NewManager ''h'' 1 empty_rstore), ?c) (?ss(0 := sent_off), ?c)"
    by (rule pipe_server_run [OF run_sent_off [THEN conjunct1]])
  moreover have "(KafkaTopic, demo_wire) \<in> set (sv_Kafka (demo_servers 0))"
    by (simp add: demo_servers_def sent_off_def KafkaTopic_def DanmakuSaveTopic_def)
  then have "{demo_wire} \<subseteq> topic_values demo_servers" by (auto simp: topic_values_def)
  then have "(pipe_step mem_api table_insert)\<^sup>*\<^sup>* (demo_servers, ?c) (demo_servers, demo_consumer)"
    unfolding demo_consumer_def by (intro pipe_fed_run [OF fed_settled]) (simp_all add: parse_demo_wire)
  ultimately show ?thesis by (simp add: demo_servers_def fun_upd_idem)
qed

lemma demo_rows: "tb_rows (cs_db demo_consumer) = [Some (danmaku_of demo_client ''hi'' zero_time)]"
proof -
  have "flushBuffer table_insert (\<lambda>_. False) [d] \<lparr>tb_rows = [], tb_outages = []\<rparr> =
      (\<lparr>tb_rows = [d], tb_outages = []\<rparr>, FlushSaved)" for d
    by (simp add: flushBuffer_def MaxDBRetries_def eval_nat_numeral CreateInBatches_def table_insert_def)
  from settled_state_flush [OF _ this, of 1] show ?thesis by (simp add: demo_consumer_def)
qed

lemma demo_clients: "sv_clients (demo_servers i) p \<in> {NewClient 0 [] [], demo_client}"
  by (simp add: demo_servers_def sent_off_def run_defs demo_client_def)

end
