(* ===== verification/Bench.thy ===== *)
theory Bench
  imports CliClient Infra
begin

text \<open>
  The load generators, \<open>cmd/benchmark/main.go\<close> and \<open>cmd/benchmark/kafka/kafka.go\<close>: which server and
  room a bot goes to, what it sends, the counters, and what \<open>monitor\<close> makes of them. The counters are
  \<open>int64\<close>, so differences are taken modulo 2^64. The loss rates and the average, which the code formats
  from floating point numbers, are left out, and so is the random choice of who talks.
\<close>

section \<open>Bots\<close>

definition targetHosts :: "string list" where
  "targetHosts = [''localhost:8081'', ''localhost:8082'']"

definition RoomCapacity :: nat where "RoomCapacity = 100000"
definition TotalClients :: nat where "TotalClients = 30000"

definition bot_host :: "nat \<Rightarrow> string" where
  "bot_host i = targetHosts ! (i mod length targetHosts)"

definition bot_room :: "nat \<Rightarrow> string" where
  "bot_room i = ''room_'' @ show_nat (i div RoomCapacity)"

definition bot_url :: "string \<Rightarrow> nat \<Rightarrow> url" where
  "bot_url host i = ws_url host (show_nat i) (''bot-'' @ show_nat i) (bot_room i)"

section \<open>Counters\<close>

record counters =
  connectedCount :: u64
  msgSentCount :: u64
  msgRecvCount :: u64
  errorCount :: u64
  expectedRecvCount :: u64
  globalMsgSeq :: u64

definition no_counts :: counters where
  "no_counts = \<lparr>connectedCount = 0, msgSentCount = 0, msgRecvCount = 0, errorCount = 0,
     expectedRecvCount = 0, globalMsgSeq = 0\<rparr>"

text \<open>The start and the end of \<open>runBot\<close>, and a message (or an error) in its read loop.\<close>

definition bot_dial :: "bool \<Rightarrow> counters \<Rightarrow> counters" where
  "bot_dial ok c =
     (if ok then c\<lparr>connectedCount := connectedCount c + 1\<rparr> else c\<lparr>errorCount := errorCount c + 1\<rparr>)"

definition bot_leave :: "counters \<Rightarrow> counters" where
  "bot_leave c = c\<lparr>connectedCount := connectedCount c - 1\<rparr>"

definition bot_read :: "string option \<Rightarrow> counters \<Rightarrow> counters" where
  "bot_read received c =
     (case received of
        None \<Rightarrow> c\<lparr>errorCount := errorCount c + 1\<rparr>
      | Some message \<Rightarrow>
          (case unmarshal_WsPacket message of
             (packet, None) \<Rightarrow>
               if wp_Type packet = TypeDanmaku then c\<lparr>msgRecvCount := msgRecvCount c + 1\<rparr> else c
           | _ \<Rightarrow> c))"

text \<open>
  \<open>sendDanmaku\<close>: the message, and the counters after the write. A packet that cannot be marshalled is
  an error of the write.
\<close>

definition bench_packet :: "int \<Rightarrow> string \<Rightarrow> string option \<Rightarrow> string \<Rightarrow> string option" where
  "bench_packet ty room data tail =
     map_option (\<lambda>t. t @ tail) (marshal_WsPacket \<lparr>wp_Type = ty, wp_RoomID = room, wp_Data = data\<rparr>)"

definition bench_msg :: "u64 \<Rightarrow> DanmakuMessage" where
  "bench_msg seqID = zero_danmaku\<lparr>dm_Content := ''bench-msg-'' @ show_int (sint seqID)\<rparr>"

definition sendDanmaku :: "bool \<Rightarrow> string \<Rightarrow> string \<Rightarrow> counters \<Rightarrow> string option \<times> counters" where
  "sendDanmaku write_ok room tail c =
     (let seqID = globalMsgSeq c + 1;
          c1 = c\<lparr>globalMsgSeq := seqID\<rparr>
      in case bench_packet TypeDanmaku room (marshal_DanmakuMessage (bench_msg seqID)) tail of
           None \<Rightarrow> (None, c1\<lparr>errorCount := errorCount c1 + 1\<rparr>)
         | Some t \<Rightarrow>
             if write_ok
             then (Some t, c1\<lparr>msgSentCount := msgSentCount c1 + 1,
                     expectedRecvCount := expectedRecvCount c1 + connectedCount c1\<rparr>)
             else (None, c1\<lparr>errorCount := errorCount c1 + 1\<rparr>))"

text \<open>\<open>sendLike\<close>; \<open>n\<close> is the random number below 20.\<close>

definition sendLike :: "nat \<Rightarrow> bool \<Rightarrow> string \<Rightarrow> string \<Rightarrow> counters \<Rightarrow> string option \<times> counters" where
  "sendLike n write_ok room tail c =
     (case bench_packet ActionLike room (Some (marshal_Like \<lparr>lk_Count = of_nat (n + 1)\<rparr>)) tail of
        None \<Rightarrow> (None, c\<lparr>errorCount := errorCount c + 1\<rparr>)
      | Some t \<Rightarrow>
          if write_ok then (Some t, c\<lparr>msgSentCount := msgSentCount c + 1\<rparr>)
          else (None, c\<lparr>errorCount := errorCount c + 1\<rparr>))"

section \<open>The monitor\<close>

definition ReportSeconds :: nat where "ReportSeconds = 10"

record monitor =
  mo_last :: "u64 \<times> u64"
  mo_winStart :: "u64 \<times> u64 \<times> u64 \<times> u64"
  mo_seconds :: nat

definition monitor_start :: monitor where
  "monitor_start = \<lparr>mo_last = (0, 0), mo_winStart = (0, 0, 0, 0), mo_seconds = 0\<rparr>"

record second_stats =
  st_conns :: u64
  st_sentRate :: u64
  st_recvRate :: u64
  st_lag :: u64
  st_errs :: u64

record window =
  wi_Sent :: u64
  wi_Expected :: u64
  wi_Received :: u64
  wi_NetLoss :: u64
  wi_Errors :: u64
  wi_lag :: u64

text \<open>One tick of the loop, with the counters it loads.\<close>

definition monitor_tick :: "counters \<Rightarrow> monitor \<Rightarrow> monitor \<times> second_stats \<times> window option" where
  "monitor_tick c m =
     (let currSent = msgSentCount c; currRecv = msgRecvCount c; currExp = expectedRecvCount c;
          currErr = errorCount c;
          lag = currExp - currRecv;
          stats = \<lparr>st_conns = connectedCount c, st_sentRate = currSent - fst (mo_last m),
                   st_recvRate = currRecv - snd (mo_last m), st_lag = lag, st_errs = currErr\<rparr>;
          m1 = m\<lparr>mo_last := (currSent, currRecv), mo_seconds := mo_seconds m + 1\<rparr>
      in if ReportSeconds \<le> mo_seconds m1 then
           (case mo_winStart m1 of
              (winStartSent, winStartRecv, winStartExp, winStartErr) \<Rightarrow>
                (let winExp = currExp - winStartExp; winRecv = currRecv - winStartRecv
                 in (m1\<lparr>mo_winStart := (currSent, currRecv, currExp, currErr), mo_seconds := 0\<rparr>, stats,
                     Some \<lparr>wi_Sent = currSent - winStartSent, wi_Expected = winExp, wi_Received = winRecv,
                           wi_NetLoss = winExp - winRecv, wi_Errors = currErr - winStartErr,
                           wi_lag = lag\<rparr>)))
         else (m1, stats, None))"

fun monitor_run :: "monitor \<Rightarrow> counters list \<Rightarrow> (second_stats \<times> window option) list" where
  "monitor_run m [] = []"
| "monitor_run m (c # cs) = (case monitor_tick c m of (m', out) \<Rightarrow> out # monitor_run m' cs)"

text \<open>
  What the numbers should be, from the samples alone: \<open>sample cs t\<close> is the counters \<open>t\<close> seconds after
  the start. A second compares two neighbours, a window two samples ten seconds apart.
\<close>

definition sample :: "counters list \<Rightarrow> nat \<Rightarrow> counters" where
  "sample cs t = (if t = 0 then no_counts else cs ! (t - 1))"

definition second_between :: "counters \<Rightarrow> counters \<Rightarrow> second_stats" where
  "second_between a b =
     \<lparr>st_conns = connectedCount b, st_sentRate = msgSentCount b - msgSentCount a,
      st_recvRate = msgRecvCount b - msgRecvCount a, st_lag = expectedRecvCount b - msgRecvCount b,
      st_errs = errorCount b\<rparr>"

definition window_between :: "counters \<Rightarrow> counters \<Rightarrow> window" where
  "window_between a b =
     (let sent = msgSentCount b - msgSentCount a; expected = expectedRecvCount b - expectedRecvCount a;
          received = msgRecvCount b - msgRecvCount a
      in \<lparr>wi_Sent = sent, wi_Expected = expected, wi_Received = received, wi_NetLoss = expected - received,
          wi_Errors = errorCount b - errorCount a, wi_lag = expectedRecvCount b - msgRecvCount b\<rparr>)"

definition monitor_spec :: "counters list \<Rightarrow> nat \<Rightarrow> second_stats \<times> window option" where
  "monitor_spec cs t =
     (second_between (sample cs t) (sample cs (Suc t)),
      if Suc t mod 10 = 0 then Some (window_between (sample cs (Suc t - 10)) (sample cs (Suc t))) else None)"

section \<open>The Kafka load generator\<close>

definition TotalMessages :: nat where "TotalMessages = 5000000"
definition Goroutines :: nat where "Goroutines = 300"

text \<open>
  What each worker sends, and the count when all have ended. The workers run at the same time, but
  they all send the same message, so one after the other comes to the same.
\<close>

definition msgsPerWorker :: nat where "msgsPerWorker = TotalMessages div Goroutines"

fun send_loop :: "nat \<Rightarrow> string \<Rightarrow> nat \<times> (string \<times> string) list \<Rightarrow> nat \<times> (string \<times> string) list" where
  "send_loop 0 v (sentCount, input) = (sentCount, input)"
| "send_loop (Suc k) v (sentCount, input) =
     send_loop k v (sentCount + 1, input @ [(''danmaku_save_topic'', v)])"

fun run_workers :: "nat \<Rightarrow> string \<Rightarrow> nat \<times> (string \<times> string) list \<Rightarrow> nat \<times> (string \<times> string) list" where
  "run_workers 0 v s = s"
| "run_workers (Suc n) v s = run_workers n v (send_loop msgsPerWorker v s)"

text \<open>The message, whose time is the clock's; a failure to marshal it is fatal.\<close>

definition bench_danmaku :: "gotime \<Rightarrow> DanmakuMessage" where
  "bench_danmaku now =
     \<lparr>dm_ID = 0, dm_RoomID = ''room_benchmark_1'', dm_UserID = 12345,
      dm_Content = ''This is a stress test message for Kafka optimization'', dm_SendTime = now\<rparr>"

definition bench_payload :: "gotime \<Rightarrow> string option" where
  "bench_payload now =
     (case marshal_DanmakuMessage (bench_danmaku now) of
        None \<Rightarrow> None
      | Some contentBytes \<Rightarrow>
          marshal_WsPacket \<lparr>wp_Type = TypeDanmaku, wp_RoomID = ''room_benchmark_1'', wp_Data = Some contentBytes\<rparr>)"

text \<open>
  \<open>main\<close>: the count it reports and what it has given the producer. \<open>None\<close> is the panic of a producer
  that cannot be made, or the fatal exit.
\<close>

definition kafka_bench ::
  "sarama_config \<Rightarrow> (string list \<Rightarrow> sarama_config \<Rightarrow> 'e + 'p) \<Rightarrow> gotime \<Rightarrow> (nat \<times> (string \<times> string) list) option" where
  "kafka_bench NewConfig NewAsyncProducer now =
     (case InitKafkaProducer NewConfig NewAsyncProducer [''127.0.0.1:9092''] of
        None \<Rightarrow> None
      | Some producer \<Rightarrow>
          (case bench_payload now of
             None \<Rightarrow> None
           | Some v \<Rightarrow> Some (run_workers Goroutines v (0, []))))"

section \<open>Facts\<close>

lemma send_loop_sends:
  "send_loop k p (n, input) = (n + k, input @ replicate k (''danmaku_save_topic'', p))"
  by (induction k arbitrary: n input) (simp_all add: replicate_append_same)

lemma run_workers_sends:
  "run_workers w p (n, input) = (n + w * msgsPerWorker, input @ replicate (w * msgsPerWorker) (''danmaku_save_topic'', p))"
  by (induction w arbitrary: n input) (simp_all add: send_loop_sends add.commute flip: replicate_add)

text \<open>Where the monitor stands after \<open>t\<close> samples.\<close>

definition monitor_at :: "counters list \<Rightarrow> nat \<Rightarrow> monitor" where
  "monitor_at cs t =
     (let l = sample cs t; w = sample cs (t - t mod 10)
      in \<lparr>mo_last = (msgSentCount l, msgRecvCount l),
          mo_winStart = (msgSentCount w, msgRecvCount w, expectedRecvCount w, errorCount w),
          mo_seconds = t mod 10\<rparr>)"

lemma tick_report:
  "monitor_tick b \<lparr>mo_last = (msgSentCount a, msgRecvCount a),
     mo_winStart = (msgSentCount w, msgRecvCount w, expectedRecvCount w, errorCount w), mo_seconds = 9\<rparr> =
   (\<lparr>mo_last = (msgSentCount b, msgRecvCount b),
     mo_winStart = (msgSentCount b, msgRecvCount b, expectedRecvCount b, errorCount b), mo_seconds = 0\<rparr>,
    second_between a b, Some (window_between w b))"
  by (simp add: monitor_tick_def second_between_def window_between_def ReportSeconds_def Let_def)

lemma tick_quiet:
  "n < 9 \<Longrightarrow> monitor_tick b \<lparr>mo_last = (msgSentCount a, msgRecvCount a), mo_winStart = w, mo_seconds = n\<rparr> =
   (\<lparr>mo_last = (msgSentCount b, msgRecvCount b), mo_winStart = w, mo_seconds = Suc n\<rparr>,
    second_between a b, None)"
  by (simp add: monitor_tick_def second_between_def ReportSeconds_def Let_def)

lemma monitor_tick_at:
  "monitor_tick (sample cs (Suc t)) (monitor_at cs t) = (monitor_at cs (Suc t), monitor_spec cs t)"
proof (cases "Suc t mod 10 = 0")
  case True
  then have "t mod 10 = 9" by (simp add: mod_Suc split: if_splits)
  moreover have "t - 9 = Suc t - 10" by simp
  ultimately show ?thesis
    using True by (simp only: monitor_at_def monitor_spec_def Let_def tick_report diff_zero if_True simp_thms)
next
  case False
  then have "Suc (t mod 10) \<noteq> 10" by (auto simp: mod_Suc)
  moreover have "t mod 10 < 10" by simp
  ultimately have m: "Suc t mod 10 = Suc (t mod 10)" "t mod 10 < 9" by (simp add: mod_Suc, linarith)
  have w: "Suc t - Suc (t mod 10) = t - t mod 10" by simp
  show ?thesis
    unfolding monitor_at_def monitor_spec_def Let_def m(1) w tick_quiet [OF m(2)] by simp
qed

lemma monitor_run_from:
  "t \<le> length cs \<Longrightarrow> monitor_run (monitor_at cs t) (drop t cs) = map (monitor_spec cs) [t..<length cs]"
proof (induction "length cs - t" arbitrary: t)
  case 0
  then show ?case by simp
next
  case (Suc n)
  then have t: "t < length cs" by simp
  then have "drop t cs = sample cs (Suc t) # drop (Suc t) cs"
    by (simp add: sample_def Cons_nth_drop_Suc)
  moreover have "monitor_run (monitor_at cs (Suc t)) (drop (Suc t) cs) = map (monitor_spec cs) [Suc t..<length cs]"
    using Suc t by (intro Suc.hyps(1)) simp_all
  ultimately show ?case using t by (simp add: monitor_tick_at upt_conv_Cons)
qed

lemma bot_room_inject: "bot_room i = bot_room j \<longleftrightarrow> i div RoomCapacity = j div RoomCapacity"
  using digits_val_show by (auto simp: bot_room_def dest: arg_cong [where f = digits_val])

section \<open>What the numbers mean\<close>

text \<open>
  C31. The monitor's figures are what they claim to be: the rates of a second are the differences of the
  counters over that second, a report comes every tenth second and no other, and its figures are the
  differences over exactly the ten seconds since the last one, so windows neither overlap nor leave
  anything out. Wrap-around of the counters does not disturb this.
\<close>

theorem monitor_reports:
  "monitor_run monitor_start cs = map (monitor_spec cs) [0..<length cs]"
proof -
  have "monitor_at cs 0 = monitor_start"
    by (simp add: monitor_at_def monitor_start_def sample_def no_counts_def)
  then show ?thesis using monitor_run_from [of 0 cs] by simp
qed

text \<open>Every bot the generator can start is accepted by a server, in a room of its block of bots.\<close>

lemma bots_accepted:
  "i \<le> u64_max \<Longrightarrow> handle_connect origin (u_RawQuery (bot_url (bot_host i) i)) True =
   Connected (NewClient (of_nat i) (''bot-'' @ show_nat i) (bot_room i))"
  by (simp add: handle_connect_def CheckOrigin_def bot_url_def connect_params_url ConnectWebSocket_def bot_room_def)

text \<open>A room never has more bots than its capacity.\<close>

lemma room_capacity: "finite {i. bot_room i = bot_room j}" "card {i. bot_room i = bot_room j} \<le> RoomCapacity"
proof -
  let ?b = "j div RoomCapacity * RoomCapacity"
  have sub: "{i. bot_room i = bot_room j} \<subseteq> {?b..<?b + RoomCapacity}"
  proof
    fix i assume "i \<in> {i. bot_room i = bot_room j}"
    then have "i div RoomCapacity = j div RoomCapacity" by (simp add: bot_room_inject)
    then have "?b + i mod RoomCapacity = i" by (metis div_mult_mod_eq)
    moreover have "i mod RoomCapacity < RoomCapacity" by (simp add: RoomCapacity_def)
    ultimately show "i \<in> {?b..<?b + RoomCapacity}" by (metis atLeastLessThan_iff le_add1 nat_add_left_cancel_less)
  qed
  then show "finite {i. bot_room i = bot_room j}" by (rule finite_subset) simp
  have "card {i. bot_room i = bot_room j} \<le> card {?b..<?b + RoomCapacity}" by (rule card_mono [OF _ sub]) simp
  then show "card {i. bot_room i = bot_room j} \<le> RoomCapacity" by simp
qed

text \<open>
  The Kafka generator sends 4 999 800 messages, not the five million its throughput figure is computed
  from: the division rounds down.
\<close>

lemma kafka_bench_sends:
  "run_workers Goroutines v (0, []) = (4999800, replicate 4999800 (DanmakuSaveTopic, v))"
  by (simp only: run_workers_sends DanmakuSaveTopic_def)
    (simp add: Goroutines_def msgsPerWorker_def TotalMessages_def)

end
