(* ===== verification/BenchSys.thy ===== *)
theory BenchSys
  imports Bench
begin

text \<open>
  The load generator of \<open>cmd/benchmark/main.go\<close> as a whole: \<open>main\<close> starting its bots one by one, every
  bot with its two goroutines, and the counters they all update. The steps are those of the goroutines
  from one access to something shared to the next, in any order.
\<close>

section \<open>State\<close>

text \<open>
  Where a bot's first goroutine stands: before and after \<open>Dial\<close>, as a lurker waiting for \<open>done\<close>, as a
  talker in the \<open>select\<close>, within \<open>sendDanmaku\<close>, in the deferred function, and before and after
  \<open>wg.Done\<close>. And its read loop: reading, after an error, after the \<open>c.Close\<close>, and with \<open>done\<close> closed.
\<close>

datatype bot_pc =
  BIdle | BDial | BRefused | BDialled | BListen | BSelect | BDrawn u64 | BWritten | BFailed | BCounted
| BLoaded u64 | BLeaving | BLeft | BEnded

datatype read_pc = RNone | RReading | RErr | RClosed | RDone

text \<open>
  A bot. The last five fields are history: the sequence numbers it has drawn, what its writes have put
  on the socket, how many of them failed, what its read loop got, and what it added to the expected count.
\<close>

record bot =
  bt_pc :: bot_pc
  bt_reader :: read_pc
  bt_drawn :: "u64 list"
  bt_written :: "string list"
  bt_failed :: nat
  bt_received :: "string option list"
  bt_expected :: "u64 list"

definition new_bot :: bot where
  "new_bot = \<lparr>bt_pc = BIdle, bt_reader = RNone, bt_drawn = [], bt_written = [], bt_failed = 0,
     bt_received = [], bt_expected = []\<rparr>"

text \<open>
  Where \<open>main\<close> stands: in the loop that starts bots, in \<open>wg.Wait\<close>, waiting for a signal, at its end, or
  killed by a signal nobody handles. \<open>bs_wg\<close> is the wait group's counter.
\<close>

datatype main_pc = MStarting | MWaiting | MSignal | MStopped | MKilled

record benchsys =
  bs_clients :: nat
  bs_main :: main_pc
  bs_next :: nat
  bs_wg :: int
  bs_counts :: counters
  bs_bot :: "nat \<Rightarrow> bot"

text \<open>\<open>wg.Add\<close> of a negative flag panics.\<close>

definition bench_main :: "int \<Rightarrow> benchsys option" where
  "bench_main clients =
     (if clients < 0 then None
      else Some \<lparr>bs_clients = nat clients, bs_main = MStarting, bs_next = 0, bs_wg = clients,
             bs_counts = no_counts, bs_bot = (\<lambda>_. new_bot)\<rparr>)"

section \<open>Operations\<close>

definition put_bot :: "nat \<Rightarrow> bot \<Rightarrow> (counters \<Rightarrow> counters) \<Rightarrow> benchsys \<Rightarrow> benchsys" where
  "put_bot i b f s = s\<lparr>bs_bot := (bs_bot s)(i := b), bs_counts := f (bs_counts s)\<rparr>"

text \<open>\<open>main\<close>.\<close>

definition start_bot :: "benchsys \<Rightarrow> benchsys option" where
  "start_bot s =
     (if bs_main s \<noteq> MStarting then None
      else if bs_next s < bs_clients s
      then Some (put_bot (bs_next s) (new_bot\<lparr>bt_pc := BDial\<rparr>) id s\<lparr>bs_next := bs_next s + 1\<rparr>)
      else Some (s\<lparr>bs_main := MWaiting\<rparr>))"

definition wait_group :: "benchsys \<Rightarrow> benchsys option" where
  "wait_group s = (if bs_main s = MWaiting \<and> bs_wg s = 0 then Some (s\<lparr>bs_main := MSignal\<rparr>) else None)"

text \<open>SIGINT or SIGTERM, which only \<open>main\<close> waiting for it catches; else it ends the process at once.\<close>

definition interrupt :: "benchsys \<Rightarrow> benchsys" where
  "interrupt s = s\<lparr>bs_main := (if bs_main s = MSignal then MStopped else MKilled)\<rparr>"

text \<open>\<open>runBot\<close>, up to the loops. A lurker and a talker differ by a random number.\<close>

definition dial :: "nat \<Rightarrow> bool \<Rightarrow> benchsys \<Rightarrow> benchsys option" where
  "dial i ok s =
     (let b = bs_bot s i
      in if bt_pc b = BDial then Some (put_bot i (b\<lparr>bt_pc := (if ok then BDialled else BRefused)\<rparr>) id s) else None)"

definition dial_count :: "nat \<Rightarrow> bool \<Rightarrow> benchsys \<Rightarrow> benchsys option" where
  "dial_count i isTalker s =
     (let b = bs_bot s i
      in case bt_pc b of
           BDialled \<Rightarrow>
             Some (put_bot i (b\<lparr>bt_pc := (if isTalker then BSelect else BListen), bt_reader := RReading\<rparr>)
               (bot_dial True) s)
         | BRefused \<Rightarrow> Some (put_bot i (b\<lparr>bt_pc := BLeft\<rparr>) (bot_dial False) s)
         | _ \<Rightarrow> None)"

text \<open>The read loop: a read with its counter, then closing the connection, then the channel.\<close>

definition read_loop :: "nat \<Rightarrow> string option \<Rightarrow> benchsys \<Rightarrow> benchsys option" where
  "read_loop i received s =
     (let b = bs_bot s i
      in if bt_reader b = RReading
         then Some (put_bot i
                (b\<lparr>bt_reader := (if received = None then RErr else RReading),
                   bt_received := bt_received b @ [received]\<rparr>) (bot_read received) s)
         else None)"

definition read_close :: "nat \<Rightarrow> benchsys \<Rightarrow> benchsys option" where
  "read_close i s =
     (let b = bs_bot s i
      in case bt_reader b of
           RErr \<Rightarrow> Some (put_bot i (b\<lparr>bt_reader := RClosed\<rparr>) id s)
         | RClosed \<Rightarrow> Some (put_bot i (b\<lparr>bt_reader := RDone\<rparr>) id s)
         | _ \<Rightarrow> None)"

text \<open>
  \<open>sendDanmaku\<close>, after the timer: draw a number, write (which fails on a connection the read loop has
  closed, and may fail on an open one), count the message, load the number of connections, add it.
\<close>

definition conn_open :: "bot \<Rightarrow> bool" where
  "conn_open b \<longleftrightarrow> bt_reader b = RReading \<or> bt_reader b = RErr"

definition send_draw :: "nat \<Rightarrow> benchsys \<Rightarrow> benchsys option" where
  "send_draw i s =
     (let b = bs_bot s i; seqID = globalMsgSeq (bs_counts s) + 1
      in if bt_pc b = BSelect
         then Some (put_bot i (b\<lparr>bt_pc := BDrawn seqID, bt_drawn := bt_drawn b @ [seqID]\<rparr>)
                (\<lambda>c. c\<lparr>globalMsgSeq := seqID\<rparr>) s)
         else None)"

definition bench_text :: "nat \<Rightarrow> u64 \<Rightarrow> string \<Rightarrow> string option" where
  "bench_text i seqID tail =
     bench_packet TypeDanmaku (bot_room i) (marshal_DanmakuMessage (bench_msg seqID)) tail"

definition send_write :: "nat \<Rightarrow> bool \<Rightarrow> string \<Rightarrow> benchsys \<Rightarrow> benchsys option" where
  "send_write i write_ok tail s =
     (let b = bs_bot s i; failed = b\<lparr>bt_pc := BFailed, bt_failed := bt_failed b + 1\<rparr>
      in case bt_pc b of
           BDrawn seqID \<Rightarrow>
             (case bench_text i seqID tail of
                None \<Rightarrow> Some (put_bot i failed id s)
              | Some t \<Rightarrow>
                  if write_ok
                  then if conn_open b
                       then Some (put_bot i (b\<lparr>bt_pc := BWritten, bt_written := bt_written b @ [t]\<rparr>) id s)
                       else None
                  else Some (put_bot i failed id s))
         | _ \<Rightarrow> None)"

definition send_count :: "nat \<Rightarrow> benchsys \<Rightarrow> benchsys option" where
  "send_count i s =
     (let b = bs_bot s i
      in case bt_pc b of
           BFailed \<Rightarrow> Some (put_bot i (b\<lparr>bt_pc := BSelect\<rparr>) (\<lambda>c. c\<lparr>errorCount := errorCount c + 1\<rparr>) s)
         | BWritten \<Rightarrow> Some (put_bot i (b\<lparr>bt_pc := BCounted\<rparr>) (\<lambda>c. c\<lparr>msgSentCount := msgSentCount c + 1\<rparr>) s)
         | BCounted \<Rightarrow> Some (put_bot i (b\<lparr>bt_pc := BLoaded (connectedCount (bs_counts s))\<rparr>) id s)
         | BLoaded n \<Rightarrow>
             Some (put_bot i (b\<lparr>bt_pc := BSelect, bt_expected := bt_expected b @ [n]\<rparr>)
               (\<lambda>c. c\<lparr>expectedRecvCount := expectedRecvCount c + n\<rparr>) s)
         | _ \<Rightarrow> None)"

text \<open>The end of \<open>runBot\<close> once \<open>done\<close> is closed: the deferred function, then \<open>wg.Done\<close>.\<close>

definition leave :: "nat \<Rightarrow> benchsys \<Rightarrow> benchsys option" where
  "leave i s =
     (let b = bs_bot s i
      in case bt_pc b of
           BListen \<Rightarrow> if bt_reader b = RDone then Some (put_bot i (b\<lparr>bt_pc := BLeaving\<rparr>) id s) else None
         | BSelect \<Rightarrow> if bt_reader b = RDone then Some (put_bot i (b\<lparr>bt_pc := BLeaving\<rparr>) id s) else None
         | BLeaving \<Rightarrow> Some (put_bot i (b\<lparr>bt_pc := BLeft\<rparr>) bot_leave s)
         | BLeft \<Rightarrow> Some (put_bot i (b\<lparr>bt_pc := BEnded\<rparr>) id s\<lparr>bs_wg := bs_wg s - 1\<rparr>)
         | _ \<Rightarrow> None)"

section \<open>Steps\<close>

definition running :: "benchsys \<Rightarrow> bool" where
  "running s \<longleftrightarrow> bs_main s \<noteq> MStopped \<and> bs_main s \<noteq> MKilled"

text \<open>What the goroutine of one bot can do; what encodes the packet may end it with white space.\<close>

inductive bot_step :: "nat \<Rightarrow> benchsys \<Rightarrow> benchsys \<Rightarrow> bool" for i where
  dials: "dial i ok s = Some t \<Longrightarrow> bot_step i s t"
| counts_dial: "dial_count i isTalker s = Some t \<Longrightarrow> bot_step i s t"
| reads: "read_loop i received s = Some t \<Longrightarrow> bot_step i s t"
| closes: "read_close i s = Some t \<Longrightarrow> bot_step i s t"
| draws: "send_draw i s = Some t \<Longrightarrow> bot_step i s t"
| writes: "send_write i write_ok tail s = Some t \<Longrightarrow> skip_ws tail = [] \<Longrightarrow> bot_step i s t"
| counts_send: "send_count i s = Some t \<Longrightarrow> bot_step i s t"
| leaves: "leave i s = Some t \<Longrightarrow> bot_step i s t"

inductive bench_step :: "benchsys \<Rightarrow> benchsys \<Rightarrow> bool" where
  starts: "running s \<Longrightarrow> start_bot s = Some t \<Longrightarrow> bench_step s t"
| waits: "running s \<Longrightarrow> wait_group s = Some t \<Longrightarrow> bench_step s t"
| signals: "running s \<Longrightarrow> bench_step s (interrupt s)"
| works: "running s \<Longrightarrow> bot_step i s t \<Longrightarrow> bench_step s t"

end
