(* ===== verification/BenchInv.thy ===== *)
theory BenchInv
  imports BenchSys WireThms "HOL-Library.Sublist"
begin

text \<open>
  What holds of the load generator however its goroutines interleave: each bot has a part in every
  counter, and the counters are the sums of the parts; the numbers drawn are 1, 2, 3, \<dots>, each once; and
  the bots can always all come to their end.
\<close>

section \<open>What each bot has put into the counters\<close>

definition connected :: "bot_pc \<Rightarrow> bool" where
  "connected pc \<longleftrightarrow> pc \<notin> {BIdle, BDial, BRefused, BDialled, BLeft, BEnded}"

definition got_danmaku :: "string option \<Rightarrow> bool" where
  "got_danmaku received \<longleftrightarrow>
     (case received of None \<Rightarrow> False
      | Some message \<Rightarrow> (case unmarshal_WsPacket message of
          (packet, err) \<Rightarrow> err = None \<and> wp_Type packet = TypeDanmaku))"

definition own_conn :: "bot \<Rightarrow> u64" where
  "own_conn b = (if connected (bt_pc b) then 1 else 0)"

definition own_sent :: "bot \<Rightarrow> u64" where
  "own_sent b = of_nat (length (bt_written b)) - (if bt_pc b = BWritten then 1 else 0)"

definition own_recv :: "bot \<Rightarrow> u64" where
  "own_recv b = of_nat (length (filter got_danmaku (bt_received b)))"

definition own_errs :: "bot \<Rightarrow> u64" where
  "own_errs b =
     of_nat (bt_failed b) - (if bt_pc b = BFailed then 1 else 0) + of_nat (count_list (bt_received b) None) +
     (if bt_reader b = RNone \<and> (bt_pc b = BLeft \<or> bt_pc b = BEnded) then 1 else 0)"

definition own_expected :: "bot \<Rightarrow> u64" where
  "own_expected b = sum_list (bt_expected b)"

definition own_counts :: "bot \<Rightarrow> counters" where
  "own_counts b =
     \<lparr>connectedCount = own_conn b, msgSentCount = own_sent b, msgRecvCount = own_recv b,
      errorCount = own_errs b, expectedRecvCount = own_expected b, globalMsgSeq = of_nat (length (bt_drawn b))\<rparr>"

definition own_ended :: "bot \<Rightarrow> int" where
  "own_ended b = (if bt_pc b = BEnded then 1 else 0)"

text \<open>Over all bots started.\<close>

definition total :: "(bot \<Rightarrow> 'a::comm_monoid_add) \<Rightarrow> benchsys \<Rightarrow> 'a" where
  "total g s = (\<Sum>i<bs_next s. g (bs_bot s i))"

definition tallies :: "(counters \<Rightarrow> u64) list" where
  "tallies = [connectedCount, msgSentCount, msgRecvCount, errorCount, expectedRecvCount, globalMsgSeq]"

section \<open>One step\<close>

lemma total_put:
  fixes g :: "bot \<Rightarrow> 'a::comm_monoid_add"
  assumes "i < bs_next s" and "bs_next t = bs_next s" and "bs_bot t = (bs_bot s)(i := b)"
    and "g b = g (bs_bot s i) + d"
  shows "total g t = total g s + d"
proof -
  have "total g t = g b + (\<Sum>j \<in> {..<bs_next s} - {i}. g (bs_bot s j))"
    using assms by (simp add: total_def sum.remove [of _ i])
  also have "\<dots> = total g s + d"
    using assms by (simp add: total_def sum.remove [of _ i] ac_simps)
  finally show ?thesis .
qed

lemma total_diff:
  fixes g :: "bot \<Rightarrow> 'a::ab_group_add"
  assumes "i < bs_next s" and "bs_next t = bs_next s" and "bs_bot t = (bs_bot s)(i := b)"
  shows "total g t = total g s + (g b - g (bs_bot s i))"
  using assms by (intro total_put) (simp_all add: algebra_simps)

text \<open>
  What holds of one bot: its two goroutines fit together, one error ends the read loop, every number
  drawn is written, failed or about to be, and what is written are packets with numbers it has drawn.
\<close>

definition wrote :: "nat \<Rightarrow> u64 \<Rightarrow> string \<Rightarrow> bool" where
  "wrote i seqID t \<longleftrightarrow> (\<exists>tail. skip_ws tail = [] \<and> bench_text i seqID tail = Some t)"

definition goroutines_ok :: "bot \<Rightarrow> bool" where
  "goroutines_ok b \<longleftrightarrow>
     (bt_pc b \<in> {BIdle, BDial, BRefused, BDialled} \<longrightarrow> bt_reader b = RNone) \<and>
     (bt_pc b = BLeaving \<longrightarrow> bt_reader b = RDone) \<and>
     (bt_pc b \<in> {BLeft, BEnded} \<longrightarrow> bt_reader b = RNone \<or> bt_reader b = RDone) \<and>
     (connected (bt_pc b) \<longrightarrow> bt_reader b \<noteq> RNone)"

definition sends_ok :: "nat \<Rightarrow> bot \<Rightarrow> bool" where
  "sends_ok i b \<longleftrightarrow>
     (\<exists>ns. list_all2 (wrote i) ns (bt_written b) \<and>
       (case bt_pc b of
          BDrawn n \<Rightarrow> (\<exists>ds. bt_drawn b = ds @ [n] \<and> subseq ns ds)
        | _ \<Rightarrow> subseq ns (bt_drawn b)))"

definition bot_ok :: "nat \<Rightarrow> bot \<Rightarrow> bool" where
  "bot_ok i b \<longleftrightarrow> goroutines_ok b \<and> sends_ok i b \<and>
     length (bt_drawn b) = length (bt_written b) + bt_failed b + (case bt_pc b of BDrawn n \<Rightarrow> 1 | _ \<Rightarrow> 0) \<and>
     length (bt_written b) = length (bt_expected b) +
       (case bt_pc b of BWritten \<Rightarrow> 1 | BCounted \<Rightarrow> 1 | BLoaded n \<Rightarrow> 1 | _ \<Rightarrow> 0) \<and>
     count_list (bt_received b) None = (if bt_reader b \<in> {RErr, RClosed, RDone} then 1 else 0)"

text \<open>A step of a bot changes the counters by what changes of its own part.\<close>

definition moved :: "nat \<Rightarrow> bot \<Rightarrow> benchsys \<Rightarrow> benchsys \<Rightarrow> bool" where
  "moved i b s t \<longleftrightarrow>
     bs_bot t = (bs_bot s)(i := b) \<and> bs_next t = bs_next s \<and> bs_main t = bs_main s \<and> bs_clients t = bs_clients s \<and>
     (\<forall>g \<in> set tallies. g (bs_counts t) = g (bs_counts s) + (g (own_counts b) - g (own_counts (bs_bot s i)))) \<and>
     bs_wg t = bs_wg s - (own_ended b - own_ended (bs_bot s i)) \<and>
     (bt_drawn b = bt_drawn (bs_bot s i) \<or> bt_drawn b = bt_drawn (bs_bot s i) @ [globalMsgSeq (bs_counts s) + 1])"

lemmas own_defs = own_counts_def own_conn_def own_sent_def own_recv_def own_errs_def own_expected_def
  own_ended_def connected_def

lemma bot_read_cases:
  "bot_read received c =
     (if received = None then c\<lparr>errorCount := errorCount c + 1\<rparr>
      else if got_danmaku received then c\<lparr>msgRecvCount := msgRecvCount c + 1\<rparr> else c)"
  by (auto simp: bot_read_def got_danmaku_def split: option.splits prod.splits)

lemmas bench_ops = dial_def dial_count_def read_loop_def read_close_def send_draw_def send_write_def
  send_count_def leave_def Let_def

definition own_step :: "bot \<Rightarrow> bot \<Rightarrow> (counters \<Rightarrow> counters) \<Rightarrow> counters \<Rightarrow> bool" where
  "own_step b b' f c \<longleftrightarrow>
     connectedCount (f c) = connectedCount c + (own_conn b' - own_conn b) \<and>
     msgSentCount (f c) = msgSentCount c + (own_sent b' - own_sent b) \<and>
     msgRecvCount (f c) = msgRecvCount c + (own_recv b' - own_recv b) \<and>
     errorCount (f c) = errorCount c + (own_errs b' - own_errs b) \<and>
     expectedRecvCount (f c) = expectedRecvCount c + (own_expected b' - own_expected b) \<and>
     globalMsgSeq (f c) = globalMsgSeq c + (of_nat (length (bt_drawn b')) - of_nat (length (bt_drawn b))) \<and>
     (bt_drawn b' = bt_drawn b \<or> bt_drawn b' = bt_drawn b @ [globalMsgSeq c + 1])"

lemma moved_put:
  "own_step (bs_bot s i) b f (bs_counts s) \<Longrightarrow> own_ended b = own_ended (bs_bot s i) \<Longrightarrow>
   moved i (bs_bot (put_bot i b f s) i) s (put_bot i b f s)"
  unfolding own_step_def by (simp add: moved_def put_bot_def tallies_def own_counts_def)

lemma dial_moves: "dial i ok s = Some t \<Longrightarrow> moved i (bs_bot t i) s t"
  by (auto simp: bench_ops own_step_def own_defs intro!: moved_put split: if_split_asm)


lemma dial_count_moves:
  assumes "dial_count i isTalker s = Some t" and "goroutines_ok (bs_bot s i)"
  shows "moved i (bs_bot t i) s t"
proof (cases "bt_pc (bs_bot s i)")
  case BDialled
  then have t: "t = put_bot i ((bs_bot s i)\<lparr>bt_pc := (if isTalker then BSelect else BListen), bt_reader := RReading\<rparr>)
      (bot_dial True) s"
    using assms(1) by (simp add: bench_ops)
  show ?thesis
    unfolding t using BDialled by (intro moved_put) (simp_all add: own_step_def own_defs bot_dial_def)
next
  case BRefused
  then have t: "t = put_bot i ((bs_bot s i)\<lparr>bt_pc := BLeft\<rparr>) (bot_dial False) s"
    using assms(1) by (simp add: bench_ops)
  have "bt_reader (bs_bot s i) = RNone" using BRefused assms(2) by (simp add: goroutines_ok_def)
  then show ?thesis
    unfolding t using BRefused by (intro moved_put) (simp_all add: own_step_def own_defs bot_dial_def)
qed (use assms(1) in \<open>simp_all add: bench_ops\<close>)

lemma read_loop_moves: "read_loop i received s = Some t \<Longrightarrow> moved i (bs_bot t i) s t"
  by (auto simp: bench_ops own_step_def own_defs bot_read_cases got_danmaku_def intro!: moved_put split: if_split_asm)

lemma read_close_moves: "read_close i s = Some t \<Longrightarrow> moved i (bs_bot t i) s t"
  by (auto simp: bench_ops own_step_def own_defs intro!: moved_put split: read_pc.split_asm)

lemma send_draw_moves: "send_draw i s = Some t \<Longrightarrow> moved i (bs_bot t i) s t"
  by (auto simp: bench_ops own_step_def own_defs intro!: moved_put split: if_split_asm)

lemma send_write_moves: "send_write i write_ok tail s = Some t \<Longrightarrow> moved i (bs_bot t i) s t"
  by (auto simp: bench_ops own_step_def own_defs intro!: moved_put
    split: bot_pc.split_asm option.split_asm if_split_asm)

lemma send_count_moves: "send_count i s = Some t \<Longrightarrow> moved i (bs_bot t i) s t"
  by (auto simp: bench_ops own_step_def own_defs intro!: moved_put split: bot_pc.split_asm)

lemma leave_moves:
  assumes "leave i s = Some t" and "goroutines_ok (bs_bot s i)"
  shows "moved i (bs_bot t i) s t"
proof (cases "bt_pc (bs_bot s i) = BLeft")
  case True
  then have "t = put_bot i ((bs_bot s i)\<lparr>bt_pc := BEnded\<rparr>) id s\<lparr>bs_wg := bs_wg s - 1\<rparr>"
    using assms(1) by (simp add: bench_ops)
  then show ?thesis using True
    by (simp add: moved_def put_bot_def tallies_def own_counts_def) (simp add: own_defs)
next
  case False
  with assms show ?thesis
    by (auto simp: bench_ops own_step_def own_defs bot_leave_def goroutines_ok_def intro!: moved_put
      split: bot_pc.split_asm if_split_asm)
qed


lemmas bot_moves = dial_moves dial_count_moves read_loop_moves read_close_moves send_draw_moves
  send_write_moves send_count_moves leave_moves

lemma bot_step_moves: "bot_step i s t \<Longrightarrow> goroutines_ok (bs_bot s i) \<Longrightarrow> moved i (bs_bot t i) s t"
  by (induction rule: bot_step.induct) (auto dest: bot_moves)

text \<open>A step of a bot keeps what holds of it.\<close>

lemma put_bot_bot [simp]: "bs_bot (put_bot i b f s) i = b"
  by (simp add: put_bot_def)

lemmas bot_ok_defs = bot_ok_def goroutines_ok_def sends_ok_def connected_def

lemma dial_keeps: "dial i ok s = Some t \<Longrightarrow> bot_ok i (bs_bot s i) \<Longrightarrow> bot_ok i (bs_bot t i)"
  by (auto simp: bench_ops bot_ok_defs split: if_split_asm)

text \<open>Outside \<open>sendDanmaku\<close>'s write, what is written does not depend on where the bot stands.\<close>

lemma sends_ok_idle: "\<forall>n. bt_pc b \<noteq> BDrawn n \<Longrightarrow>
  sends_ok i b \<longleftrightarrow> (\<exists>ns. list_all2 (wrote i) ns (bt_written b) \<and> subseq ns (bt_drawn b))"
  unfolding sends_ok_def by (cases "bt_pc b") simp_all

lemma dial_count_keeps:
  assumes "dial_count i isTalker s = Some t" and "bot_ok i (bs_bot s i)"
  shows "bot_ok i (bs_bot t i)"
proof -
  let ?b = "bs_bot s i"
  have r: "bt_reader ?b = RNone" using assms
    by (auto simp: bench_ops bot_ok_def goroutines_ok_def split: bot_pc.split_asm)
  consider "bt_pc ?b = BDialled" "bs_bot t i = ?b\<lparr>bt_pc := (if isTalker then BSelect else BListen), bt_reader := RReading\<rparr>"
    | "bt_pc ?b = BRefused" "bs_bot t i = ?b\<lparr>bt_pc := BLeft\<rparr>"
    using assms(1) by (auto simp: bench_ops split: bot_pc.split_asm)
  then show ?thesis
  proof cases
    case 1
    have "goroutines_ok (bs_bot t i)" unfolding 1 by (simp add: goroutines_ok_def connected_def)
    moreover have "sends_ok i (bs_bot t i)" using assms(2) 1 by (simp add: bot_ok_def sends_ok_idle)
    ultimately show ?thesis using assms(2) 1 r by (simp add: bot_ok_def)
  next
    case 2
    have "goroutines_ok (bs_bot t i)" unfolding 2 by (simp add: goroutines_ok_def connected_def r)
    moreover have "sends_ok i (bs_bot t i)" using assms(2) 2 by (simp add: bot_ok_def sends_ok_idle)
    ultimately show ?thesis using assms(2) 2 r by (simp add: bot_ok_def)
  qed
qed

text \<open>While the read loop runs, the bot is connected and not leaving, so the loop may do what it likes.\<close>

lemma reader_runs:
  assumes "goroutines_ok b" and "bt_reader b \<noteq> RNone" and "bt_reader b \<noteq> RDone"
  shows "connected (bt_pc b) \<and> bt_pc b \<noteq> BLeaving"
  using assms unfolding goroutines_ok_def connected_def by blast

lemma goroutines_okI: "connected (bt_pc b) \<Longrightarrow> bt_pc b \<noteq> BLeaving \<Longrightarrow> bt_reader b \<noteq> RNone \<Longrightarrow> goroutines_ok b"
  unfolding goroutines_ok_def connected_def by blast

lemma reader_keeps:
  assumes "bot_ok i b" and "bt_reader b \<noteq> RNone" and "bt_reader b \<noteq> RDone" and "r \<noteq> RNone"
    and "count_list rs None = (if r \<in> {RErr, RClosed, RDone} then 1 else 0)"
  shows "bot_ok i (b\<lparr>bt_reader := r, bt_received := rs\<rparr>)"
proof -
  have "connected (bt_pc b) \<and> bt_pc b \<noteq> BLeaving" using assms(1-3) reader_runs by (simp add: bot_ok_def)
  then have "goroutines_ok (b\<lparr>bt_reader := r, bt_received := rs\<rparr>)" using assms(4) by (intro goroutines_okI) simp_all
  moreover have "sends_ok i (b\<lparr>bt_reader := r, bt_received := rs\<rparr>) = sends_ok i b"
    unfolding sends_ok_def by (cases "bt_pc b") simp_all
  ultimately show ?thesis using assms(1,5) by (simp add: bot_ok_def)
qed

lemma read_loop_keeps:
  assumes "read_loop i received s = Some t" and "bot_ok i (bs_bot s i)"
  shows "bot_ok i (bs_bot t i)"
proof -
  have r: "bt_reader (bs_bot s i) = RReading"
    and t: "bs_bot t i = (bs_bot s i)\<lparr>bt_reader := (if received = None then RErr else RReading),
      bt_received := bt_received (bs_bot s i) @ [received]\<rparr>"
    using assms(1) by (auto simp: bench_ops split: if_split_asm)
  show ?thesis unfolding t using assms(2) r by (intro reader_keeps) (simp_all add: bot_ok_def)
qed

lemma read_close_keeps:
  assumes "read_close i s = Some t" and "bot_ok i (bs_bot s i)"
  shows "bot_ok i (bs_bot t i)"
proof -
  obtain r where r: "r = RClosed \<or> r = RDone" "bt_reader (bs_bot s i) \<in> {RErr, RClosed}"
    and t: "bs_bot t i = (bs_bot s i)\<lparr>bt_reader := r, bt_received := bt_received (bs_bot s i)\<rparr>"
    using assms(1) by (fastforce simp: bench_ops split: read_pc.split_asm)
  show ?thesis unfolding t using assms(2) r by (intro reader_keeps) (auto simp: bot_ok_def)
qed

lemma send_draw_keeps:
  assumes "send_draw i s = Some t" and "bot_ok i (bs_bot s i)"
  shows "bot_ok i (bs_bot t i)"
proof -
  let ?b = "bs_bot s i" and ?n = "globalMsgSeq (bs_counts s) + 1"
  have pc: "bt_pc ?b = BSelect" and t: "bs_bot t i = ?b\<lparr>bt_pc := BDrawn ?n, bt_drawn := bt_drawn ?b @ [?n]\<rparr>"
    using assms(1) by (auto simp: bench_ops split: if_split_asm)
  have "goroutines_ok (bs_bot t i)"
    using assms(2) pc unfolding t by (intro goroutines_okI) (simp_all add: bot_ok_def goroutines_ok_def connected_def)
  moreover have "sends_ok i (bs_bot t i)" unfolding t using assms(2) pc by (auto simp: bot_ok_def sends_ok_def)
  ultimately show ?thesis using assms(2) pc unfolding t by (simp add: bot_ok_def)
qed

lemma sender_keeps:
  assumes "bot_ok i b" and "bt_pc b \<in> {BWritten, BFailed, BCounted, BLoaded n}"
    and "pc \<in> {BCounted, BLoaded m, BSelect}"
    and "length (bt_written b) = length es + (if pc = BSelect then 0 else 1)"
  shows "bot_ok i (b\<lparr>bt_pc := pc, bt_expected := es\<rparr>)"
proof -
  have "connected (bt_pc b)" using assms(2) by (auto simp: connected_def)
  then have "bt_reader b \<noteq> RNone" using assms(1) by (simp add: bot_ok_def goroutines_ok_def)
  then have "goroutines_ok (b\<lparr>bt_pc := pc, bt_expected := es\<rparr>)"
    using assms(3) by (intro goroutines_okI) (auto simp: connected_def)
  moreover have "sends_ok i (b\<lparr>bt_pc := pc, bt_expected := es\<rparr>)"
    using assms(1-3) by (auto simp: bot_ok_def sends_ok_def)
  moreover have "length (bt_drawn b) = length (bt_written b) + bt_failed b" using assms(1,2) by (auto simp: bot_ok_def)
  ultimately show ?thesis using assms(1,3,4) by (auto simp: bot_ok_def)
qed

lemma send_count_keeps:
  assumes "send_count i s = Some t" and "bot_ok i (bs_bot s i)"
  shows "bot_ok i (bs_bot t i)"
proof -
  let ?b = "bs_bot s i"
  obtain n m pc es where "bt_pc ?b \<in> {BWritten, BFailed, BCounted, BLoaded n}" "pc \<in> {BCounted, BLoaded m, BSelect}"
    and t: "bs_bot t i = ?b\<lparr>bt_pc := pc, bt_expected := es\<rparr>"
    and "length (bt_written ?b) = length es + (if pc = BSelect then 0 else 1)"
  proof (cases "bt_pc ?b")
    case BWritten
    then show ?thesis using assms that [of 0 BCounted 0 "bt_expected ?b"] by (auto simp: bench_ops bot_ok_def)
  next
    case BFailed
    then show ?thesis using assms that [of 0 BSelect 0 "bt_expected ?b"] by (auto simp: bench_ops bot_ok_def)
  next
    case BCounted
    then show ?thesis using assms that [of 0 "BLoaded (connectedCount (bs_counts s))" _ "bt_expected ?b"]
      by (auto simp: bench_ops bot_ok_def)
  next
    case (BLoaded n)
    then show ?thesis using assms that [of n BSelect 0 "bt_expected ?b @ [n]"] by (auto simp: bench_ops bot_ok_def)
  qed (use assms(1) in \<open>simp_all add: bench_ops\<close>)
  then show ?thesis unfolding t using assms(2) by (intro sender_keeps)
qed

lemma leave_keeps:
  assumes "leave i s = Some t" and "bot_ok i (bs_bot s i)"
  shows "bot_ok i (bs_bot t i)"
proof -
  let ?b = "bs_bot s i"
  have pc: "bt_pc ?b \<in> {BListen, BSelect, BLeaving, BLeft}" and r: "bt_reader ?b = RNone \<or> bt_reader ?b = RDone"
    and t: "bs_bot t i = ?b\<lparr>bt_pc := (if bt_pc ?b = BLeaving then BLeft else if bt_pc ?b = BLeft then BEnded else BLeaving)\<rparr>"
    and d: "bt_pc ?b \<noteq> BLeft \<longrightarrow> bt_reader ?b = RDone"
    using assms by (auto simp: bench_ops put_bot_def bot_ok_def goroutines_ok_def split: bot_pc.split_asm if_split_asm)
  have "goroutines_ok (bs_bot t i)" using pc r d unfolding t goroutines_ok_def by (auto simp: connected_def)
  moreover have "sends_ok i (bs_bot t i)" using pc assms(2) unfolding t by (auto simp: bot_ok_def sends_ok_def)
  ultimately show ?thesis using pc assms(2) unfolding bot_ok_def t by auto
qed

lemma send_write_keeps:
  assumes "send_write i write_ok tail s = Some t" and "skip_ws tail = []" and "bot_ok i (bs_bot s i)"
  shows "bot_ok i (bs_bot t i)"
proof -
  let ?b = "bs_bot s i"
  obtain n where pc: "bt_pc ?b = BDrawn n"
    using assms(1) by (auto simp: bench_ops split: bot_pc.split_asm)
  then obtain ns ds where ns: "list_all2 (wrote i) ns (bt_written ?b)" "bt_drawn ?b = ds @ [n]" "subseq ns ds"
    using assms(3) by (auto simp: bot_ok_def sends_ok_def)
  have sub: "subseq ns (ds @ [n])" "subseq (ns @ [n]) (ds @ [n])"
    using ns(3) by (auto intro: subseq_append_iff [THEN iffD2] list_emb_append2)
  have written: "list_all2 (wrote i) (ns @ [n]) (bt_written ?b @ [v])" if "bench_text i n tail = Some v" for v
    using ns(1) that assms(2) by (intro list_all2_appendI) (auto simp: wrote_def)
  consider "bs_bot t i = ?b\<lparr>bt_pc := BFailed, bt_failed := bt_failed ?b + 1\<rparr>"
    | v where "bench_text i n tail = Some v" "bs_bot t i = ?b\<lparr>bt_pc := BWritten, bt_written := bt_written ?b @ [v]\<rparr>"
    using assms(1) pc by (auto simp: bench_ops split: option.split_asm if_split_asm)
  then show ?thesis
  proof cases
    case 1
    have "sends_ok i (bs_bot t i)" unfolding 1 sends_ok_def using ns sub(1) by auto
    then show ?thesis using assms(3) pc by (simp add: 1 bot_ok_def goroutines_ok_def connected_def)
  next
    case 2
    have "sends_ok i (bs_bot t i)" unfolding 2 sends_ok_def
      by (rule exI [of _ "ns @ [n]"]) (use ns sub(2) written 2(1) in simp)
    then show ?thesis using assms(3) pc by (simp add: 2 bot_ok_def goroutines_ok_def connected_def)
  qed
qed

lemmas bot_keeps = dial_keeps dial_count_keeps read_loop_keeps read_close_keeps send_draw_keeps
  send_write_keeps send_count_keeps leave_keeps

lemma bot_step_keeps: "bot_step i s t \<Longrightarrow> bot_ok i (bs_bot s i) \<Longrightarrow> bot_ok i (bs_bot t i)"
  by (induction rule: bot_step.induct) (auto dest: bot_keeps)

section \<open>The invariant\<close>

text \<open>The sequence numbers drawn by all bots are 1, 2, 3, \<dots>, each once.\<close>

definition numbered :: "benchsys \<Rightarrow> bool" where
  "numbered s \<longleftrightarrow> total (\<lambda>b. mset (bt_drawn b)) s =
     mset (map of_nat [1..<Suc (total (\<lambda>b. length (bt_drawn b)) s)])"

definition main_ok :: "benchsys \<Rightarrow> bool" where
  "main_ok s \<longleftrightarrow> bs_next s \<le> bs_clients s \<and>
     (bs_main s \<in> {MWaiting, MSignal, MStopped} \<longrightarrow> bs_next s = bs_clients s) \<and>
     (bs_main s \<in> {MSignal, MStopped} \<longrightarrow> bs_wg s = 0) \<and>
     bs_wg s = int (bs_clients s) - total own_ended s"

definition bench_inv :: "benchsys \<Rightarrow> bool" where
  "bench_inv s \<longleftrightarrow> (\<forall>i. bot_ok i (bs_bot s i)) \<and> (\<forall>i. bs_next s \<le> i \<longrightarrow> bs_bot s i = new_bot) \<and>
     (\<forall>i < bs_next s. bt_pc (bs_bot s i) \<noteq> BIdle) \<and>
     (\<forall>g \<in> set tallies. g (bs_counts s) = total (\<lambda>b. g (own_counts b)) s) \<and> numbered s \<and> main_ok s"

lemma bench_invD:
  assumes "bench_inv s"
  shows "bot_ok i (bs_bot s i)" and "bs_next s \<le> i \<Longrightarrow> bs_bot s i = new_bot"
    and "i < bs_next s \<Longrightarrow> bt_pc (bs_bot s i) \<noteq> BIdle"
    and "g \<in> set tallies \<Longrightarrow> g (bs_counts s) = total (\<lambda>b. g (own_counts b)) s"
    and "numbered s" and "main_ok s" and "goroutines_ok (bs_bot s i)"
  using assms unfolding bench_inv_def bot_ok_def by blast+

lemma own_new: "g \<in> set tallies \<Longrightarrow> g (own_counts new_bot) = 0" "g \<in> set tallies \<Longrightarrow> g (own_counts (new_bot\<lparr>bt_pc := BDial\<rparr>)) = 0"
  by (auto simp: tallies_def own_defs new_bot_def)

lemma new_bot_ok: "bot_ok i new_bot" "bot_ok i (new_bot\<lparr>bt_pc := BDial\<rparr>)"
  by (simp_all add: bot_ok_defs new_bot_def)

lemma bench_main_inv: "bench_main clients = Some s \<Longrightarrow> bench_inv s"
  by (auto simp: bench_main_def bench_inv_def main_ok_def numbered_def total_def new_bot_ok tallies_def
    no_counts_def split: if_splits)

text \<open>A step of a bot that has not been started is not possible.\<close>

lemma bot_step_started: "bot_step i s t \<Longrightarrow> bs_bot s i = new_bot \<Longrightarrow> False"
  by (induction rule: bot_step.induct) (simp_all add: bench_ops new_bot_def)

lemma bot_step_not_idle: "bot_step i s t \<Longrightarrow> bt_pc (bs_bot s i) \<noteq> BIdle \<Longrightarrow> bt_pc (bs_bot t i) \<noteq> BIdle"
  by (induction rule: bot_step.induct)
    (auto simp: bench_ops put_bot_def split: bot_pc.split_asm read_pc.split_asm option.split_asm if_split_asm)

lemma total_start:
  assumes "bs_bot t = (bs_bot s)(bs_next s := b)" and "bs_next t = Suc (bs_next s)"
  shows "total g t = total g s + g b"
proof -
  have "(\<Sum>i<bs_next s. g (if i = bs_next s then b else bs_bot s i)) = total g s"
    unfolding total_def by (intro sum.cong) auto
  then show ?thesis using assms by (simp add: total_def)
qed

lemma numbered_moves:
  assumes "moved i b s t" and "i < bs_next s" and "numbered s"
    and "globalMsgSeq (bs_counts s) = of_nat (total (\<lambda>b. length (bt_drawn b)) s)"
  shows "numbered t"
proof -
  let ?len = "\<lambda>b. length (bt_drawn b)" and ?ms = "\<lambda>b. mset (bt_drawn b)"
  note put = total_put [OF assms(2), of t b]
  show ?thesis
  proof (cases "bt_drawn b = bt_drawn (bs_bot s i)")
    case True
    then have "total ?len t = total ?len s" "total ?ms t = total ?ms s"
      using put [of ?len 0] put [of ?ms "{#}"] assms(1) by (simp_all add: moved_def)
    then show ?thesis using assms(3) by (simp add: numbered_def)
  next
    case False
    then have "bt_drawn b = bt_drawn (bs_bot s i) @ [globalMsgSeq (bs_counts s) + 1]"
      using assms(1) by (simp add: moved_def)
    then have "total ?len t = total ?len s + 1" "total ?ms t = total ?ms s + {#globalMsgSeq (bs_counts s) + 1#}"
      using put [of ?len 1] put [of ?ms "{#globalMsgSeq (bs_counts s) + 1#}"] assms(1) by (simp_all add: moved_def)
    then show ?thesis using assms(3,4) by (simp add: numbered_def add.commute)
  qed
qed

lemma seq_total: "bench_inv s \<Longrightarrow> globalMsgSeq (bs_counts s) = of_nat (total (\<lambda>b. length (bt_drawn b)) s)"
  using bench_invD(4) [of s globalMsgSeq] by (simp add: tallies_def own_counts_def total_def)

text \<open>When the wait group has let \<open>main\<close> through, every bot has ended, and an ended bot does nothing.\<close>

lemma all_ended:
  assumes "main_ok s" and "bs_main s \<in> {MSignal, MStopped}" and "i < bs_clients s"
  shows "bt_pc (bs_bot s i) = BEnded"
proof -
  have n: "bs_next s = bs_clients s" "total own_ended s = int (bs_clients s)" using assms by (auto simp: main_ok_def)
  then have "(\<Sum>i<bs_next s. 1 - own_ended (bs_bot s i)) = 0" by (simp add: total_def sum_subtractf)
  moreover have "\<forall>i \<in> {..<bs_next s}. 0 \<le> 1 - own_ended (bs_bot s i)" by (simp add: own_ended_def)
  ultimately have "1 - own_ended (bs_bot s i) = 0"
    using assms(3) n by (subst (asm) sum_nonneg_eq_0_iff) auto
  then show ?thesis by (simp add: own_ended_def split: if_split_asm)
qed

lemma ended_no_step: "bot_step i s t \<Longrightarrow> bt_pc (bs_bot s i) = BEnded \<Longrightarrow> goroutines_ok (bs_bot s i) \<Longrightarrow> False"
  by (induction rule: bot_step.induct) (auto simp: bench_ops goroutines_ok_def)

lemma bot_step_inv:
  assumes "bot_step i s t" and "bench_inv s"
  shows "bench_inv t"
proof -
  note inv = bench_invD [OF assms(2)]
  have i: "i < bs_next s" using bot_step_started [OF assms(1)] inv(2) [of i] by (meson not_le)
  define b where "b = bs_bot t i"
  have m: "moved i b s t" unfolding b_def using assms(1) inv(7) by (rule bot_step_moves)
  then have t: "bs_bot t = (bs_bot s)(i := b)" "bs_next t = bs_next s" "bs_main t = bs_main s"
    "bs_clients t = bs_clients s" by (simp_all add: moved_def)
  have "bot_ok i b" "bt_pc b \<noteq> BIdle"
    unfolding b_def using bot_step_keeps [OF assms(1) inv(1)] bot_step_not_idle [OF assms(1) inv(3) [OF i]] .
  then have "\<forall>j. bot_ok j (bs_bot t j)" "\<forall>j. bs_next t \<le> j \<longrightarrow> bs_bot t j = new_bot"
    "\<forall>j < bs_next t. bt_pc (bs_bot t j) \<noteq> BIdle"
    using inv(1-3) i t by auto
  moreover have "\<forall>g \<in> set tallies. g (bs_counts t) = total (\<lambda>b. g (own_counts b)) t"
    using inv(4) m by (simp add: moved_def total_diff [OF i t(2,1)])
  moreover have "main_ok t"
  proof -
    have "bs_wg t = bs_wg s - (own_ended b - own_ended (bs_bot s i))" using m by (simp add: moved_def)
    moreover have "bs_main s \<notin> {MSignal, MStopped}"
      using all_ended [OF inv(6), of i] ended_no_step [OF assms(1) _ inv(7)] inv(6) i by (auto simp: main_ok_def)
    ultimately show ?thesis using inv(6) t by (auto simp: main_ok_def total_diff [OF i t(2,1)])
  qed
  moreover have "numbered t"
    using numbered_moves [OF m i inv(5) seq_total [OF assms(2)]] .
  ultimately show ?thesis unfolding bench_inv_def by blast
qed

lemma main_inv:
  assumes "bench_inv s" and "m \<in> {MWaiting, MSignal, MStopped} \<longrightarrow> bs_next s = bs_clients s"
    and "m \<in> {MSignal, MStopped} \<longrightarrow> bs_wg s = 0"
  shows "bench_inv (s\<lparr>bs_main := m\<rparr>)"
proof -
  have [simp]: "total g (s\<lparr>bs_main := m\<rparr>) = total g s" for g :: "bot \<Rightarrow> 'a::comm_monoid_add" by (simp add: total_def)
  show ?thesis
    using assms unfolding bench_inv_def numbered_def main_ok_def by (intro conjI) simp_all
qed

lemma start_bot_inv:
  assumes "start_bot s = Some t" and "bench_inv s"
  shows "bench_inv t"
proof (cases "bs_next s < bs_clients s")
  case False
  then have "t = s\<lparr>bs_main := MWaiting\<rparr>" using assms(1) by (auto simp: start_bot_def split: if_split_asm)
  moreover have "main_ok s" using assms(2) by (simp only: bench_inv_def)
  ultimately show ?thesis using False assms(2) by (auto simp: main_ok_def intro: main_inv)
next
  case True
  define b where "b = new_bot\<lparr>bt_pc := BDial\<rparr>"
  have main: "bs_main s = MStarting" using assms(1) by (auto simp: start_bot_def split: if_split_asm)
  with True assms(1) have t: "bs_bot t = (bs_bot s)(bs_next s := b)" "bs_next t = Suc (bs_next s)"
    "bs_main t = MStarting" "bs_clients t = bs_clients s" "bs_wg t = bs_wg s" "bs_counts t = bs_counts s"
    by (auto simp: start_bot_def put_bot_def b_def)
  note start = total_start [OF t(1,2)]
  have "bot_ok (bs_next s) b" "bt_pc b \<noteq> BIdle" by (simp_all add: b_def new_bot_ok)
  then have "\<forall>j. bot_ok j (bs_bot t j)" "\<forall>j. bs_next t \<le> j \<longrightarrow> bs_bot t j = new_bot"
    "\<forall>j < bs_next t. bt_pc (bs_bot t j) \<noteq> BIdle"
    using assms(2) t by (auto simp: bench_inv_def less_Suc_eq)
  moreover have "\<forall>g \<in> set tallies. g (bs_counts t) = total (\<lambda>b. g (own_counts b)) t"
    using assms(2) own_new(2) t(6) by (simp add: bench_inv_def start b_def)
  moreover have "main_ok s" "numbered s" using assms(2) by (simp_all only: bench_inv_def)
  then have "main_ok t" "numbered t"
    using True t main by (simp_all add: main_ok_def numbered_def start) (simp_all add: b_def own_ended_def new_bot_def)
  ultimately show ?thesis by (simp add: bench_inv_def)
qed

lemma bench_step_inv: "bench_step s t \<Longrightarrow> bench_inv s \<Longrightarrow> bench_inv t"
proof (induction rule: bench_step.induct)
  case (starts s t)
  then show ?case by (blast intro: start_bot_inv)
next
  case (waits s t)
  moreover from waits have "main_ok s" by (simp only: bench_inv_def)
  ultimately show ?case by (auto simp: wait_group_def main_ok_def intro: main_inv split: if_split_asm)
next
  case (signals s)
  moreover from signals have "main_ok s" by (simp only: bench_inv_def)
  ultimately show ?case by (auto simp: interrupt_def main_ok_def intro: main_inv)
next
  case (works s i t)
  then show ?case by (blast intro: bot_step_inv)
qed

interpretation bench: stable_system bench_step bench_inv
  by unfold_locales (blast intro: bench_step_inv)


section \<open>What is sent\<close>

definition bench_content :: "string \<Rightarrow> string" where
  "bench_content t = dm_Content (fst (unmarshal_DanmakuMessage (raw_bytes (wp_Data (fst (unmarshal_WsPacket t))))))"

lemma valid_utf8_digits: "valid_utf8 (p @ show_nat n)" if "\<forall>c \<in> set p. byte c < 0x80"
proof (rule valid_utf8_ascii)
  have "byte c < 0x80" if "is_digit c" for c using that by (simp add: is_digit_def)
  then show "\<forall>c \<in> set (p @ show_nat n). byte c < 0x80" using that show_nat_digits by auto
qed

lemma valid_utf8_int: "valid_utf8 (''bench-msg-'' @ show_int i)"
proof (cases "i < 0")
  case True
  then show ?thesis using valid_utf8_digits [of "''bench-msg--''"] by (simp add: show_int_def)
next
  case False
  then show ?thesis using valid_utf8_digits [of "''bench-msg-''"] by (simp add: show_int_def)
qed

lemma bench_text_decodes:
  assumes "skip_ws tail = []"
  shows "\<exists>t. bench_text i n tail = Some t \<and>
    (\<exists>v. unmarshal_WsPacket t = (\<lparr>wp_Type = TypeDanmaku, wp_RoomID = bot_room i, wp_Data = Some v\<rparr>, None) \<and>
      unmarshal_DanmakuMessage v = (bench_msg n, None))"
proof -
  have time: "valid_time (dm_SendTime (bench_msg n))" by (simp add: bench_msg_def zero_danmaku_def)
  have c: "clean_danmaku (bench_msg n) = bench_msg n"
    by (simp add: clean_danmaku_def bench_msg_def zero_danmaku_def valid_utf8_int [simplified])
  let ?v = "object_text (danmaku_members (bench_msg n))"
  have "packet_ok \<lparr>wp_Type = TypeDanmaku, wp_RoomID = bot_room i, wp_Data = Some ?v\<rparr>"
    using danmaku_payload valid_utf8_digits [of "''room_''"]
    by (simp add: packet_ok_def carries_def TypeDanmaku_def bot_room_def)
  from packet_roundtrip_tail [OF this] assms
  show ?thesis using marshal_danmaku_text [OF time] unmarshal_danmaku_text [OF time] c
    by (auto simp: bench_text_def bench_packet_def)
qed

lemma wrote_decodes:
  assumes "wrote i n t"
  shows "\<exists>v. unmarshal_WsPacket t = (\<lparr>wp_Type = TypeDanmaku, wp_RoomID = bot_room i, wp_Data = Some v\<rparr>, None) \<and>
    unmarshal_DanmakuMessage v = (bench_msg n, None)"
  using assms bench_text_decodes unfolding wrote_def by (metis option.inject)

lemma wrote_content: "wrote i n t \<Longrightarrow> bench_content t = ''bench-msg-'' @ show_int (sint n)"
  using wrote_decodes [of i n t] by (auto simp: bench_content_def raw_bytes_def bench_msg_def)


text \<open>The numbers of all messages, bot by bot, and the messages themselves.\<close>

definition all_drawn :: "benchsys \<Rightarrow> u64 list" where
  "all_drawn s = concat (map (\<lambda>i. bt_drawn (bs_bot s i)) [0..<bs_next s])"

definition all_written :: "benchsys \<Rightarrow> string list" where
  "all_written s = concat (map (\<lambda>i. bt_written (bs_bot s i)) [0..<bs_next s])"

lemma mset_concat_upt: "mset (concat (map f [0..<n])) = (\<Sum>i<n. mset (f i))"
  by (induction n) simp_all

lemma all_drawn_distinct:
  assumes "numbered s" and "length (all_drawn s) < 2 ^ 64"
  shows "distinct (all_drawn s)"
proof -
  let ?n = "total (\<lambda>b. length (bt_drawn b)) s"
  have "mset (all_drawn s) = total (\<lambda>b. mset (bt_drawn b)) s"
    unfolding all_drawn_def mset_concat_upt total_def by simp
  then have m: "mset (all_drawn s) = mset (map of_nat [1..<Suc ?n])" using assms(1) by (simp add: numbered_def)
  then have "length (all_drawn s) = ?n" using mset_eq_length [OF m] by simp
  then have "inj_on (of_nat :: nat \<Rightarrow> u64) (set [1..<Suc ?n])"
    using assms(2) by (intro inj_onI) (auto simp: word_of_nat_eq_iff take_bit_nat_eq_self_iff [THEN iffD2])
  then have "distinct (map (of_nat :: nat \<Rightarrow> u64) [1..<Suc ?n])" by (simp only: distinct_map distinct_upt simp_thms)
  then show ?thesis using mset_eq_imp_distinct_iff [OF m] by simp
qed

lemma subseq_concat: "(\<And>i. i \<in> set xs \<Longrightarrow> subseq (f i) (g i)) \<Longrightarrow> subseq (concat (map f xs)) (concat (map g xs))"
  by (induction xs) (simp_all add: list_emb_append_mono)

lemma sends_numbers: "sends_ok i b \<Longrightarrow> \<exists>ns. list_all2 (wrote i) ns (bt_written b) \<and> subseq ns (bt_drawn b)"
  unfolding sends_ok_def by (cases "bt_pc b") (auto, metis subseq_rev_drop_many)

lemma written_numbered:
  assumes "bot_ok i b" and "t \<in> set (bt_written b)"
  shows "\<exists>n \<in> set (bt_drawn b). wrote i n t"
proof -
  obtain ns where ns: "list_all2 (wrote i) ns (bt_written b)" "subseq ns (bt_drawn b)"
    using assms(1) sends_numbers by (auto simp: bot_ok_def)
  obtain k where k: "k < length (bt_written b)" "t = bt_written b ! k" using assms(2) by (auto simp: in_set_conv_nth)
  then have "wrote i (ns ! k) t" using ns(1) by (simp add: list_all2_nthD2)
  moreover have "ns ! k \<in> set ns" using k ns(1) by (simp add: list_all2_lengthD)
  then have "ns ! k \<in> set (bt_drawn b)" using list_emb_set [OF ns(2)] by blast
  ultimately show ?thesis by blast
qed

lemma subseq_distinct: "subseq xs ys \<Longrightarrow> distinct ys \<Longrightarrow> distinct xs"
  by (auto simp: subseq_conv_nths)

lemma contents_of_numbers:
  "list_all2 (wrote i) ns ts \<Longrightarrow> map bench_content ts = map (\<lambda>n. ''bench-msg-'' @ show_int (sint n)) ns"
  by (induction rule: list_all2_induct) (simp_all add: wrote_content)

lemma show_u64_inject: "show_int (sint (m :: u64)) = show_int (sint n) \<longleftrightarrow> m = n"
proof -
  have "ParseInt (show_int (sint k)) = Inr (sint k)" for k :: u64
    using sint_lt [of k] sint_ge [of k] by (intro ParseInt_show) simp_all
  then show ?thesis by (metis Inr_inject signed_word_eqI)
qed

lemma all_written_distinct:
  assumes "bench_inv s" and "length (all_drawn s) < 2 ^ 64"
  shows "distinct (map bench_content (all_written s))"
proof -
  have "\<exists>ns. list_all2 (wrote i) ns (bt_written (bs_bot s i)) \<and> subseq ns (bt_drawn (bs_bot s i))" for i
    by (rule sends_numbers) (use assms(1) in \<open>simp add: bench_inv_def bot_ok_def\<close>)
  then obtain ns where ns: "\<And>i. list_all2 (wrote i) (ns i) (bt_written (bs_bot s i))"
    "\<And>i. subseq (ns i) (bt_drawn (bs_bot s i))" by metis
  let ?ns = "concat (map ns [0..<bs_next s])" and ?f = "\<lambda>n :: u64. ''bench-msg-'' @ show_int (sint n)"
  have "distinct (all_drawn s)" using assms by (intro all_drawn_distinct) (simp_all only: bench_inv_def)
  moreover have "subseq ?ns (all_drawn s)" unfolding all_drawn_def using ns(2) by (intro subseq_concat)
  ultimately have "distinct ?ns" using subseq_distinct by blast
  moreover have "inj ?f" by (rule injI) (simp add: show_u64_inject)
  moreover have "map bench_content (all_written s) = map ?f ?ns"
    unfolding all_written_def map_concat map_map comp_def contents_of_numbers [OF ns(1)] ..
  ultimately show ?thesis by (auto simp: distinct_map intro: inj_on_subset)
qed


section \<open>What the counters say\<close>

definition refused :: "bot \<Rightarrow> bool" where
  "refused b \<longleftrightarrow> bt_reader b = RNone \<and> (bt_pc b = BLeft \<or> bt_pc b = BEnded)"

definition counting :: "bot \<Rightarrow> bool" where
  "counting b \<longleftrightarrow> (case bt_pc b of BWritten \<Rightarrow> True | BCounted \<Rightarrow> True | BLoaded n \<Rightarrow> True | _ \<Rightarrow> False)"

definition bots :: "(bot \<Rightarrow> bool) \<Rightarrow> benchsys \<Rightarrow> nat" where
  "bots P s = card {i. i < bs_next s \<and> P (bs_bot s i)}"

definition all_expected :: "benchsys \<Rightarrow> u64 list" where
  "all_expected s = concat (map (\<lambda>i. bt_expected (bs_bot s i)) [0..<bs_next s])"

definition all_received :: "benchsys \<Rightarrow> string option list" where
  "all_received s = concat (map (\<lambda>i. bt_received (bs_bot s i)) [0..<bs_next s])"

lemma total_bots: "total (\<lambda>b. if P b then 1 else (0 :: 'a::semiring_1)) s = of_nat (bots P s)"
proof -
  have "{..<bs_next s} \<inter> {i. P (bs_bot s i)} = {i. i < bs_next s \<and> P (bs_bot s i)}" by auto
  then show ?thesis by (simp add: total_def bots_def sum.If_cases)
qed

lemma total_add: "total (\<lambda>b. f b + g b) s = total f s + total g s"
  by (simp add: total_def sum.distrib)

lemma total_minus: "total (\<lambda>b. f b - (g b :: 'a::ab_group_add)) s = total f s - total g s"
  by (simp add: total_def sum_subtractf)

lemma concat_upt_hom:
  assumes "h [] = 0" and "\<And>xs ys. h (xs @ ys) = h xs + (h ys :: 'a::comm_monoid_add)"
  shows "h (concat (map f [0..<n])) = (\<Sum>i<n. h (f i))"
  by (induction n) (simp_all add: assms)

lemma total_cong: "(\<And>i. f (bs_bot s i) = g (bs_bot s i)) \<Longrightarrow> total f s = total g s"
  by (simp add: total_def)

lemma total_of_nat: "total (\<lambda>b. of_nat (f b)) s = of_nat (total f s)"
  by (simp add: total_def)

lemma one_error:
  assumes "bot_ok i b"
  shows "count_list (bt_received b) None = (if None \<in> set (bt_received b) then 1 else 0)"
proof -
  have "count_list (bt_received b) None \<le> 1" using assms by (simp add: bot_ok_def split: if_split_asm)
  then show ?thesis using count_list_0_iff [of "bt_received b" None] by auto
qed

lemma counting_own:
  assumes "bot_ok i b"
  shows "length (bt_written b) = length (bt_expected b) + (if counting b then 1 else 0)"
    and "length (bt_drawn b) = length (bt_written b) + bt_failed b + (if \<exists>n. bt_pc b = BDrawn n then 1 else 0)"
  using assms by (auto simp: bot_ok_def counting_def split: bot_pc.split)

lemma counters_of_inv:
  assumes "bench_inv s"
  shows "connectedCount (bs_counts s) = of_nat (bots (\<lambda>b. connected (bt_pc b)) s)"
    and "msgSentCount (bs_counts s) + of_nat (bots (\<lambda>b. bt_pc b = BWritten) s) = of_nat (length (all_written s))"
    and "msgRecvCount (bs_counts s) = of_nat (length (filter got_danmaku (all_received s)))"
    and "errorCount (bs_counts s) + of_nat (bots (\<lambda>b. bt_pc b = BFailed) s) =
      of_nat (total bt_failed s + bots (\<lambda>b. None \<in> set (bt_received b)) s + bots refused s)"
    and "expectedRecvCount (bs_counts s) = sum_list (all_expected s)"
    and "length (all_expected s) + bots counting s = length (all_written s)"
    and "length (all_drawn s) = length (all_written s) + total bt_failed s +
      bots (\<lambda>b. \<exists>n. bt_pc b = BDrawn n) s"
proof -
  have own: "g (bs_counts s) = total (\<lambda>b. g (own_counts b)) s" if "g \<in> set tallies" for g
    using assms that by (simp only: bench_inv_def)
  have ok: "bot_ok i (bs_bot s i)" for i using assms by (simp only: bench_inv_def)
  have lengths: "length (all_written s) = total (\<lambda>b. length (bt_written b)) s"
    "length (all_expected s) = total (\<lambda>b. length (bt_expected b)) s"
    "length (all_drawn s) = total (\<lambda>b. length (bt_drawn b)) s"
    unfolding all_written_def all_expected_def all_drawn_def total_def
    by (rule concat_upt_hom, simp_all)+
  show "connectedCount (bs_counts s) = of_nat (bots (\<lambda>b. connected (bt_pc b)) s)"
    using own [of connectedCount] by (simp add: tallies_def own_counts_def own_conn_def total_bots)
  show "msgSentCount (bs_counts s) + of_nat (bots (\<lambda>b. bt_pc b = BWritten) s) = of_nat (length (all_written s))"
    using own [of msgSentCount] concat_upt_hom [of "\<lambda>xs :: string list. of_nat (length xs) :: u64"]
    by (simp add: tallies_def own_counts_def own_sent_def total_minus total_bots all_written_def)
      (simp add: total_def)
  show "msgRecvCount (bs_counts s) = of_nat (length (filter got_danmaku (all_received s)))"
    using own [of msgRecvCount] concat_upt_hom [of "\<lambda>xs. of_nat (length (filter got_danmaku xs)) :: u64"]
    by (simp add: tallies_def own_counts_def own_recv_def all_received_def) (simp add: total_def)
  show "errorCount (bs_counts s) + of_nat (bots (\<lambda>b. bt_pc b = BFailed) s) =
      of_nat (total bt_failed s + bots (\<lambda>b. None \<in> set (bt_received b)) s + bots refused s)"
  proof -
    have "total (\<lambda>b. of_nat (count_list (bt_received b) None)) s =
      total (\<lambda>b. if None \<in> set (bt_received b) then 1 else 0 :: u64) s"
      by (rule total_cong) (simp add: one_error [OF ok])
    then show ?thesis using own [of errorCount]
      by (simp add: tallies_def own_counts_def own_errs_def total_add total_minus total_bots total_of_nat
        flip: refused_def)
  qed
  show "expectedRecvCount (bs_counts s) = sum_list (all_expected s)"
    using own [of expectedRecvCount] concat_upt_hom [of "sum_list :: u64 list \<Rightarrow> _"]
    by (simp add: tallies_def own_counts_def own_expected_def all_expected_def) (simp add: total_def)
  show "length (all_expected s) + bots counting s = length (all_written s)"
  proof -
    have "total (\<lambda>b. length (bt_written b)) s = total (\<lambda>b. length (bt_expected b) + (if counting b then 1 else 0)) s"
      by (rule total_cong) (simp add: counting_own(1) [OF ok])
    then show ?thesis by (simp add: total_add total_bots lengths)
  qed
  show "length (all_drawn s) = length (all_written s) + total bt_failed s + bots (\<lambda>b. \<exists>n. bt_pc b = BDrawn n) s"
  proof -
    have "total (\<lambda>b. length (bt_drawn b)) s =
      total (\<lambda>b. length (bt_written b) + bt_failed b + (if \<exists>n. bt_pc b = BDrawn n then 1 else 0)) s"
      by (rule total_cong) (simp add: counting_own(2) [OF ok])
    then show ?thesis by (simp add: total_add total_bots lengths)
  qed
qed


section \<open>The end\<close>

text \<open>
  How far a bot, and the generator, have to go. Nothing of the environment's doing is needed for it but
  that reads fail at some time.
\<close>

fun pc_rank :: "bot_pc \<Rightarrow> nat" where
  "pc_rank BEnded = 0"
| "pc_rank BLeft = 1"
| "pc_rank BLeaving = 2"
| "pc_rank BListen = 3"
| "pc_rank BSelect = 3"
| "pc_rank (BLoaded n) = 4"
| "pc_rank BFailed = 4"
| "pc_rank BCounted = 5"
| "pc_rank BWritten = 6"
| "pc_rank (BDrawn n) = 7"
| "pc_rank BRefused = 2"
| "pc_rank BDialled = 7"
| "pc_rank BDial = 8"
| "pc_rank BIdle = 9"

fun read_rank :: "read_pc \<Rightarrow> nat" where
  "read_rank RReading = 3"
| "read_rank RErr = 2"
| "read_rank RClosed = 1"
| "read_rank RDone = 0"
| "read_rank RNone = 0"

definition rank :: "bot \<Rightarrow> nat" where
  "rank b = pc_rank (bt_pc b) + read_rank (bt_reader b)"

definition to_go :: "benchsys \<Rightarrow> nat" where
  "to_go s = (\<Sum>i<bs_clients s. rank (bs_bot s i)) + (if bs_main s = MStarting then 1 else 0)"

text \<open>A bot that has not ended can always make a step that brings it closer.\<close>

lemma bot_can_step:
  assumes "bot_ok i (bs_bot s i)" and "bt_pc (bs_bot s i) \<noteq> BIdle" and "bt_pc (bs_bot s i) \<noteq> BEnded"
  shows "\<exists>t. bot_step i s t \<and> rank (bs_bot t i) < rank (bs_bot s i)"
proof -
  let ?b = "bs_bot s i"
  have ok: "goroutines_ok ?b" using assms(1) by (simp add: bot_ok_def)
  have waiting: ?thesis if pc: "bt_pc ?b = BListen \<or> bt_pc ?b = BSelect"
  proof (cases "bt_reader ?b")
    case RNone
    then show ?thesis using pc ok by (auto simp: goroutines_ok_def connected_def)
  next
    case RReading
    then have "\<exists>t. read_loop i None s = Some t \<and> rank (bs_bot t i) < rank ?b" by (simp add: bench_ops rank_def)
    then show ?thesis by (blast intro: reads)
  next
    case RDone
    with pc have "\<exists>t. leave i s = Some t \<and> rank (bs_bot t i) < rank ?b" by (auto simp: bench_ops rank_def)
    then show ?thesis by (blast intro: leaves)
  next
    case RErr
    then have "\<exists>t. read_close i s = Some t \<and> rank (bs_bot t i) < rank ?b" by (simp add: bench_ops rank_def)
    then show ?thesis by (blast intro: closes)
  next
    case RClosed
    then have "\<exists>t. read_close i s = Some t \<and> rank (bs_bot t i) < rank ?b" by (simp add: bench_ops rank_def)
    then show ?thesis by (blast intro: closes)
  qed
  consider "bt_pc ?b = BDial" | "bt_pc ?b = BRefused \<or> bt_pc ?b = BDialled" | n where "bt_pc ?b = BDrawn n"
    | "bt_pc ?b \<in> {BWritten, BFailed, BCounted} \<or> (\<exists>n. bt_pc ?b = BLoaded n)"
    | "bt_pc ?b = BLeaving \<or> bt_pc ?b = BLeft" | "bt_pc ?b = BListen \<or> bt_pc ?b = BSelect"
    using assms(2,3) by (cases "bt_pc ?b") auto
  then show ?thesis
  proof cases
    case 1
    then have "\<exists>t. dial i True s = Some t \<and> rank (bs_bot t i) < rank ?b" by (simp add: bench_ops rank_def)
    then show ?thesis by (blast intro: dials)
  next
    case 2
    moreover from this ok have "bt_reader ?b = RNone" by (auto simp: goroutines_ok_def)
    ultimately have "\<exists>t. dial_count i True s = Some t \<and> rank (bs_bot t i) < rank ?b"
      by (auto simp: bench_ops rank_def)
    then show ?thesis by (blast intro: counts_dial)
  next
    case 3
    then have "\<exists>t. send_write i False [] s = Some t \<and> rank (bs_bot t i) < rank ?b"
      by (cases "bench_text i n []") (simp_all add: bench_ops rank_def)
    moreover have "skip_ws [] = []" by (simp add: skip_ws_def)
    ultimately show ?thesis by (blast intro: writes)
  next
    case 4
    then have "\<exists>t. send_count i s = Some t \<and> rank (bs_bot t i) < rank ?b" by (auto simp: bench_ops rank_def)
    then show ?thesis by (blast intro: counts_send)
  next
    case 5
    then have "\<exists>t. leave i s = Some t \<and> rank (bs_bot t i) < rank ?b" by (auto simp: bench_ops rank_def put_bot_def)
    then show ?thesis by (blast intro: leaves)
  next
    case 6
    then show ?thesis by (rule waiting)
  qed
qed

lemma rank_new: "rank new_bot = 9" "rank (new_bot\<lparr>bt_pc := BDial\<rparr>) = 8"
  by (simp_all add: rank_def new_bot_def)

lemma to_go_update:
  assumes "bs_bot t = (bs_bot s)(i := b)" and "bs_clients t = bs_clients s" and "bs_main t = bs_main s"
    and "i < bs_clients s" and "rank b < rank (bs_bot s i)"
  shows "to_go t < to_go s"
proof -
  have "(\<Sum>j<bs_clients s. rank (bs_bot t j)) < (\<Sum>j<bs_clients s. rank (bs_bot s j))"
    using assms by (intro sum_strict_mono_ex1) auto
  then show ?thesis using assms by (simp add: to_go_def)
qed

lemma bench_can_step:
  assumes "bench_inv s" and "bs_main s = MStarting \<or> bs_main s = MWaiting"
  shows "\<exists>t. bench_step s t \<and> bs_main t \<in> {MStarting, MWaiting, MSignal} \<and>
    (to_go t < to_go s \<or> bs_main t = MSignal)"
proof -
  have run: "running s" using assms(2) by (auto simp: running_def)
  have main: "main_ok s" using assms(1) by (simp only: bench_inv_def)
  have new: "bs_bot s i = new_bot" if "bs_next s \<le> i" for i using assms(1) that by (simp only: bench_inv_def)
  consider "bs_main s = MStarting" | i where "bs_main s = MWaiting" "i < bs_next s" "bt_pc (bs_bot s i) \<noteq> BEnded"
    | "bs_main s = MWaiting" "\<forall>i < bs_next s. bt_pc (bs_bot s i) = BEnded"
    using assms(2) by blast
  then show ?thesis
  proof cases
    case 1
    then obtain t where t: "start_bot s = Some t" by (cases "start_bot s") (simp_all add: start_bot_def split: if_split_asm)
    have "to_go t < to_go s \<and> bs_main t \<in> {MStarting, MWaiting}"
    proof (cases "bs_next s < bs_clients s")
      case True
      then have "bs_bot t = (bs_bot s)(bs_next s := new_bot\<lparr>bt_pc := BDial\<rparr>)" "bs_clients t = bs_clients s"
        "bs_main t = bs_main s" using t 1 by (auto simp: start_bot_def put_bot_def)
      then show ?thesis using to_go_update [of t s "bs_next s"] True new rank_new 1 by simp
    next
      case False
      then show ?thesis using t 1 by (auto simp: start_bot_def to_go_def)
    qed
    then show ?thesis using starts [OF run t] by blast
  next
    case 2
    moreover have ok: "bot_ok i (bs_bot s i)" using assms(1) by (simp only: bench_inv_def)
    moreover have "bt_pc (bs_bot s i) \<noteq> BIdle" using bench_invD(3) [OF assms(1) 2(2)] .
    ultimately obtain t where t: "bot_step i s t" "rank (bs_bot t i) < rank (bs_bot s i)"
      using bot_can_step by blast
    moreover have m: "moved i (bs_bot t i) s t" using t(1) ok by (intro bot_step_moves) (simp_all add: bot_ok_def)
    ultimately have "to_go t < to_go s"
      using 2 main by (intro to_go_update [where i = i]) (simp_all add: moved_def main_ok_def)
    then show ?thesis using works [OF run t(1)] 2 m by (auto simp: moved_def)
  next
    case 3
    then have "total own_ended s = int (bs_next s)" by (simp add: total_def own_ended_def)
    then have "wait_group s = Some (s\<lparr>bs_main := MSignal\<rparr>)" using 3 main by (simp add: main_ok_def wait_group_def)
    then show ?thesis using waits [OF run] by fastforce
  qed
qed


text \<open>From wherever it is, the generator can let all bots end and then waits to be told to stop.\<close>

lemma bench_can_end:
  assumes "bench_inv s" and "bs_main s \<in> {MStarting, MWaiting, MSignal}"
  shows "\<exists>t. bench_step\<^sup>*\<^sup>* s t \<and> bs_main t = MSignal"
  using assms
proof (induction "to_go s" arbitrary: s rule: less_induct)
  case less
  show ?case
  proof (cases "bs_main s = MSignal")
    case False
    then obtain t where t: "bench_step s t" "bs_main t \<in> {MStarting, MWaiting, MSignal}"
      "to_go t < to_go s \<or> bs_main t = MSignal"
      using bench_can_step less.prems by blast
    have "\<exists>u. bench_step\<^sup>*\<^sup>* t u \<and> bs_main u = MSignal"
    proof (cases "bs_main t = MSignal")
      case False
      then show ?thesis using t less.hyps bench_step_inv less.prems(1) by blast
    qed blast
    then show ?thesis using t(1) by (meson converse_rtranclp_into_rtranclp)
  qed blast
qed

text \<open>
  A signal before that kills the generator, whose deferred functions then do not run; after it every bot
  has ended and nobody is counted as connected.
\<close>

lemma interrupt_kills: "bs_main s \<noteq> MSignal \<Longrightarrow> bs_main (interrupt s) = MKilled"
  by (simp add: interrupt_def)

lemma stopped_quiet:
  assumes "bench_inv s" and "bs_main s \<in> {MSignal, MStopped}"
  shows "\<forall>i < bs_clients s. bt_pc (bs_bot s i) = BEnded" "connectedCount (bs_counts s) = 0"
    "msgSentCount (bs_counts s) = of_nat (length (all_written s))"
proof -
  have main: "main_ok s" using assms(1) by (simp only: bench_inv_def)
  then show ended: "\<forall>i < bs_clients s. bt_pc (bs_bot s i) = BEnded" using all_ended assms(2) by blast
  then have "bots (\<lambda>b. connected (bt_pc b)) s = 0" "bots (\<lambda>b. bt_pc b = BWritten) s = 0"
    using main by (simp_all add: bots_def connected_def main_ok_def)
  then show "connectedCount (bs_counts s) = 0" "msgSentCount (bs_counts s) = of_nat (length (all_written s))"
    using counters_of_inv(1,2) [OF assms(1)] by simp_all
qed

end
