(* ===== verification/BenchThms.thy ===== *)
theory BenchThms
  imports BenchInv ManagerThms
begin

text \<open>
  What the load generator promises: its counters, its messages, and what becomes of them on a server
  and at the consumer.
\<close>

section \<open>Properties\<close>

text \<open>A run of one bot: it connects, draws the number 1 and writes its message.\<close>

lemma one_message_run:
  "\<exists>s0 s t. bench_main 1 = Some s0 \<and> bench_step\<^sup>*\<^sup>* s0 s \<and> bs_next s = 1 \<and> bt_pc (bs_bot s 0) = BWritten \<and>
     bt_drawn (bs_bot s 0) = [1] \<and> bt_written (bs_bot s 0) = [t] \<and> bench_content t = ''bench-msg-1''"
proof -
  obtain s0 where s0: "bench_main 1 = Some s0" "running s0" "bs_main s0 = MStarting" "bs_next s0 = 0"
    "bs_clients s0 = 1" "globalMsgSeq (bs_counts s0) = 0"
    by (simp add: bench_main_def running_def no_counts_def)
  define s1 where "s1 = put_bot 0 (new_bot\<lparr>bt_pc := BDial\<rparr>) id s0\<lparr>bs_next := 1\<rparr>"
  define s2 where "s2 = put_bot 0 (new_bot\<lparr>bt_pc := BDialled\<rparr>) id s1"
  define s3 where "s3 = put_bot 0 (new_bot\<lparr>bt_pc := BSelect, bt_reader := RReading\<rparr>) (bot_dial True) s2"
  define s4 where "s4 = put_bot 0 (new_bot\<lparr>bt_pc := BDrawn 1, bt_reader := RReading, bt_drawn := [1]\<rparr>)
    (\<lambda>c. c\<lparr>globalMsgSeq := 1\<rparr>) s3"
  have sk: "skip_ws [] = []" by (simp add: skip_ws_def)
  obtain t where t: "bench_text 0 1 [] = Some t" using bench_text_decodes [OF sk] by blast
  define s5 where "s5 = put_bot 0 (new_bot\<lparr>bt_pc := BWritten, bt_reader := RReading, bt_drawn := [1],
    bt_written := [t]\<rparr>) id s4"
  have run: "running s1" "running s2" "running s3" "running s4"
    using s0(2) by (simp_all add: s1_def s2_def s3_def s4_def put_bot_def running_def)
  have seq: "globalMsgSeq (bs_counts s3) = 0"
    using s0(6) by (simp add: s1_def s2_def s3_def put_bot_def bot_dial_def)
  have "bench_step s0 s1" using s0 by (intro starts) (simp_all add: start_bot_def s1_def)
  moreover have "bench_step s1 s2"
    by (intro works [OF run(1), where i = 0] dials [where ok = True]) (simp add: bench_ops s1_def s2_def new_bot_def put_bot_def)
  moreover have "bench_step s2 s3"
    by (intro works [OF run(2), where i = 0] counts_dial [where isTalker = True])
      (simp add: bench_ops s2_def s3_def new_bot_def)
  moreover have "bench_step s3 s4"
    by (intro works [OF run(3), where i = 0] draws) (simp add: bench_ops seq, simp add: s3_def s4_def new_bot_def)
  moreover have "bench_step s4 s5"
    by (intro works [OF run(4), where i = 0] writes [where write_ok = True and tail = "[]"])
      (simp_all add: bench_ops sk t conn_open_def s4_def s5_def new_bot_def)
  ultimately have "bench_step\<^sup>*\<^sup>* s0 s5"
    by - (assumption | rule rtranclp.rtrancl_refl | erule converse_rtranclp_into_rtranclp)+
  moreover have one: "show_nat 1 = ''1''" by code_simp
  have "wrote 0 1 t" unfolding wrote_def using t sk by blast
  then have "bench_content t = ''bench-msg-'' @ show_nat 1" using wrote_content [of 0 1 t] by (simp add: show_int_def)
  then have "bench_content t = ''bench-msg-1''" using one by simp
  moreover have "bs_next s5 = 1" by (simp add: s1_def s2_def s3_def s4_def s5_def put_bot_def)
  moreover have "bt_pc (bs_bot s5 0) = BWritten" "bt_drawn (bs_bot s5 0) = [1]" "bt_written (bs_bot s5 0) = [t]"
    by (simp_all add: s5_def)
  ultimately show ?thesis using s0(1) by blast
qed


text \<open>
  C29. Whatever order the goroutines run in, the counters of the load generator mean what they are
  printed as: the connections are the bots between their dialling and their leaving, what was sent is
  what was written to the sockets (less the writes not yet counted), what was received is the danmaku
  the read loops got, the errors are the failed writes, ended read loops and refused dials, and the
  expected count is the sum of the numbers of connections loaded, one for each message written and
  counted.
\<close>

theorem bench_counts:
  assumes "bench_main clients = Some s0" and "bench_step\<^sup>*\<^sup>* s0 s"
  shows "connectedCount (bs_counts s) = of_nat (bots (\<lambda>b. connected (bt_pc b)) s) \<and>
    msgSentCount (bs_counts s) + of_nat (bots (\<lambda>b. bt_pc b = BWritten) s) = of_nat (length (all_written s)) \<and>
    msgRecvCount (bs_counts s) = of_nat (length (filter got_danmaku (all_received s))) \<and>
    errorCount (bs_counts s) + of_nat (bots (\<lambda>b. bt_pc b = BFailed) s) =
      of_nat (total bt_failed s + bots (\<lambda>b. None \<in> set (bt_received b)) s + bots refused s) \<and>
    expectedRecvCount (bs_counts s) = sum_list (all_expected s) \<and>
    length (all_expected s) + bots counting s = length (all_written s)"
  using counters_of_inv [OF bench.run_keeps [OF assms(2) bench_main_inv [OF assms(1)]]] by blast

theorem bench_counts_witness:
  "\<exists>s. length (all_written s) = 1 \<and> msgSentCount (bs_counts s) = 0 \<and> connectedCount (bs_counts s) = 1"
proof -
  obtain s0 s t where r: "bench_main 1 = Some s0" "bench_step\<^sup>*\<^sup>* s0 s" and n: "bs_next s = 1"
    and b: "bt_pc (bs_bot s 0) = BWritten" "bt_written (bs_bot s 0) = [t]"
    using one_message_run by blast
  have bots: "bots P s = (if P (bs_bot s 0) then 1 else 0)" for P
  proof -
    have "{i. i < bs_next s \<and> P (bs_bot s i)} = (if P (bs_bot s 0) then {0} else {})" using n by auto
    then show ?thesis by (simp add: bots_def)
  qed
  have "length (all_written s) = 1" using n b by (simp add: all_written_def)
  then show ?thesis
    using bench_counts [OF r] b by (intro exI [of _ s]) (simp add: bots connected_def)
qed

text \<open>
  C30. What the bots write are danmaku a server can read, in the room of the bot, with a number the bot
  has drawn, and no two of them (of fewer than 2^64) have the same content.
\<close>

theorem bench_messages:
  assumes "bench_main clients = Some s0" and "bench_step\<^sup>*\<^sup>* s0 s" and "length (all_drawn s) < 2 ^ 64"
  shows "(\<forall>i. list_all (\<lambda>t. list_ex (\<lambda>n. \<exists>v.
      unmarshal_WsPacket t = (\<lparr>wp_Type = TypeDanmaku, wp_RoomID = bot_room i, wp_Data = Some v\<rparr>, None) \<and>
      unmarshal_DanmakuMessage v = (bench_msg n, None)) (bt_drawn (bs_bot s i))) (bt_written (bs_bot s i))) \<and>
    distinct (map bench_content (all_written s))"
proof
  have inv: "bench_inv s" using bench.run_keeps [OF assms(2) bench_main_inv [OF assms(1)]] .
  show "distinct (map bench_content (all_written s))" using inv assms(3) by (rule all_written_distinct)
  show "\<forall>i. list_all (\<lambda>t. list_ex (\<lambda>n. \<exists>v.
      unmarshal_WsPacket t = (\<lparr>wp_Type = TypeDanmaku, wp_RoomID = bot_room i, wp_Data = Some v\<rparr>, None) \<and>
      unmarshal_DanmakuMessage v = (bench_msg n, None)) (bt_drawn (bs_bot s i))) (bt_written (bs_bot s i))"
    unfolding list_all_iff list_ex_iff using written_numbered [OF bench_invD(1) [OF inv]] wrote_decodes by meson
qed

theorem bench_messages_witness:
  "\<exists>s t. all_written s = [t] \<and> wp_RoomID (fst (unmarshal_WsPacket t)) = ''room_0''"
proof -
  obtain s0 s t where r: "bench_main 1 = Some s0" "bench_step\<^sup>*\<^sup>* s0 s" and n: "bs_next s = 1"
    and b: "bt_drawn (bs_bot s 0) = [1]" "bt_written (bs_bot s 0) = [t]"
    using one_message_run by blast
  have "length (all_drawn s) < 2 ^ 64" using n b by (simp add: all_drawn_def)
  from bench_messages [OF r this] have "list_all (\<lambda>t. list_ex (\<lambda>n. \<exists>v.
      unmarshal_WsPacket t = (\<lparr>wp_Type = TypeDanmaku, wp_RoomID = bot_room 0, wp_Data = Some v\<rparr>, None) \<and>
      unmarshal_DanmakuMessage v = (bench_msg n, None)) (bt_drawn (bs_bot s 0))) (bt_written (bs_bot s 0))" by blast
  then have "wp_RoomID (fst (unmarshal_WsPacket t)) = bot_room 0" using b by auto
  moreover have "bot_room 0 = ''room_0''" by code_simp
  ultimately show ?thesis using n b by (intro exI [of _ s] exI [of _ t]) (simp add: all_written_def)
qed

section \<open>On the way through the system\<close>

text \<open>
  What a bot writes, read by the server it is connected to, ends in Kafka in a form the consumer parses
  to the bot's user and room, a number the bot has drawn, and the time the server read it.
\<close>

lemma bench_message_travels:
  assumes "bot_ok i (bs_bot s i)" and "t \<in> set (bt_written (bs_bot s i))"
    and "sv_conn sv p = ConnRead" and "sv_clients sv p = NewClient (of_nat i) name (bot_room i)" and "valid_time now"
  shows "\<exists>n \<in> set (bt_drawn (bs_bot s i)). \<exists>out v. conn_read now t p sv = set_conn p (ConnSend out) sv \<and>
    sv_Kafka (handleBroadcast api k out sv') = sv_Kafka sv' @ [(DanmakuSaveTopic, v)] \<and>
    parseMessage v = Inr (Some \<lparr>dm_ID = 0, dm_RoomID = bot_room i, dm_UserID = of_nat i,
      dm_Content = ''bench-msg-'' @ show_int (sint n), dm_SendTime = now\<rparr>)"
proof -
  obtain n where n: "n \<in> set (bt_drawn (bs_bot s i))" "wrote i n t" using written_numbered [OF assms(1,2)] by blast
  obtain v where v: "unmarshal_WsPacket t = (\<lparr>wp_Type = TypeDanmaku, wp_RoomID = bot_room i, wp_Data = Some v\<rparr>, None)"
    "unmarshal_DanmakuMessage v = (bench_msg n, None)"
    using wrote_decodes [OF n(2)] by blast
  have c: "cl_RoomID (sv_clients sv p) = bot_room i" "cl_UserID (sv_clients sv p) = of_nat i"
    using assms(4) by (simp_all add: NewClient_def)
  have room: "valid_utf8 (bot_room i)" using valid_utf8_digits [of "''room_''"] by (simp add: bot_room_def)
  have "\<exists>out v. conn_read now t p sv = set_conn p (ConnSend out) sv \<and>
    sv_Kafka (handleBroadcast api k out sv') = sv_Kafka sv' @ [(DanmakuSaveTopic, v)] \<and>
    parseMessage v = Inr (Some \<lparr>dm_ID = 0, dm_RoomID = bot_room i, dm_UserID = of_nat i,
      dm_Content = dm_Content (bench_msg n), dm_SendTime = now\<rparr>)"
    using danmaku_travels [OF assms(3) v(1) _ _ assms(5), of "bench_msg n" api k sv'] v(2) room
    by (simp add: c raw_bytes_def)
  then show ?thesis using n(1) by (intro bexI [of _ n]) (simp_all add: bench_msg_def)
qed

text \<open>The Kafka generator: unless it ends at once, all it sends is parsed by the consumer.\<close>

lemma bench_payload_parsed:
  assumes "valid_time now"
  shows "\<exists>v. bench_payload now = Some v \<and> parseMessage v = Inr (Some (bench_danmaku now))"
proof -
  have "valid_utf8 ''room_benchmark_1''" "valid_utf8 ''This is a stress test message for Kafka optimization''"
    by (rule valid_utf8_ascii, simp)+
  then show ?thesis
    using published_danmaku_parsed [of "bench_danmaku now" "''room_benchmark_1''"] assms
    by (auto simp: clean_danmaku_def bench_danmaku_def bench_payload_def)
qed

lemma kafka_bench_parsed:
  assumes "valid_time now" and "kafka_bench cfg new now = Some (sent, input)"
  shows "sent = 4999800 \<and> length input = 4999800 \<and>
    list_all (\<lambda>(topic, v). topic = DanmakuSaveTopic \<and> parseMessage v = Inr (Some (bench_danmaku now))) input"
proof -
  obtain v where v: "bench_payload now = Some v" "parseMessage v = Inr (Some (bench_danmaku now))"
    using bench_payload_parsed [OF assms(1)] by blast
  then have "(sent, input) = run_workers Goroutines v (0, [])"
    using assms(2) by (simp add: kafka_bench_def split: option.split_asm)
  then show ?thesis using v(2) by (simp add: kafka_bench_sends list_all_iff)
qed

text \<open>A message sent with nothing in between has the effect of \<^term>\<open>sendDanmaku\<close> on the counters.\<close>

lemma send_alone:
  assumes "running s" and "bt_pc (bs_bot s i) = BSelect" and "conn_open (bs_bot s i)" and "skip_ws tail = []"
  shows "\<exists>u. bench_step\<^sup>*\<^sup>* s u \<and> (Some (last (bt_written (bs_bot u i))), bs_counts u) =
    sendDanmaku True (bot_room i) tail (bs_counts s)"
proof -
  let ?b = "bs_bot s i" and ?c = "bs_counts s" and ?n = "globalMsgSeq (bs_counts s) + 1"
  obtain t where t: "bench_text i ?n tail = Some t" using bench_text_decodes [OF assms(4)] by blast
  define b where "b = ?b\<lparr>bt_drawn := bt_drawn ?b @ [?n], bt_written := bt_written ?b @ [t]\<rparr>"
  define s1 where "s1 = put_bot i (?b\<lparr>bt_pc := BDrawn ?n, bt_drawn := bt_drawn ?b @ [?n]\<rparr>) (\<lambda>c. c\<lparr>globalMsgSeq := ?n\<rparr>) s"
  define s2 where "s2 = put_bot i (b\<lparr>bt_pc := BWritten\<rparr>) id s1"
  define s3 where "s3 = put_bot i (b\<lparr>bt_pc := BCounted\<rparr>) (\<lambda>c. c\<lparr>msgSentCount := msgSentCount c + 1\<rparr>) s2"
  define s4 where "s4 = put_bot i (b\<lparr>bt_pc := BLoaded (connectedCount ?c)\<rparr>) id s3"
  define s5 where "s5 = put_bot i (b\<lparr>bt_pc := BSelect, bt_expected := bt_expected b @ [connectedCount ?c]\<rparr>)
    (\<lambda>c. c\<lparr>expectedRecvCount := expectedRecvCount c + connectedCount ?c\<rparr>) s4"
  have run: "running s1" "running s2" "running s3" "running s4"
    using assms(1) by (simp_all add: s1_def s2_def s3_def s4_def put_bot_def running_def)
  have conn: "connectedCount (bs_counts s3) = connectedCount ?c"
    by (simp add: s1_def s2_def s3_def put_bot_def)
  have counted: "bs_bot s3 i = b\<lparr>bt_pc := BCounted\<rparr>" by (simp add: s3_def)
  have "bench_step s s1" by (intro works [OF assms(1), where i = i] draws) (simp add: bench_ops assms(2) s1_def)
  moreover have "bench_step s1 s2"
    by (intro works [OF run(1), where i = i] writes [where write_ok = True and tail = tail])
      (use assms(3,4) t in \<open>cases ?b; simp add: bench_ops conn_open_def s1_def s2_def b_def\<close>)+
  moreover have "bench_step s2 s3"
    by (intro works [OF run(2), where i = i] counts_send) (simp add: bench_ops s2_def s3_def)
  moreover have "bench_step s3 s4"
    by (intro works [OF run(3), where i = i] counts_send) (simp add: bench_ops conn s4_def counted)
  moreover have "bench_step s4 s5"
    by (intro works [OF run(4), where i = i] counts_send) (simp add: bench_ops s4_def s5_def)
  ultimately have "bench_step\<^sup>*\<^sup>* s s5"
    by - (assumption | rule rtranclp.rtrancl_refl | erule converse_rtranclp_into_rtranclp)+
  moreover have "bs_counts s5 = ?c\<lparr>globalMsgSeq := ?n, msgSentCount := msgSentCount ?c + 1,
      expectedRecvCount := expectedRecvCount ?c + connectedCount ?c\<rparr>"
    by (simp add: s1_def s2_def s3_def s4_def s5_def put_bot_def)
  moreover have "last (bt_written (bs_bot s5 i)) = t" by (simp add: s5_def b_def)
  moreover have "sendDanmaku True (bot_room i) tail ?c = (Some t, ?c\<lparr>globalMsgSeq := ?n,
      msgSentCount := msgSentCount ?c + 1, expectedRecvCount := expectedRecvCount ?c + connectedCount ?c\<rparr>)"
    using t by (simp add: sendDanmaku_def bench_text_def Let_def)
  ultimately show ?thesis by (intro exI [of _ s5]) simp
qed

end
