(* ===== verification/Spec2Isabelle.thy ===== *)
theory Spec2Isabelle
  imports WireThms ConsumerThms ManagerThms ManagerOrder Columns Cluster Pipeline BenchThms
begin

text \<open>
  A verification development of the live-stream danmaku system: websocket servers that take danmaku
  and likes from clients and fan them out room by room, over Redis and to Kafka, and a consumer that
  stores the danmaku in a database.

  \<^bold>\<open>The program and its model.\<close> Paths are under \<open>src/\<close>, \<open>internal/\<close> is left out. Definitions
  carry the names of the Go functions; a function that can block or meet other goroutines in the middle
  is cut there, and its parts have a suffix (\<open>broadcastStats_swap\<close>, \<open>ConsumeClaim_send\<close>).
  \<^item> \<^theory_text>\<open>Prelude\<close>, \<^theory_text>\<open>GoChan\<close>: 64 bit words, transition systems with an invariant (locale
    \<open>stable_system\<close>), labelled ones whose traces an executable abstract system can follow (locale
    \<open>implements\<close>) or are all it can do (locale \<open>offers\<close>), Go's buffered channels (locale
    \<open>bounded_queue\<close>).
  \<^item> \<^theory_text>\<open>Decimal\<close>, \<^theory_text>\<open>Utf8\<close>, \<^theory_text>\<open>JsonText\<close>, \<^theory_text>\<open>JsonLemmas\<close>, \<^theory_text>\<open>JsonFuel\<close>, \<^theory_text>\<open>GoTime\<close>: what the code
    uses of \<open>strconv\<close>, \<open>unicode/utf8\<close>, \<open>encoding/json\<close> and \<open>time\<close>. \<^theory_text>\<open>Url\<close>: queries of \<open>net/url\<close>.
  \<^item> \<^theory_text>\<open>Message\<close>, \<^theory_text>\<open>Codec\<close>, \<^theory_text>\<open>Decoded\<close>: \<open>model/\<close>, the structs of the wire and their codecs; round
    trips, and what decoding guarantees of any bytes.
  \<^item> \<^theory_text>\<open>Repo\<close>: \<open>repo/message_repo.go\<close> and \<open>service/chat_service.go\<close>.
  \<^item> \<^theory_text>\<open>Consumer\<close> (the operations one by one), \<^theory_text>\<open>ConsumerSys\<close> (their interleaving \<open>cstep\<close> on the state
    \<open>csys\<close>), \<^theory_text>\<open>ConsumerInv\<close> (the invariant \<open>cinv\<close>), \<^theory_text>\<open>ConsumerRuns\<close> (refinement, draining, concrete
    runs), \<^theory_text>\<open>ConsumerThms\<close>: \<open>consumer/handler.go\<close>.
  \<^item> \<^theory_text>\<open>Redis\<close>: \<open>infra/redis.go\<close>.
  \<^item> \<^theory_text>\<open>Client\<close>, \<^theory_text>\<open>WebApi\<close>: \<open>ws/client.go\<close>, \<open>ws/dispatcher.go\<close>, \<open>api/chat_handler.go\<close>, the route and
    address of \<open>cmd/server/main.go\<close>, and the URLs the clients dial.
  \<^item> \<^theory_text>\<open>JobPool\<close>: the broadcast jobs of \<open>ws/manager.go\<close>, their recycled slices over an explicit store
    of arrays, and the workers; their traces are those of a queue of plain lists.
  \<^item> \<^theory_text>\<open>Manager\<close> (state and methods), \<^theory_text>\<open>ManagerSys\<close> (the interleaving \<open>saction\<close>/\<open>sstep\<close> of all goroutines
    of one server), \<^theory_text>\<open>ManagerInv\<close> (the invariant \<open>sinv\<close>), \<^theory_text>\<open>ManagerFlow\<close> (where messages come from
    and go to, \<open>finv\<close>), \<^theory_text>\<open>ManagerRuns\<close> (concrete runs), \<^theory_text>\<open>ManagerOrder\<close> (in which order
    a client gets what, \<open>in_order\<close>), \<^theory_text>\<open>ManagerThms\<close>: \<open>ws/manager.go\<close>, \<open>ws/router.go\<close> and \<open>PushToInput\<close> of
    \<open>infra/kafka.go\<close>.
  \<^item> \<^theory_text>\<open>Columns\<close>: the column widths in the tags of \<open>model/message.go\<close> and what they do to a batch.
  \<^item> \<^theory_text>\<open>Infra\<close>: the settings of \<open>infra/kafka.go\<close>, \<open>infra/redis.go\<close> and \<open>logger/logger.go\<close>.
  \<^item> \<^theory_text>\<open>Startup\<close>: \<open>infra/db.go\<close>, \<open>cmd/server/main.go\<close>, \<open>cmd/consumer/main.go\<close>, with every way a start ends.
  \<^item> \<^theory_text>\<open>CliClient\<close>: \<open>cmd/client/main.go\<close>.
  \<^item> \<^theory_text>\<open>Bench\<close> (counters, monitor, Kafka generator), \<^theory_text>\<open>BenchSys\<close> (the interleaving \<open>bench_step\<close> of
    \<open>main\<close> and the bots' goroutines on the state \<open>benchsys\<close>), \<^theory_text>\<open>BenchInv\<close> (the invariant \<open>bench_inv\<close>),
    \<^theory_text>\<open>BenchThms\<close>: \<open>cmd/benchmark\<close>.
  \<^item> \<^theory_text>\<open>Cluster\<close>: any number of servers behind one Redis (\<open>cluster_step\<close>), each of which still runs as in
    \<^theory_text>\<open>ManagerSys\<close> (\<open>cluster_run_server\<close>).
  \<^item> \<^theory_text>\<open>Pipeline\<close>: any number of servers and the consumer as one system (\<open>pipe_step\<close>). The properties
    that span processes are in this theory.

  \<^bold>\<open>How the parts interact.\<close> A connection's goroutine reads a text, the dispatcher finds its handler; the
  handler of a danmaku sends a packet on \<open>Broadcast\<close>, that of a like adds to \<open>localLikes\<close>. The manager's
  loop takes packets, registrations and ticks one at a time: a danmaku goes to Kafka and to the Redis
  channel of its room, from where the subscription of each server that has the room hands it to the
  workers, and they to the clients' \<open>Send\<close> channels and their writers. A tick starts a goroutine that
  reports to Redis and broadcasts statistics. The consumer's claims parse what Kafka delivers and
  send it to one worker, which inserts batches.

  \<^bold>\<open>What is proved.\<close> Safety: what each client gets, what Kafka and the database get, no panic of the
  server in any interleaving, rooms and subscriptions exact, isolation and authenticity across servers.
  Order: each client's channel is first in, first out. Conservation and order in the consumer;
  the fate of every flush. Refinement, event by event, of the consumer to a queue settled in batches
  into a table, and of the slice pool to plain lists (there as an equivalence of traces). Round trips of every encoding, from the clients' URLs to the stored danmaku.
  Liveness: runs that deliver what is queued, across servers too, that drain the
  consumer, and that end the load generator. Bounds of all channels. The load generator's shared
  counters as sums of what its bots have done, and its messages as distinct. The error behaviour, with
  runs that exhibit what the code does not intend: lost marks after a cancelled session, a panic
  after a rebalance, nil pointers in batches, forgotten and negative likes, duplicates, messages
  that overtake each other, a long danmaku that takes its batch with it, a long line that silences
  the CLI client, an erased database, rooms whose names are not UTF-8 merged in it.

  \<^bold>\<open>Parameters.\<close> Code that is not in the repository is an argument: a record of Redis commands (laws:
  locale \<open>redis_store\<close>), GORM's insert (\<open>atomic_insert\<close>, \<open>strict_columns\<close>), query (\<open>sql_find\<close>, for any
  collation and time conversion \<open>sql_dialect\<close>) and migrator
  (locale \<open>migrations\<close>), each with an instance in memory; the constructors of Sarama, go-redis and zap
  (record \<open>platform\<close>); Sarama and Redis's delivery are rules of the step
  relations. A Go panic is a flag of the state that stops the process. What the run time chooses (map
  order, slices of a \<open>sync.Pool\<close>, capacities, the case of a \<open>select\<close>) is an argument or a choice of
  rules, and theorems hold for all of them.

  \<^bold>\<open>Bounds and fuel.\<close> Channel sizes, batch limits and retries are the code's constants. The JSON scanner
  takes fuel, twice the length of the text and two; \<open>scan_fuel\<close> in \<^theory_text>\<open>JsonFuel\<close> shows that more gives
  the same. All other loops end by a measure (\<open>to_go\<close> for the load generator), but for the consumer's main loop, which is
  \<open>partial_function\<close> and whose termination is characterised.

  \<^bold>\<open>Not modelled.\<close> What is logged, the HTTP and websocket libraries (the request's query and the
  messages are what they carry), gin's dispatch and its recovery middleware, signals (but the load generator's), deferred
  \<open>Close\<close> and \<open>Sync\<close> calls, figures the load generator formats from floating point numbers, its timers
  and its random choice of talkers, the root \<open>main.go\<close>, which prints. Timeouts appear as errors a
  command may return. Large parts of \<open>consumer/handler.go\<close> (an earlier version), of \<open>infra/redis.go\<close> and
  of \<open>api/chat_handler.go\<close> (the playback handler) are commented out in the source. Memory, scheduling
  fairness and real time are outside the model: liveness is stated as the existence of a run.
\<close>

section \<open>From the client to the database\<close>

text \<open>
  C1. Every danmaku the consumer stores is one a client sent: however many servers there are and
  however their goroutines and the consumer's interleave, what the database gains are danmaku whose
  room (its bytes that are not UTF-8 replaced by U+FFFD) and user are those of a connection one of the
  servers accepted, with a time the server took; no nil pointer and nothing else is ever stored. Kafka is trusted to deliver
  only what is on the topic, the database to insert a batch as a whole.
\<close>

theorem stored_authentic:
  assumes "atomic_insert ins rows"
    and "(pipe_step api ins)\<^sup>*\<^sup>* ((\<lambda>i. NewManager (h i) (n i) (rdb i)), NewDanmakuHandler db b) (ss, c)"
  shows "\<exists>new. rows (cs_db c) = rows db @ new \<and>
    (\<forall>r \<in> set new. \<exists>i p content now. sv_conn (ss i) p \<noteq> ConnNone \<and>
       r = Some \<lparr>dm_ID = 0, dm_RoomID = clean (cl_RoomID (sv_clients (ss i) p)),
         dm_UserID = cl_UserID (sv_clients (ss i) p), dm_Content = content, dm_SendTime = now\<rparr>)"
proof -
  have run: "(cstep ins)\<^sup>*\<^sup>* (NewDanmakuHandler db b) c" using pipe_consumer_run [OF assms(2)] by simp
  have "rows (cs_db c) = rows db @ saved (cs_flushed c)"
    using durable_store.run_rows [OF durable_store.intro [OF assms(1)] run] .
  moreover have "set (saved (cs_flushed c)) \<subseteq> set (cs_sent c)"
  proof -
    have "subseq (saved (cs_flushed c)) (concat (map fst (cs_flushed c)))" by (rule saved_subseq)
    then have "set (saved (cs_flushed c)) \<subseteq> set (concat (map fst (cs_flushed c)))"
      by (auto dest: list_emb_set)
    then show ?thesis using consumer_reaches [OF run] by (auto simp: cinv_def inv_conserve_def)
  qed
  ultimately show ?thesis
    using sent_authentic [OF assms(2)] unfolding danmaku_of_def by (intro exI [of _ "saved (cs_flushed c)"]) blast
qed

theorem stored_authentic_witness:
  "\<exists>i p content now. sv_conn (demo_servers i) p \<noteq> ConnNone \<and>
     tb_rows (cs_db demo_consumer) = [Some \<lparr>dm_ID = 0, dm_RoomID = clean (cl_RoomID (sv_clients (demo_servers i) p)),
       dm_UserID = cl_UserID (sv_clients (demo_servers i) p), dm_Content = content, dm_SendTime = now\<rparr>]"
  using stored_authentic [OF table_atomic demo_pipe_run] by (simp add: demo_rows)

section \<open>From keyboard to screen\<close>

text \<open>
  C16. A line typed at the command line client is shown by every command line client its message
  reaches: the server the line is sent to makes a packet of it, pushes its encoding to Kafka and, if
  Redis accepts it, publishes it on the channel of the sender's room; a client shown that encoding
  prints the line, whatever characters it has; bytes that are not UTF-8 arrive as U+FFFD. Only the line \<open>1\<close> is something else.
\<close>

theorem typed_line_shown:
  assumes "text \<noteq> ''1''" and "skip_ws tail = []" and "sv_conn s p = ConnRead" and "valid_time now"
  shows "\<exists>msg out v. keyboard_line text tail = Some msg \<and>
    conn_read now msg p s = set_conn p (ConnSend out) s \<and>
    sv_Kafka (handleBroadcast api k out t) = sv_Kafka t @ [(DanmakuSaveTopic, v)] \<and>
    sv_inflight (handleBroadcast api k out t) = sv_inflight t @
      (if snd (rd_publish api (sv_RedisClient t) (KeyRoomPubSub (cl_RoomID (sv_clients s p))) v) = None
       then [(KeyRoomPubSub (cl_RoomID (sv_clients s p)), v)] else []) \<and>
    show_message v = [LiveChat (clean text), InputPrompt]"
proof -
  let ?c = "sv_clients s p"
  obtain msg packet where msg: "keyboard_line text tail = Some msg" "unmarshal_WsPacket msg = (packet, None)"
    "wp_Type packet = TypeDanmaku"
    "unmarshal_DanmakuMessage (raw_bytes (wp_Data packet)) = (zero_danmaku\<lparr>dm_Content := clean text\<rparr>, None)"
    using typed_danmaku [OF assms(1,2)] by blast
  obtain w v where out: "unmarshal_DanmakuMessage w = (danmaku_of ?c (clean text) now, None)" "payload w"
    "danmaku_packet ?c (clean text) now = \<lparr>wp_Type = TypeDanmaku, wp_RoomID = cl_RoomID ?c, wp_Data = Some w\<rparr>"
    "marshal_WsPacket (danmaku_packet ?c (clean text) now) = Some v"
    using danmaku_packet_text [OF valid_utf8_clean assms(4)] by blast
  have "conn_read now msg p s = set_conn p (ConnSend (danmaku_packet ?c (clean text) now)) s"
    using read_danmaku [OF assms(3) msg(2-4)] by simp
  moreover have "show_message v = [LiveChat (clean text), InputPrompt]"
    using show_danmaku [OF _ out(2) out(1)] out(3,4) by (simp add: danmaku_of_def)
  ultimately show ?thesis
    using msg(1) broadcast_danmaku [OF _ out(4), of api k t] out(3) by fastforce
qed

theorem typed_line_shown_witness:
  "\<exists>v. show_message v = [LiveChat ''hello'', InputPrompt]"
proof -
  define s where "s = joined (ClientPtr 0) demo_client (NewManager ''h'' 1 empty_rstore)"
  have "sv_conn s (ClientPtr 0) = ConnRead" "cl_RoomID (sv_clients s (ClientPtr 0)) = ''r''"
    by (simp_all add: s_def run_defs demo_client_def)
  moreover have "valid_utf8 ''hello''" by (rule valid_utf8_ascii) simp
  moreover have "skip_ws [CHR 0x0A] = []" by code_simp
  ultimately show ?thesis
    using typed_line_shown [of "''hello''" "[CHR 0x0A]" s "ClientPtr 0" zero_time mem_api undefined s] by auto
qed

text \<open>
  Typing \<open>1\<close> likes: it is sent as a like whose data is \<open>null\<close>, and the server counts exactly one
  for the sender's room, and does nothing else.
\<close>

lemma typed_one_likes:
  assumes "skip_ws tail = []"
  shows "\<exists>msg. keyboard_line ''1'' tail = Some msg \<and>
    conn_read now msg p s = s\<lparr>sv_localLikes := (sv_localLikes s)(cl_RoomID (sv_clients s p) :=
      Some (likes_of (sv_localLikes s) (cl_RoomID (sv_clients s p)) + 1))\<rparr>"
proof -
  obtain msg where msg: "keyboard_line ''1'' tail = Some msg"
    "unmarshal_WsPacket msg = (\<lparr>wp_Type = ActionLike, wp_RoomID = [], wp_Data = Some ''null''\<rparr>, None)"
    using typed_like [OF assms] by blast
  have "unmarshal_Like ''null'' = (zero_like, None)" by code_simp
  then have "conn_read now msg p s = s\<lparr>sv_localLikes := (sv_localLikes s)(cl_RoomID (sv_clients s p) :=
      Some (likes_of (sv_localLikes s) (cl_RoomID (sv_clients s p)) + 1))\<rparr>"
    using msg(2)
    by (simp add: conn_read_def ReadPump_message_def Dispatch_def RegisterActionHandlers_def
        RegisterAction_def like_handler_def raw_bytes_def zero_like_def Let_def)
  with msg(1) show ?thesis by blast
qed

section \<open>Rooms whose names are not UTF-8\<close>

text \<open>
  A request may name any bytes as its room. Two such rooms, accepted as different rooms, are one in
  the database.
\<close>

lemma malformed_rooms_accepted:
  "handle_connect [] ''uid=1&name=a&room=%FF'' True = Connected (NewClient 1 ''a'' [CHR 0xFF])"
  "handle_connect [] ''uid=1&name=a&room=%FE'' True = Connected (NewClient 1 ''a'' [CHR 0xFE])"
  by code_simp+

lemma malformed_rooms_merge: "clean [CHR 0xFF] = replacement" "clean [CHR 0xFE] = replacement"
  by code_simp+

text \<open>
  C14. A danmaku sent to a room whose name is not UTF-8 is accepted, pushed to Kafka and parsed by the
  consumer, but for another room: the one named with U+FFFD in the place of each stray byte. Playback of
  the room it was sent to never returns it, nor any danmaku stored under that name, whatever else the
  database holds, as long as its collation tells the two names apart.
\<close>

theorem malformed_room_lost:
  assumes "sv_conn s p = ConnRead" and "\<not> valid_utf8 (cl_RoomID (sv_clients s p))"
    and "unmarshal_WsPacket msg = (packet, None)" and "wp_Type packet = TypeDanmaku"
    and "unmarshal_DanmakuMessage (raw_bytes (wp_Data packet)) = (inputMsg, None)"
    and "valid_time now" and "sql_find sql run_query rows"
    and "\<not> sq_same sql (clean (cl_RoomID (sv_clients s p))) (cl_RoomID (sv_clients s p))"
  shows "\<exists>out v m. conn_read now msg p s = set_conn p (ConnSend out) s \<and>
    sv_Kafka (handleBroadcast api k out t) = sv_Kafka t @ [(DanmakuSaveTopic, v)] \<and>
    parseMessage v = Inr (Some m) \<and> dm_Content m = dm_Content inputMsg \<and>
    dm_RoomID m = clean (cl_RoomID (sv_clients s p)) \<and>
    (\<forall>db start found. GetPlaybackDanmaku run_query db (cl_RoomID (sv_clients s p)) start = (found, None) \<longrightarrow>
       m \<notin> set found \<and> list_all (\<lambda>k. dm_RoomID k \<noteq> dm_RoomID m) found)"
proof -
  let ?room = "cl_RoomID (sv_clients s p)"
  obtain out v m where m: "m = \<lparr>dm_ID = 0, dm_RoomID = clean ?room, dm_UserID = cl_UserID (sv_clients s p),
      dm_Content = dm_Content inputMsg, dm_SendTime = now\<rparr>"
    and sent: "conn_read now msg p s = set_conn p (ConnSend out) s"
      "sv_Kafka (handleBroadcast api k out t) = sv_Kafka t @ [(DanmakuSaveTopic, v)]"
      "parseMessage v = Inr (Some m)"
    using danmaku_travels [OF assms(1,3-6), of api k t] by blast
  have "dm_RoomID m = clean ?room" using m by simp
  then have "m \<notin> set found \<and> list_all (\<lambda>k. dm_RoomID k \<noteq> dm_RoomID m) found" if "GetPlaybackDanmaku run_query db ?room start = (found, None)" for db start found
    using playback_within [OF assms(7) that] assms(8) by (auto simp: list_all_iff asked_def)
  then show ?thesis using sent m by (intro exI conjI) (assumption | simp)+
qed

theorem malformed_room_lost_witness:
  "\<exists>m. dm_Content m = ''hi'' \<and> dm_RoomID m = replacement \<and>
     m \<notin> set (fst (GetPlaybackDanmaku (list_find plain_sql) [m] [CHR 0xFF] zero_time))"
proof -
  let ?c = "NewClient 1 ''a'' [CHR 0xFF]"
  define s where "s = joined (ClientPtr 0) ?c (NewManager ''h'' 1 empty_rstore)"
  have f: "sv_conn s (ClientPtr 0) = ConnRead" "cl_RoomID (sv_clients s (ClientPtr 0)) = [CHR 0xFF]"
    by (simp_all add: s_def run_defs NewClient_def)
  have bad: "\<not> valid_utf8 (cl_RoomID (sv_clients s (ClientPtr 0)))" unfolding f(2) by code_simp
  have diff: "\<not> sq_same plain_sql replacement [CHR 0xFF]" by code_simp
  note lost = malformed_room_lost [OF f(1) bad danmaku_parsed(1), where now = zero_time and
      inputMsg = "zero_danmaku\<lparr>dm_UserID := 1, dm_Content := ''hi''\<rparr>" and api = mem_api and t = s and k = undefined, OF _ _ _ list_find_sql [of plain_sql]]
  obtain m where m: "dm_Content m = ''hi''" "dm_RoomID m = replacement"
    "\<And>db start found. GetPlaybackDanmaku (list_find plain_sql) db [CHR 0xFF] start = (found, None) \<Longrightarrow> m \<notin> set found"
    using lost diff danmaku_parsed(2) unfolding f(2) malformed_rooms_merge by (auto simp: raw_bytes_def)
  moreover have "snd (GetPlaybackDanmaku (list_find plain_sql) [m] [CHR 0xFF] zero_time) = None"
    by (simp add: GetPlaybackDanmaku_def GetPlayBackDanmaku_def list_find_def Let_def)
  ultimately show ?thesis by (metis prod.collapse)
qed

section \<open>What a start does to the database\<close>

text \<open>
  C24. Starting erases every stored danmaku. When the drop of the table is not refused (its error would
  only be logged), the start of a server, and that of the consumer, leaves no danmaku in the
  database once it has reached it: also when the start then fails, at a migration or because Kafka
  cannot be reached. Until the consumer stores more, every playback answer is empty.
\<close>

theorem startup_erases:
  assumes "migrations (pf_gorm pf) tables" and "gm_open (pf_gorm pf) dsn = Inr db0"
    and "snd (gm_drop (pf_gorm pf) db0 DanmakuModel) = None"
    and "booted_db sp_db (server_main pf h n) = Some d \<or> booted_db cs_db (consumer_main pf) = Some d"
    and "sql_find sql run_query (danmaku_rows tables)"
    and "GetPlaybackDanmaku run_query d room start = (out, None)"
  shows "danmaku_rows tables d = [] \<and> out = []"
proof -
  have "InitDB (pf_gorm pf) = Ready d \<or> InitDB (pf_gorm pf) = Fatal d" using assms(4) by (elim disjE booted_InitDB)
  then have t: "danmaku_rows tables d = []"
    using migrations.InitDB_danmaku [OF assms(1,2)] assms(3) by (simp add: danmaku_rows_def)
  moreover have "out = []"
    using playback_sql [OF assms(5,6)] sql_answer_hit by (cases out) (fastforce simp: t)+
  ultimately show ?thesis by simp
qed

text \<open>A platform on which all works but Kafka.\<close>

definition no_kafka :: "memdb \<Rightarrow> (memdb, unit, rstore, unit, unit) platform" where
  "no_kafka db =
     \<lparr>pf_build = (\<lambda>_. Inr ()), pf_gorm = mem_gorm db, pf_redis = (\<lambda>_. empty_rstore),
      pf_config = \<lparr>ChannelBufferSize' = 256, RequiredAcks = WaitForLocal, Compression = CompressionNone,
        Flush_Messages = 0, Flush_MaxMessages = 0, Flush_Frequency = 0, Flush_Bytes = 0,
        Return_Successes = False, Return_Errors = True, Partitioner = HashPartitioner,
        Offsets_Initial = OffsetNewest, Fetch_Default = 1048576, Consumer_Return_Errors = False\<rparr>,
      pf_producer = (\<lambda>_ _. Inl ()), pf_group = (\<lambda>_ _ _. Inl ())\<rparr>"

theorem startup_erases_witness:
  "\<exists>d. server_main (no_kafka \<lparr>md_tables = (\<lambda>_. None)(DanmakuModel := Some [DanmakuRow demo_row]),
     md_locked = []\<rparr>) ''h'' 1 = Aborted d \<and> danmaku_rows md_tables d = []"
proof -
  let ?db = "\<lparr>md_tables = (\<lambda>_. None)(DanmakuModel := Some [DanmakuRow demo_row]), md_locked = []\<rparr>"
  let ?find = "\<lambda>d q. list_find plain_sql (danmaku_rows md_tables d) q"
  have pf: "pf_gorm (no_kafka ?db) = mem_gorm ?db" by (simp add: no_kafka_def)
  obtain d where d: "server_main (no_kafka ?db) ''h'' 1 = Aborted d"
    by (simp add: server_main_def InitLogger_def InitDB_def InitKafkaProducer_def no_kafka_def mem_gorm_def)
  then have booted: "booted_db sp_db (server_main (no_kafka ?db) ''h'' 1) = Some d \<or>
      booted_db cs_db (consumer_main (no_kafka ?db)) = Some d" by (simp add: booted_db_def)
  have find: "sql_find plain_sql ?find (danmaku_rows md_tables)" using list_find_sql by (simp add: sql_find_def)
  obtain out where play: "GetPlaybackDanmaku ?find d ''r'' zero_time = (out, None)"
    by (simp add: GetPlaybackDanmaku_def GetPlayBackDanmaku_def list_find_def Let_def)
  have opens: "gm_open (pf_gorm (no_kafka ?db)) dsn = Inr ?db"
    "snd (gm_drop (pf_gorm (no_kafka ?db)) ?db DanmakuModel) = None"
    by (simp_all add: pf mem_gorm_def)
  have "migrations (pf_gorm (no_kafka ?db)) md_tables" unfolding pf by (rule memdb.migrations_axioms)
  from startup_erases [OF this opens booted find play] d show ?thesis by blast
qed

end
